(* ===== verification/Prelude.thy ===== *)
theory Prelude
  imports Main "HOL-Library.Word"
begin

text \<open>
  Shared vocabulary of the development: the machine types of the C++ sources, the result type
  of code that can crash or block, the vector and loop idioms the sources use, and the lemmas
  on lists, intervals and results that the components share.
\<close>

section \<open>Machine types and results\<close>

type_synonym uint32 = "32 word"
type_synonym uint64 = "64 word"
type_synonym uint8 = "8 word"

text \<open>
  What stops a C++ thread in these sources: a null pointer is dereferenced, a failed
  \<^verbatim>\<open>assert\<close>, an integer division by zero, an access outside an array or vector, a signed
  overflow, an exception nobody catches, a wait or a loop that nothing ends (\<open>Blocked\<close>), or a wait
  that another call of the same process can end later (\<open>Waiting\<close>).
\<close>

datatype fault = NullDeref | AssertFail | DivByZero | OutOfRange | SignedOverflow | UncaughtException | Blocked | Waiting

type_synonym 'a result = "fault + 'a"

definition bindR :: "'a result \<Rightarrow> ('a \<Rightarrow> 'b result) \<Rightarrow> 'b result" where
  "bindR m f = (case m of Inl e \<Rightarrow> Inl e | Inr x \<Rightarrow> f x)"

lemma bindR_simps [simp]:
  "bindR (Inl e) f = Inl e"
  "bindR (Inr x) f = f x"
  by (simp_all add: bindR_def)

lemma bindR_Inr_iff: "bindR m f = Inr y \<longleftrightarrow> (\<exists>x. m = Inr x \<and> f x = Inr y)"
  by (cases m) simp_all

lemma bindR_InrE [elim!]:
  assumes "bindR m f = Inr y"
  obtains x where "m = Inr x" "f x = Inr y"
  using assms by (cases m) simp_all

lemma bindR_assoc: "bindR (bindR m f) g = bindR m (\<lambda>x. bindR (f x) g)"
  by (cases m) simp_all

lemma bindR_cong [fundef_cong]:
  "m = m' \<Longrightarrow> (\<And>x. m' = Inr x \<Longrightarrow> f x = f' x) \<Longrightarrow> bindR m f = bindR m' f'"
  by (cases m') simp_all

text \<open>The operations of a list run one after the other.\<close>

fun runAll :: "('b \<Rightarrow> 's \<Rightarrow> 's result) \<Rightarrow> 'b list \<Rightarrow> 's \<Rightarrow> 's result" where
  "runAll put [] s = Inr s"
| "runAll put (b # bs) s = bindR (put b s) (runAll put bs)"

text \<open>\<^verbatim>\<open>INT_MAX\<close> of \<^verbatim>\<open><climits>\<close>, converted to \<^verbatim>\<open>uint32_t\<close>.\<close>

definition INT_MAX :: uint32 where
  "INT_MAX = 2147483647"

section \<open>Vectors and index loops\<close>

text \<open>\<^verbatim>\<open>v.insert(v.begin() + i, x)\<close> and \<^verbatim>\<open>v.erase(v.begin() + i, v.begin() + j)\<close>.\<close>

definition vinsert :: "nat \<Rightarrow> 'a \<Rightarrow> 'a list \<Rightarrow> 'a list" where
  "vinsert i x xs = take i xs @ x # drop i xs"

definition verase :: "nat \<Rightarrow> nat \<Rightarrow> 'a list \<Rightarrow> 'a list" where
  "verase i j xs = take i xs @ drop j xs"

text \<open>
  A loop that leaves at the first index (counting up) or at the last index (counting down)
  whose element satisfies a test; \<open>None\<close> is the sources' \<open>-1\<close>.
\<close>

fun first_index :: "('a \<Rightarrow> bool) \<Rightarrow> 'a list \<Rightarrow> nat option" where
  "first_index P [] = None"
| "first_index P (x # xs) = (if P x then Some 0 else map_option Suc (first_index P xs))"

fun last_index :: "('a \<Rightarrow> bool) \<Rightarrow> 'a list \<Rightarrow> nat option" where
  "last_index P [] = None"
| "last_index P (x # xs) =
     (case last_index P xs of Some i \<Rightarrow> Some (Suc i) | None \<Rightarrow> if P x then Some 0 else None)"

lemma first_index_None: "first_index P xs = None \<longleftrightarrow> (\<forall>x\<in>set xs. \<not> P x)"
  by (induction xs) auto

lemma first_index_Some:
  "first_index P xs = Some i \<longleftrightarrow> i < length xs \<and> P (xs ! i) \<and> (\<forall>j<i. \<not> P (xs ! j))"
proof (induction xs arbitrary: i)
  case Nil
  then show ?case by simp
next
  case (Cons x xs)
  then show ?case
    by (cases i) (auto simp: nth_Cons split: nat.splits)
qed

lemma last_index_None: "last_index P xs = None \<longleftrightarrow> (\<forall>x\<in>set xs. \<not> P x)"
  by (induction xs) (auto split: option.splits)

lemma last_index_Some:
  "last_index P xs = Some i \<longleftrightarrow>
     i < length xs \<and> P (xs ! i) \<and> (\<forall>j. i < j \<and> j < length xs \<longrightarrow> \<not> P (xs ! j))"
proof (induction xs arbitrary: i)
  case Nil
  then show ?case by simp
next
  case (Cons x xs)
  show ?case
  proof (cases "last_index P xs")
    case None
    then have "\<forall>y\<in>set xs. \<not> P y" by (simp add: last_index_None)
    with None show ?thesis
      by (cases i) (auto simp: nth_Cons split: nat.splits)
  next
    case (Some k)
    with Cons.IH [of k] have k: "k < length xs" "P (xs ! k)"
      "\<forall>j. k < j \<and> j < length xs \<longrightarrow> \<not> P (xs ! j)" by simp_all
    show ?thesis
    proof (cases i)
      case 0
      with k Some show ?thesis by (auto simp: nth_Cons split: nat.splits)
    next
      case (Suc i')
      with Some Cons.IH [of i'] show ?thesis
        by (auto simp: nth_Cons split: nat.splits)
    qed
  qed
qed

lemma set_vinsert [simp]: "set (vinsert i x xs) = insert x (set xs)"
  by (auto simp: vinsert_def dest: in_set_takeD in_set_dropD)
     (metis Un_iff append_take_drop_id set_append)

lemma set_verase_subset: "set (verase i j xs) \<subseteq> set xs"
  by (auto simp: verase_def dest: in_set_takeD in_set_dropD)

lemma vinsert_at: "length A = s \<Longrightarrow> vinsert s x (A @ B) = A @ x # B"
  by (simp add: vinsert_def)

lemma verase_mid: "length A = s \<Longrightarrow> s + length M = e \<Longrightarrow> verase s e (A @ M @ B) = A @ B"
  by (simp add: verase_def)

text \<open>A list cut at two positions, the shape every erase-and-insert of the sources leaves.\<close>

lemma split3: "i \<le> j \<Longrightarrow> xs = take i xs @ take (j - i) (drop i xs) @ drop j xs"
  by (metis append_assoc append_take_drop_id le_add_diff_inverse take_add)

text \<open>
  The run of elements that a search for \<open>P\<close> followed by a search for \<open>\<not> P\<close> delimits, with
  the second index left at the first one when the second search finds nothing.
\<close>

lemma run_bounds:
  assumes s: "first_index P xs = Some s"
    and e: "e = (case first_index (\<lambda>p. \<not> P p) (drop (s + 1) xs) of
                   Some j \<Rightarrow> s + 1 + j - 1 | None \<Rightarrow> s)"
  shows "s \<le> e" "e < length xs" "\<forall>i. s \<le> i \<and> i \<le> e \<longrightarrow> P (xs ! i)"
proof -
  from s have sl: "s < length xs" "P (xs ! s)"
    by (simp_all add: first_index_Some)
  have "s \<le> e \<and> e < length xs \<and> (\<forall>i. s \<le> i \<and> i \<le> e \<longrightarrow> P (xs ! i))"
  proof (cases "first_index (\<lambda>p. \<not> P p) (drop (s + 1) xs)")
    case None
    with e sl show ?thesis by auto
  next
    case (Some j)
    then have j: "j < length xs - (s + 1)" "\<forall>k<j. P (drop (s + 1) xs ! k)"
      by (auto simp: first_index_Some)
    have "P (xs ! i)" if "s \<le> i" "i \<le> s + j" for i
    proof (cases "i = s")
      case True
      then show ?thesis using sl by simp
    next
      case False
      with that have "i - (s + 1) < j" by auto
      with j(2) have "P (drop (s + 1) xs ! (i - (s + 1)))" by blast
      then show ?thesis using that False sl j(1) by simp
    qed
    with Some e sl j show ?thesis by auto
  qed
  then show "s \<le> e" "e < length xs" "\<forall>i. s \<le> i \<and> i \<le> e \<longrightarrow> P (xs ! i)" by auto
qed

lemma run_cut:
  assumes s: "first_index P xs = Some s"
    and e: "e = (case first_index (\<lambda>p. \<not> P p) (drop (s + 1) xs) of
                   Some j \<Rightarrow> s + 1 + j - 1 | None \<Rightarrow> s)"
  obtains A M B where "xs = A @ M @ B" "length A = s" "s + length M = e + 1" "M \<noteq> []"
    "\<forall>p\<in>set M. P p" "\<forall>p\<in>set A. \<not> P p"
proof -
  note b = run_bounds [OF assms]
  show thesis
  proof (rule that [of "take s xs" "take (e + 1 - s) (drop s xs)" "drop (e + 1) xs"])
    show "xs = take s xs @ take (e + 1 - s) (drop s xs) @ drop (e + 1) xs"
      using b(1) by (intro split3) simp
    show "\<forall>p\<in>set (take (e + 1 - s) (drop s xs)). P p"
      using b by (auto simp: in_set_conv_nth)
    show "\<forall>p\<in>set (take s xs). \<not> P p"
      using s by (auto simp: in_set_conv_nth first_index_Some)
  qed (use b in auto)
qed

lemma nth_middle_ends:
  assumes "length A = s" "s + length M = e + 1" "M \<noteq> []"
  shows "(A @ M @ B) ! s = hd M" "(A @ M @ B) ! e = last M"
  using assms by (cases M; force simp: nth_append last_conv_nth)+

lemma index_cut:
  assumes "first_index P xs = Some s" "last_index P xs = Some e"
  obtains A M B where "xs = A @ M @ B" "length A = s" "s + length M = e + 1" "M \<noteq> []"
    "P (hd M)" "P (last M)" "\<forall>p\<in>set A. \<not> P p" "\<forall>p\<in>set B. \<not> P p"
proof -
  from assms have f: "s < length xs" "P (xs ! s)" "\<forall>j. j < s \<longrightarrow> \<not> P (xs ! j)"
    and l: "e < length xs" "P (xs ! e)" "\<forall>j. e < j \<and> j < length xs \<longrightarrow> \<not> P (xs ! j)"
    unfolding first_index_Some last_index_Some by auto
  have se: "s \<le> e" using f l by (meson not_le)
  let ?A = "take s xs" and ?M = "take (e + 1 - s) (drop s xs)" and ?B = "drop (e + 1) xs"
  have xs: "xs = ?A @ ?M @ ?B" using se by (intro split3) simp
  have len: "length ?A = s" "s + length ?M = e + 1" "?M \<noteq> []" using se f l by auto
  have "P (hd ?M)" "P (last ?M)"
    using nth_middle_ends [OF len, of ?B] f(2) l(2) xs by metis+
  moreover have "\<forall>p\<in>set ?A. \<not> P p" "\<forall>p\<in>set ?B. \<not> P p"
    using f l by (auto simp: in_set_conv_nth)
  ultimately show thesis using that [OF xs len] by blast
qed

section \<open>Intervals and signed comparison\<close>

lemma ivl_cover: "{a..<d} \<subseteq> {a..<b} \<union> {b..<c} \<union> {c..<(d::'a::linorder)}"
  by auto

lemma sint_small: "x \<le> INT_MAX \<Longrightarrow> sint x = uint (x :: uint32)"
proof -
  assume "x \<le> INT_MAX"
  then have "uint x \<le> uint INT_MAX" by (simp add: word_le_def)
  then have "uint x \<le> 2147483647" by (simp add: INT_MAX_def)
  moreover have "- (2 ^ 31) \<le> uint x" by (rule order_trans [OF _ uint_ge_0]) simp
  ultimately show ?thesis
    by (simp add: sint_uint signed_take_bit_int_eq_self)
qed

lemma sless_small:
  "x \<le> INT_MAX \<Longrightarrow> y \<le> INT_MAX \<Longrightarrow> sint x < sint (y :: uint32) \<longleftrightarrow> x < y"
  by (simp add: sint_small word_less_def)

end
