(* ===== verification/Util.thy ===== *)
theory Util
  imports Prelude
begin

unbundle bit_operations_syntax

text \<open>
  The configuration constants (\<^verbatim>\<open>include/config.h\<close>, \<^verbatim>\<open>include/util.h\<close>), the error codes
  and messages, and the hash of the client cache (\<^verbatim>\<open>common/util.cpp\<close>).
\<close>

section \<open>Configuration\<close>

definition PFS_BLOCK_SIZE :: nat where "PFS_BLOCK_SIZE = 1"
definition STRIP_SIZE :: nat where "STRIP_SIZE = 1"
definition NUM_FILE_SERVERS :: nat where "NUM_FILE_SERVERS = 5"
definition CLIENT_CACHE_SIZE :: nat where "CLIENT_CACHE_SIZE = 2"

definition pfsBlockSizeInBytes :: nat where
  "pfsBlockSizeInBytes = PFS_BLOCK_SIZE * 1024"

definition clientCacheSizeInBytes :: nat where
  "clientCacheSizeInBytes = CLIENT_CACHE_SIZE * 1024 * 1024"

text \<open>The macro \<^verbatim>\<open>HASH_BUCKETS\<close> and the mask \<^verbatim>\<open>((HASH_BUCKETS) - 1)\<close>.\<close>

definition HASH_BUCKETS :: nat where
  "HASH_BUCKETS = (clientCacheSizeInBytes div pfsBlockSizeInBytes) div 2"

definition HASH_BUCKETS_MASK :: nat where
  "HASH_BUCKETS_MASK = HASH_BUCKETS - 1"

lemma block_size [simp]: "pfsBlockSizeInBytes = 1024"
  by (simp add: pfsBlockSizeInBytes_def PFS_BLOCK_SIZE_def)

lemma cache_size [simp]: "clientCacheSizeInBytes = 2097152"
  by (simp add: clientCacheSizeInBytes_def CLIENT_CACHE_SIZE_def)

lemma hash_buckets [simp]: "HASH_BUCKETS = 1024" "HASH_BUCKETS_MASK = 1023"
  by (simp_all add: HASH_BUCKETS_def HASH_BUCKETS_MASK_def)

section \<open>Error codes\<close>

definition NO_ERROR :: int where "NO_ERROR = 0"
definition ERROR_ALREADY_EXISTS :: int where "ERROR_ALREADY_EXISTS = -1"
definition ERROR_DOES_NOT_EXIST :: int where "ERROR_DOES_NOT_EXIST = -2"
definition ERROR_CLOSE_UNOPENED_FILE :: int where "ERROR_CLOSE_UNOPENED_FILE = -3"
definition ERROR_DELETE_OPEN_FILE :: int where "ERROR_DELETE_OPEN_FILE = -4"
definition ERROR_REOPEN_FILE :: int where "ERROR_REOPEN_FILE = -5"
definition ERROR_GET_PERMISSION_UNOPENED_FILE :: int where
  "ERROR_GET_PERMISSION_UNOPENED_FILE = -6"

lemmas error_codes =
  NO_ERROR_def ERROR_ALREADY_EXISTS_def ERROR_DOES_NOT_EXIST_def
  ERROR_CLOSE_UNOPENED_FILE_def ERROR_DELETE_OPEN_FILE_def ERROR_REOPEN_FILE_def
  ERROR_GET_PERMISSION_UNOPENED_FILE_def

definition getErrorMessage :: "int \<Rightarrow> string" where
  "getErrorMessage error_code =
    (if error_code \<ge> 0 then ''''
     else if error_code = ERROR_ALREADY_EXISTS then ''Error : Already Exists''
     else if error_code = ERROR_DOES_NOT_EXIST then ''Error : Does not exist''
     else if error_code = ERROR_CLOSE_UNOPENED_FILE then ''Error : Closing an unopened file''
     else if error_code = ERROR_DELETE_OPEN_FILE then ''Error : Deleting an opened file''
     else if error_code = ERROR_REOPEN_FILE then ''Error : Reopening a file''
     else if error_code = ERROR_GET_PERMISSION_UNOPENED_FILE
       then ''Error : Getting r/w permission for an unopened file''
     else ''Error : Unknown Error'')"

section \<open>The hash of the client cache\<close>

text \<open>
  \<^verbatim>\<open>std::hash<uint32_t>\<close> is the identity in the standard library of the compiler the
  Makefile names; \<^verbatim>\<open>std::size_t\<close> has 64 bits.
\<close>

definition std_hash :: "uint32 \<Rightarrow> uint64" where
  "std_hash x = ucast x"

definition hashPFS :: "uint32 \<Rightarrow> uint32 \<Rightarrow> uint64" where
  "hashPFS fdes blockAddr =
    (let h1 = std_hash fdes; h2 = std_hash blockAddr
     in (h1 XOR push_bit 1 h2) AND word_of_nat HASH_BUCKETS_MASK)"

lemma hashPFS_bound: "unat (hashPFS fdes blockAddr) < HASH_BUCKETS"
proof -
  have "hashPFS fdes blockAddr \<le> word_of_nat HASH_BUCKETS_MASK"
    by (simp add: hashPFS_def Let_def word_and_le1)
  then have "unat (hashPFS fdes blockAddr) \<le> unat (word_of_nat HASH_BUCKETS_MASK :: uint64)"
    by (simp add: word_le_nat_alt)
  then show ?thesis by simp
qed

end
