(* ===== verification/Cache_Block.thy ===== *)
theory Cache_Block
  imports Util
begin

text \<open>
  One block of the client cache (\<^verbatim>\<open>client/cache_block.cpp\<close>) and the links of its four intrusive
  lists (\<^verbatim>\<open>include/cache_block_metadata.h\<close>). Nodes are named by numbers, a null pointer is
  \<open>None\<close>. Each \<^verbatim>\<open>CacheBlockMetadata\<close> owns one \<^verbatim>\<open>CacheBlock\<close> and four \<^verbatim>\<open>ListNode\<close>s for its
  whole life, so the links of one kind form a heap of their own: a function from node to
  \<^verbatim>\<open>ListNode\<close>.
\<close>

record CacheBlock =
  fdes :: uint32
  addr :: uint32
  dirty :: "bool list"
  clean :: bool
  valid :: bool
  data :: "uint8 list"

definition CacheBlock_reset :: "CacheBlock \<Rightarrow> CacheBlock" where
  "CacheBlock_reset b = b\<lparr>valid := False, dirty := replicate pfsBlockSizeInBytes False, clean := True\<rparr>"

definition isDirty :: "CacheBlock \<Rightarrow> bool" where
  "isDirty b = (\<not> clean b)"

definition resetDirty :: "CacheBlock \<Rightarrow> CacheBlock" where
  "resetDirty b = b\<lparr>dirty := replicate pfsBlockSizeInBytes False, clean := True\<rparr>"

section \<open>Links\<close>

record ListNode =
  prev :: "nat option"
  nxt :: "nat option"

type_synonym links = "nat \<Rightarrow> ListNode"

definition resetNode :: ListNode where
  "resetNode = \<lparr>prev = None, nxt = None\<rparr>"

text \<open>\<^verbatim>\<open>p->...->prev = v\<close> and \<^verbatim>\<open>p->...->next = v\<close>; the guarded forms do nothing for null.\<close>

definition set_prev :: "nat \<Rightarrow> nat option \<Rightarrow> links \<Rightarrow> links" where
  "set_prev p v h = h(p := (h p)\<lparr>prev := v\<rparr>)"

definition set_next :: "nat \<Rightarrow> nat option \<Rightarrow> links \<Rightarrow> links" where
  "set_next p v h = h(p := (h p)\<lparr>nxt := v\<rparr>)"

definition set_prev_if :: "nat option \<Rightarrow> nat option \<Rightarrow> links \<Rightarrow> links" where
  "set_prev_if p v h = (case p of None \<Rightarrow> h | Some q \<Rightarrow> set_prev q v h)"

definition set_next_if :: "nat option \<Rightarrow> nat option \<Rightarrow> links \<Rightarrow> links" where
  "set_next_if p v h = (case p of None \<Rightarrow> h | Some q \<Rightarrow> set_next q v h)"

section \<open>The list a chain of links stands for\<close>

fun head_of :: "'a list \<Rightarrow> 'a option" where
  "head_of [] = None"
| "head_of (x # xs) = Some x"

fun last_of :: "'a list \<Rightarrow> 'a option" where
  "last_of [] = None"
| "last_of (x # xs) = (case last_of xs of None \<Rightarrow> Some x | Some y \<Rightarrow> Some y)"

text \<open>
  The nodes of \<open>xs\<close> are linked in both directions; \<open>p\<close> is the node before them and \<open>q\<close> the
  node behind them.
\<close>

fun dseg :: "links \<Rightarrow> nat option \<Rightarrow> nat list \<Rightarrow> nat option \<Rightarrow> bool" where
  "dseg h p [] q = True"
| "dseg h p (x # xs) q \<longleftrightarrow>
     prev (h x) = p \<and> nxt (h x) = (if xs = [] then q else head_of xs) \<and> dseg h (Some x) xs q"

text \<open>
  A doubly linked list: its nodes are distinct, every other node of the heap is reset, and the
  two end pointers are those of the list.
\<close>

definition dlist :: "links \<Rightarrow> nat option \<Rightarrow> nat option \<Rightarrow> nat list \<Rightarrow> bool" where
  "dlist h mru lru xs \<longleftrightarrow> dseg h None xs None \<and> distinct xs \<and> mru = head_of xs \<and> lru = last_of xs \<and>
     (\<forall>x. x \<notin> set xs \<longrightarrow> h x = resetNode)"

lemma head_of_None [simp]: "head_of xs = None \<longleftrightarrow> xs = []"
  by (cases xs) auto

lemma head_of_append: "head_of (xs @ ys) = (if xs = [] then head_of ys else head_of xs)"
  by (cases xs) auto

lemma last_of_snoc [simp]: "last_of (xs @ [x]) = Some x"
  by (induction xs) auto

lemma last_of_None [simp]: "last_of xs = None \<longleftrightarrow> xs = []"
  by (cases xs) (auto split: option.splits)

lemma last_of_append: "last_of (xs @ ys) = (if ys = [] then last_of xs else last_of ys)"
  by (induction xs) (auto split: option.splits)

lemma head_of_Some: "head_of xs = Some x \<longleftrightarrow> (\<exists>ys. xs = x # ys)"
  by (cases xs) auto

lemma last_of_Some: "last_of xs = Some x \<longleftrightarrow> (\<exists>ys. xs = ys @ [x])"
  by (cases xs rule: rev_cases) auto

lemma dseg_append:
  "dseg h p (xs @ ys) q \<longleftrightarrow>
     dseg h p xs (if ys = [] then q else head_of ys) \<and> dseg h (if xs = [] then p else last_of xs) ys q"
  by (induction xs arbitrary: p) (auto simp: head_of_append split: option.splits)

lemma dseg_cong: "(\<And>x. x \<in> set xs \<Longrightarrow> h x = h' x) \<Longrightarrow> dseg h p xs q = dseg h' p xs q"
  by (induction xs arbitrary: p) auto

lemma dseg_other:
  assumes "x \<notin> set xs"
  shows "dseg (h(x := n)) p xs q = dseg h p xs q"
  by (rule dseg_cong) (use assms in auto)

lemma dseg_front:
  assumes "distinct xs" "dseg h p xs q"
  shows "dseg (set_prev_if (head_of xs) p' h) p' xs q"
  using assms by (cases xs) (auto simp: set_prev_if_def set_prev_def dseg_other)

lemma dseg_back:
  assumes "distinct xs" "dseg h p xs q"
  shows "dseg (set_next_if (last_of xs) q' h) p xs q'"
proof (cases xs rule: rev_cases)
  case (snoc ys z)
  with assms show ?thesis
    by (auto simp: dseg_append set_next_if_def set_next_def dseg_other)
qed simp

end
