(* ===== verification/Cache.thy ===== *)
theory Cache
  imports Cache_Block
begin

text \<open>
  The client's block cache: class \<^verbatim>\<open>Cache\<close> (\<^verbatim>\<open>client/cache.cpp\<close>), with its recency list of
  clean blocks, its dirty list, its hash table and its free list, and the bodies of the harvester
  and flusher threads. \<^verbatim>\<open>PFSClient::flush\<close>, which writes a dirty block to its file server, is
  the argument \<open>flush\<close> of the operations that call it; it acts on the state \<open>w\<close> of the rest of
  the system. An operation holds \<^verbatim>\<open>cacheLock\<close> (or \<^verbatim>\<open>freeListLock\<close>) around its accesses and
  releases it on every path, so the mutexes have no state of their own. The printing of the lists is
  not modelled.
\<close>

section \<open>State\<close>

record Cache =
  block :: "nat \<Rightarrow> CacheBlock"
  bucketId :: "nat \<Rightarrow> uint32"
  dirtyNode :: links
  recencyNode :: links
  freeNode :: links
  bucketNode :: links
  freeListHead :: "nat option"
  freeBlockSemaphore :: nat
  harvesterSemaphore :: nat
  freeBlockCount :: uint32
  LRUNode :: "nat option"
  MRUNode :: "nat option"
  dirtyListLRU :: "nat option"
  dirtyListMRU :: "nat option"
  hashTable :: "nat \<Rightarrow> nat option"

definition blockCount :: nat where
  "blockCount = clientCacheSizeInBytes div pfsBlockSizeInBytes"

lemma blockCount [simp]: "blockCount = 2048"
  by (simp add: blockCount_def)

text \<open>
  The constructor: \<open>mem\<close> is what the memory of the new blocks holds. \<open>linkFree\<close> is its loop,
  which pushes one node after the other on the free list.
\<close>

fun linkFree :: "nat list \<Rightarrow> links \<Rightarrow> nat option \<Rightarrow> links \<times> nat option" where
  "linkFree [] h head = (h, head)"
| "linkFree (i # is) h head = linkFree is (set_prev_if head (Some i) (set_next i head h)) (Some i)"

definition new_Cache :: "(nat \<Rightarrow> CacheBlock) \<Rightarrow> Cache" where
  "new_Cache mem =
    (let (h, head) = linkFree [0..<blockCount] (\<lambda>_. resetNode) None
     in \<lparr>block = (\<lambda>i. CacheBlock_reset (mem i)), bucketId = (\<lambda>_. - 1),
         dirtyNode = (\<lambda>_. resetNode), recencyNode = (\<lambda>_. resetNode), freeNode = h,
         bucketNode = (\<lambda>_. resetNode), freeListHead = head, freeBlockSemaphore = blockCount,
         harvesterSemaphore = 0, freeBlockCount = word_of_nat blockCount,
         LRUNode = None, MRUNode = None, dirtyListLRU = None, dirtyListMRU = None,
         hashTable = (\<lambda>_. None)\<rparr>)"

text \<open>\<^verbatim>\<open>CacheBlockMetadata::reset\<close>.\<close>

definition resetMetadata :: "nat \<Rightarrow> Cache \<Rightarrow> Cache" where
  "resetMetadata node c =
    c\<lparr>bucketId := (bucketId c)(node := - 1), dirtyNode := (dirtyNode c)(node := resetNode),
      recencyNode := (recencyNode c)(node := resetNode),
      freeNode := (freeNode c)(node := resetNode),
      bucketNode := (bucketNode c)(node := resetNode)\<rparr>"

section \<open>The two doubly linked lists\<close>

text \<open>
  \<^verbatim>\<open>addToRecencyList\<close> and \<^verbatim>\<open>addToDirtyList\<close>, \<^verbatim>\<open>removeFromRecencyList\<close> and
  \<^verbatim>\<open>removeFromDirtyList\<close>, \<^verbatim>\<open>removeRecencyListLRU\<close> and \<^verbatim>\<open>removeDirtyListLRU\<close> have the same bodies
  on different fields. A list is its links and the pointers to its most and least recently used
  node.
\<close>

type_synonym dl = "links \<times> nat option \<times> nat option"

fun dl_add :: "nat \<Rightarrow> dl \<Rightarrow> dl" where
  "dl_add node (h, mru, lru) =
    (let nodeNext = mru;
         lru' = (if lru = None then Some node else lru)
     in (set_prev_if nodeNext (Some node) (set_next node nodeNext h), Some node, lru'))"

fun dl_remove :: "nat \<Rightarrow> dl \<Rightarrow> dl" where
  "dl_remove node (h, mru, lru) =
    (if Some node = mru \<and> Some node = lru then (h, None, None)
     else
       let p = prev (h node);
           n = nxt (h node);
           lru' = (if Some node = lru then p else lru);
           h1 = set_next_if p n h;
           h2 = set_prev_if n p h1;
           mru' = (if Some node = mru then n else mru)
       in (h2(node := resetNode), mru', lru'))"

fun dl_removeLRU :: "dl \<Rightarrow> (nat option \<times> dl) result" where
  "dl_removeLRU (h, mru, lru) =
    (case lru of
       None \<Rightarrow> Inr (None, (h, mru, lru))
     | Some node \<Rightarrow>
         if lru = mru then Inr (Some node, (h(node := resetNode), None, None))
         else (case prev (h node) of
                 None \<Rightarrow> Inl AssertFail
               | Some p \<Rightarrow>
                   if nxt (h node) \<noteq> None then Inl AssertFail
                   else Inr (Some node, ((set_next p (nxt (h node)) h)(node := resetNode), mru, Some p))))"

definition recency :: "Cache \<Rightarrow> dl" where
  "recency c = (recencyNode c, MRUNode c, LRUNode c)"

definition with_recency :: "dl \<Rightarrow> Cache \<Rightarrow> Cache" where
  "with_recency l c = c\<lparr>recencyNode := fst l, MRUNode := fst (snd l), LRUNode := snd (snd l)\<rparr>"

definition dirties :: "Cache \<Rightarrow> dl" where
  "dirties c = (dirtyNode c, dirtyListMRU c, dirtyListLRU c)"

definition with_dirties :: "dl \<Rightarrow> Cache \<Rightarrow> Cache" where
  "with_dirties l c = c\<lparr>dirtyNode := fst l, dirtyListMRU := fst (snd l), dirtyListLRU := snd (snd l)\<rparr>"

definition addToRecencyList :: "nat \<Rightarrow> Cache \<Rightarrow> Cache" where
  "addToRecencyList node c = with_recency (dl_add node (recency c)) c"

definition removeFromRecencyList :: "nat \<Rightarrow> Cache \<Rightarrow> Cache" where
  "removeFromRecencyList node c = with_recency (dl_remove node (recency c)) c"

definition removeRecencyListLRU :: "Cache \<Rightarrow> (nat option \<times> Cache) result" where
  "removeRecencyListLRU c =
    bindR (dl_removeLRU (recency c)) (\<lambda>(node, l). Inr (node, with_recency l c))"

definition addToDirtyList :: "nat \<Rightarrow> Cache \<Rightarrow> Cache" where
  "addToDirtyList node c = with_dirties (dl_add node (dirties c)) c"

definition removeFromDirtyList :: "nat \<Rightarrow> Cache \<Rightarrow> Cache" where
  "removeFromDirtyList node c = with_dirties (dl_remove node (dirties c)) c"

definition removeDirtyListLRU :: "Cache \<Rightarrow> (nat option \<times> Cache) result" where
  "removeDirtyListLRU c =
    bindR (dl_removeLRU (dirties c)) (\<lambda>(node, l). Inr (node, with_dirties l c))"

section \<open>Hash table and free list\<close>

text \<open>\<^verbatim>\<open>hashTable[b]\<close> has \<^verbatim>\<open>HASH_BUCKETS\<close> entries.\<close>

definition bucketAt :: "uint32 \<Rightarrow> Cache \<Rightarrow> nat option result" where
  "bucketAt b c = (if unat b < HASH_BUCKETS then Inr (hashTable c (unat b)) else Inl OutOfRange)"

definition addToHashmap :: "nat \<Rightarrow> Cache \<Rightarrow> Cache result" where
  "addToHashmap node c =
    bindR (bucketAt (bucketId c node) c) (\<lambda>nodeNext.
      Inr (c\<lparr>hashTable := (hashTable c)(unat (bucketId c node) := Some node),
             bucketNode := set_prev_if nodeNext (Some node) (set_next node nodeNext (bucketNode c))\<rparr>))"

definition removeFromHashmap :: "nat \<Rightarrow> Cache \<Rightarrow> Cache result" where
  "removeFromHashmap node c =
    (let bucketPrev = prev (bucketNode c node);
         bucketNext = nxt (bucketNode c node)
     in bindR (bucketAt (bucketId c node) c) (\<lambda>first.
          let t = (if Some node = first then (hashTable c)(unat (bucketId c node) := bucketNext)
                   else hashTable c);
              h1 = set_next_if bucketPrev bucketNext (bucketNode c);
              h2 = set_prev_if bucketNext bucketPrev h1
          in Inr (c\<lparr>hashTable := t, bucketNode := h2(node := resetNode)\<rparr>)))"

definition addToFreeList :: "nat \<Rightarrow> Cache \<Rightarrow> bool \<times> Cache" where
  "addToFreeList node c =
    (let nodeNext = freeListHead c;
         c' = c\<lparr>freeListHead := Some node,
                freeNode := set_prev_if nodeNext (Some node) (set_next node nodeNext (freeNode c)),
                freeBlockCount := freeBlockCount c + 1\<rparr>
     in (freeBlockCount c' < 2020, c'))"

text \<open>\<^verbatim>\<open>sem_wait\<close> on the semaphore of free blocks, which nothing posts.\<close>

definition waitFreeBlock :: "Cache \<Rightarrow> Cache result" where
  "waitFreeBlock c =
    (if freeBlockSemaphore c = 0 then Inl Blocked
     else Inr (c\<lparr>freeBlockSemaphore := freeBlockSemaphore c - 1\<rparr>))"

definition getFreeListEntry :: "Cache \<Rightarrow> (nat \<times> Cache) result" where
  "getFreeListEntry c =
    bindR (waitFreeBlock c) (\<lambda>c.
      case freeListHead c of
        None \<Rightarrow> Inl AssertFail
      | Some node \<Rightarrow>
          (case nxt (freeNode c node) of
             None \<Rightarrow> Inl NullDeref
           | Some nx \<Rightarrow>
               let c1 = c\<lparr>freeNode := set_prev nx None (freeNode c), freeListHead := Some nx,
                          freeBlockCount := freeBlockCount c - 1\<rparr>
               in Inr (node,
                       if freeBlockCount c1 \<le> 2000
                       then c1\<lparr>harvesterSemaphore := harvesterSemaphore c1 + 1\<rparr> else c1)))"

section \<open>lookup\<close>

text \<open>
  The walk along a chain of \<open>next\<close> links. A chain without repetition has at most
  \<open>blockCount\<close> nodes, so a walk that uses up \<open>blockCount + 1\<close> steps goes round for ever.
\<close>

fun findChain :: "nat \<Rightarrow> (nat \<Rightarrow> bool) \<Rightarrow> links \<Rightarrow> nat option \<Rightarrow> nat option result" where
  "findChain 0 P h node = Inl Blocked"
| "findChain (Suc n) P h None = Inr None"
| "findChain (Suc n) P h (Some node) = (if P node then Inr (Some node) else findChain n P h (nxt (h node)))"

definition matches :: "uint32 \<Rightarrow> uint32 \<Rightarrow> CacheBlock \<Rightarrow> bool" where
  "matches fileDes blockAddr b = (fdes b = fileDes \<and> addr b = blockAddr)"

definition lookup :: "uint32 \<Rightarrow> uint32 \<Rightarrow> Cache \<Rightarrow> nat option result" where
  "lookup fileDes blockAddr c =
    bindR (bucketAt (ucast (hashPFS fileDes blockAddr)) c) (\<lambda>first.
      findChain (blockCount + 1) (\<lambda>node. matches fileDes blockAddr (block c node)) (bucketNode c) first)"

section \<open>The operations of the client\<close>

text \<open>\<open>None\<close> is the result \<^verbatim>\<open>false\<close>: a miss.\<close>

definition readBlock :: "uint32 \<Rightarrow> uint32 \<Rightarrow> Cache \<Rightarrow> (uint8 list option \<times> Cache) result" where
  "readBlock fileDes blockAddr c =
    bindR (lookup fileDes blockAddr c) (\<lambda>r.
      case r of
        None \<Rightarrow> Inr (None, c)
      | Some node \<Rightarrow>
          let out = data (block c node);
              c' = (if clean (block c node)
                    then addToRecencyList node (removeFromRecencyList node c)
                    else addToDirtyList node (removeFromDirtyList node c))
          in Inr (Some out, c'))"

text \<open>The copy of \<^verbatim>\<open>size\<close> bytes into the block and the marking of its dirty flags.\<close>

definition writeInto :: "nat \<Rightarrow> nat \<Rightarrow> uint8 list \<Rightarrow> CacheBlock \<Rightarrow> CacheBlock" where
  "writeInto off sz src b =
    b\<lparr>data := take off (data b) @ take sz src @ drop (off + sz) (data b),
      dirty := take off (dirty b) @ replicate sz True @ drop (off + sz) (dirty b)\<rparr>"

definition cache_write ::
  "uint32 \<Rightarrow> uint32 \<Rightarrow> uint32 \<Rightarrow> uint8 list \<Rightarrow> Cache \<Rightarrow> (bool \<times> Cache) result" where
  "cache_write fileDes offset sz src c =
    (let blockAddr = offset div word_of_nat pfsBlockSizeInBytes * word_of_nat pfsBlockSizeInBytes
     in bindR (lookup fileDes blockAddr c) (\<lambda>r.
          case r of
            None \<Rightarrow> Inr (False, c)
          | Some node \<Rightarrow>
              let blockOffset = unat (offset mod word_of_nat pfsBlockSizeInBytes)
              in if blockOffset + unat sz > pfsBlockSizeInBytes \<or> unat sz > length src
                 then Inl OutOfRange
                 else
                   let b = writeInto blockOffset (unat sz) src (block c node);
                       c1 = c\<lparr>block := (block c)(node := b)\<rparr>;
                       c2 = (if clean b then removeFromRecencyList node c1
                             else removeFromDirtyList node c1);
                       c3 = c2\<lparr>block := (block c2)(node := (block c2 node)\<lparr>clean := False\<rparr>)\<rparr>
                   in Inr (True, addToDirtyList node c3)))"

definition addBlock :: "uint32 \<Rightarrow> uint32 \<Rightarrow> uint8 list \<Rightarrow> Cache \<Rightarrow> Cache result" where
  "addBlock fileDes blockAddr src c =
    (if blockAddr AND (word_of_nat pfsBlockSizeInBytes - 1) \<noteq> 0 then Inl AssertFail
     else
       bindR (waitFreeBlock c) (\<lambda>c.
       bindR (getFreeListEntry c) (\<lambda>(node, c).
         if length src < pfsBlockSizeInBytes then Inl OutOfRange
         else
           let b = (CacheBlock_reset (block c node))\<lparr>valid := True, addr := blockAddr,
                     fdes := fileDes, data := take pfsBlockSizeInBytes src\<rparr>;
               c1 = c\<lparr>block := (block c)(node := b),
                      bucketId := (bucketId c)(node := ucast (hashPFS fileDes blockAddr))\<rparr>
           in bindR (addToHashmap node c1) (\<lambda>c2. Inr (addToRecencyList node c2)))))"

definition evictBlock ::
  "(CacheBlock \<Rightarrow> 'w \<Rightarrow> 'w result) \<Rightarrow> uint32 \<Rightarrow> uint32 \<Rightarrow> Cache \<times> 'w \<Rightarrow> (Cache \<times> 'w) result" where
  "evictBlock flush fileDes blockAddr = (\<lambda>(c, w).
    bindR (lookup fileDes blockAddr c) (\<lambda>r.
      case r of
        None \<Rightarrow> Inr (c, w)
      | Some node \<Rightarrow>
          bindR (removeFromHashmap node c) (\<lambda>c1.
          bindR (if clean (block c1 node) then Inr (removeFromRecencyList node c1, w)
                 else bindR (flush (block c1 node) w) (\<lambda>w'.
                        let c2 = c1\<lparr>block := (block c1)(node := resetDirty (block c1 node))\<rparr>
                        in Inr (removeFromDirtyList node c2, w'))) (\<lambda>(c3, w').
            Inr (snd (addToFreeList node (resetMetadata node c3)), w')))))"

section \<open>evictFile\<close>

text \<open>
  The two loops over the dirty and the recency list. A node that leaves its list stays in the
  hash table. The fuel is that of \<open>findChain\<close>.
\<close>

fun evictDirtyLoop ::
  "(CacheBlock \<Rightarrow> 'w \<Rightarrow> 'w result) \<Rightarrow> nat \<Rightarrow> uint32 \<Rightarrow> nat option \<Rightarrow> Cache \<times> 'w \<Rightarrow> (Cache \<times> 'w) result"
where
  "evictDirtyLoop flush 0 fileDes node cw = Inl Blocked"
| "evictDirtyLoop flush (Suc n) fileDes None cw = Inr cw"
| "evictDirtyLoop flush (Suc n) fileDes (Some node) (c, w) =
     (let dirtyNext = nxt (dirtyNode c node)
      in if fdes (block c node) = fileDes
         then bindR (flush (block c node) w) (\<lambda>w'.
                let c1 = c\<lparr>block := (block c)(node := resetDirty (block c node))\<rparr>;
                    c2 = removeFromDirtyList node c1;
                    c3 = snd (addToFreeList node c2)
                in evictDirtyLoop flush n fileDes dirtyNext (c3, w'))
         else evictDirtyLoop flush n fileDes dirtyNext (c, w))"

fun evictCleanLoop :: "nat \<Rightarrow> uint32 \<Rightarrow> nat option \<Rightarrow> Cache \<Rightarrow> Cache result" where
  "evictCleanLoop 0 fileDes node c = Inl Blocked"
| "evictCleanLoop (Suc n) fileDes None c = Inr c"
| "evictCleanLoop (Suc n) fileDes (Some node) c =
     (let recencyNext = nxt (recencyNode c node)
      in if fdes (block c node) = fileDes
         then evictCleanLoop n fileDes recencyNext
                (snd (addToFreeList node (removeFromRecencyList node c)))
         else evictCleanLoop n fileDes recencyNext c)"

definition evictFile ::
  "(CacheBlock \<Rightarrow> 'w \<Rightarrow> 'w result) \<Rightarrow> uint32 \<Rightarrow> Cache \<times> 'w \<Rightarrow> (Cache \<times> 'w) result" where
  "evictFile flush fileDes = (\<lambda>(c, w).
    bindR (evictDirtyLoop flush (blockCount + 1) fileDes (dirtyListMRU c) (c, w)) (\<lambda>(c1, w1).
    bindR (evictCleanLoop (blockCount + 1) fileDes (MRUNode c1) c1) (\<lambda>c2.
      Inr (c2, w1))))"

section \<open>The harvester and flusher threads\<close>

text \<open>One iteration of the harvester's inner loop.\<close>

definition harvestOne ::
  "(CacheBlock \<Rightarrow> 'w \<Rightarrow> 'w result) \<Rightarrow> Cache \<times> 'w \<Rightarrow> (bool \<times> Cache \<times> 'w) result" where
  "harvestOne flush = (\<lambda>(c, w).
    bindR (removeRecencyListLRU c) (\<lambda>(r, c1).
    bindR (case r of
             Some node \<Rightarrow> Inr (node, c1)
           | None \<Rightarrow>
               bindR (removeDirtyListLRU c1) (\<lambda>(r', c2).
                 case r' of
                   None \<Rightarrow> Inl NullDeref
                 | Some node \<Rightarrow>
                     if clean (block c2 node) \<or> \<not> valid (block c2 node) then Inl AssertFail
                     else Inr (node, c2))) (\<lambda>(node, c2).
    bindR (removeFromHashmap node c2) (\<lambda>c3.
    bindR (if \<not> clean (block c3 node)
           then bindR (flush (block c3 node) w) (\<lambda>w'.
                  Inr (c3\<lparr>block := (block c3)(node := resetDirty (block c3 node))\<rparr>, w'))
           else Inr (c3, w)) (\<lambda>(c4, w').
      let (cont, c5) = addToFreeList node c4
      in Inr (cont, c5, w'))))))"

text \<open>
  Every iteration that goes on found fewer than 2020 free blocks, and adds one: 2020 rounds of
  fuel are enough.
\<close>

fun harvestLoop ::
  "(CacheBlock \<Rightarrow> 'w \<Rightarrow> 'w result) \<Rightarrow> nat \<Rightarrow> bool \<Rightarrow> Cache \<times> 'w \<Rightarrow> (Cache \<times> 'w) result"
where
  "harvestLoop flush n False cw = Inr cw"
| "harvestLoop flush 0 True cw = Inl Blocked"
| "harvestLoop flush (Suc n) True cw =
     bindR (harvestOne flush cw) (\<lambda>(cont, cw'). harvestLoop flush n cont cw')"

definition cacheHarvester ::
  "(CacheBlock \<Rightarrow> 'w \<Rightarrow> 'w result) \<Rightarrow> Cache \<times> 'w \<Rightarrow> (Cache \<times> 'w) result" where
  "cacheHarvester flush = (\<lambda>(c, w).
    if harvesterSemaphore c = 0 then Inl Blocked
    else
      let c1 = c\<lparr>harvesterSemaphore := harvesterSemaphore c - 1\<rparr>
      in harvestLoop flush 2020 (freeBlockCount c1 < 2020) (c1, w))"

text \<open>The loop the flusher runs every 30 seconds, and the one of the destructor.\<close>

fun flushLoop ::
  "(CacheBlock \<Rightarrow> 'w \<Rightarrow> 'w result) \<Rightarrow> nat \<Rightarrow> Cache \<times> 'w \<Rightarrow> (Cache \<times> 'w) result"
where
  "flushLoop flush 0 cw = Inl Blocked"
| "flushLoop flush (Suc n) (c, w) =
     bindR (removeDirtyListLRU c) (\<lambda>(r, c1).
       case r of
         None \<Rightarrow> Inr (c1, w)
       | Some node \<Rightarrow>
           if clean (block c1 node) then Inl AssertFail
           else bindR (flush (block c1 node) w) (\<lambda>w'.
                  let c2 = c1\<lparr>block := (block c1)(node := resetDirty (block c1 node))\<rparr>
                  in flushLoop flush n (addToRecencyList node c2, w')))"

definition cacheFlusher ::
  "(CacheBlock \<Rightarrow> 'w \<Rightarrow> 'w result) \<Rightarrow> Cache \<times> 'w \<Rightarrow> (Cache \<times> 'w) result" where
  "cacheFlusher flush cw = flushLoop flush (blockCount + 1) cw"

fun destroyLoop ::
  "(CacheBlock \<Rightarrow> 'w \<Rightarrow> 'w result) \<Rightarrow> nat \<Rightarrow> Cache \<times> 'w \<Rightarrow> 'w result"
where
  "destroyLoop flush 0 cw = Inl Blocked"
| "destroyLoop flush (Suc n) (c, w) =
     bindR (removeDirtyListLRU c) (\<lambda>(r, c1).
       case r of
         None \<Rightarrow> Inr w
       | Some node \<Rightarrow>
           if clean (block c1 node) then Inl AssertFail
           else bindR (flush (block c1 node) w) (\<lambda>w'. destroyLoop flush n (c1, w')))"

definition delete_Cache :: "(CacheBlock \<Rightarrow> 'w \<Rightarrow> 'w result) \<Rightarrow> Cache \<times> 'w \<Rightarrow> 'w result" where
  "delete_Cache flush cw = destroyLoop flush (blockCount + 1) cw"

end
