(* ===== verification/Cache_Lists.thy ===== *)
theory Cache_Lists
  imports Cache
begin

text \<open>
  The pointer structures of the cache as lists: linking and unlinking a node, the two doubly
  linked lists, and the chains of \<^verbatim>\<open>next\<close> links that \<^verbatim>\<open>lookup\<close> and the free list follow.
\<close>

lemma ends_in: "head_of xs = Some x \<Longrightarrow> x \<in> set xs" "last_of xs = Some x \<Longrightarrow> x \<in> set xs"
  by (auto simp: head_of_Some last_of_Some)

section \<open>Linking and unlinking a node\<close>

lemma set_prev_head_other: "y \<notin> set xs \<Longrightarrow> set_prev_if (head_of xs) v g y = g y"
  by (cases xs) (auto simp: set_prev_if_def set_prev_def)

lemma set_next_last_other: "y \<notin> set xs \<Longrightarrow> set_next_if (last_of xs) v g y = g y"
  by (cases xs rule: rev_cases) (auto simp: set_next_if_def set_next_def)

definition link_front :: "nat \<Rightarrow> nat option \<Rightarrow> links \<Rightarrow> links" where
  "link_front x n h = set_prev_if n (Some x) (set_next x n h)"

definition unlink :: "nat \<Rightarrow> links \<Rightarrow> links" where
  "unlink x h = (set_prev_if (nxt (h x)) (prev (h x)) (set_next_if (prev (h x)) (nxt (h x)) h))(x := resetNode)"

lemma dseg_link:
  assumes "dseg h None xs None" "distinct xs" "x \<notin> set xs" "prev (h x) = None"
  shows "dseg (link_front x (head_of xs) h) None (x # xs) None"
    and "y \<notin> set (x # xs) \<Longrightarrow> link_front x (head_of xs) h y = h y"
proof -
  have s: "dseg (set_prev_if (head_of xs) (Some x) h) (Some x) xs None"
    by (rule dseg_front [OF assms(2,1)])
  have e: "link_front x (head_of xs) h =
      (set_prev_if (head_of xs) (Some x) h)(x := \<lparr>prev = None, nxt = head_of xs\<rparr>)"
    using assms(3,4) unfolding link_front_def by (cases xs; cases "h x")
      (auto simp: set_prev_if_def set_prev_def set_next_def fun_eq_iff)
  show "dseg (link_front x (head_of xs) h) None (x # xs) None"
    using s assms(3) unfolding e by (auto simp: dseg_other)
  show "y \<notin> set (x # xs) \<Longrightarrow> link_front x (head_of xs) h y = h y"
    unfolding e by (simp add: set_prev_head_other)
qed

lemma dseg_unlink:
  assumes "dseg h None (A @ x # B) None" "distinct (A @ x # B)"
  shows "dseg (unlink x h) None (A @ B) None"
    and "prev (h x) = last_of A" and "nxt (h x) = head_of B"
    and "y \<notin> set (A @ B) \<Longrightarrow> y \<noteq> x \<Longrightarrow> unlink x h y = h y"
proof -
  have s: "dseg h None A (Some x)" "prev (h x) = last_of A" "nxt (h x) = head_of B" "dseg h (Some x) B None"
    using assms by (auto simp: dseg_append split: if_splits)
  have dis: "set A \<inter> set B = {}" "x \<notin> set A" "x \<notin> set B" "distinct A" "distinct B" using assms(2) by auto
  define h1 where "h1 = set_next_if (last_of A) (head_of B) h"
  define h2 where "h2 = set_prev_if (head_of B) (last_of A) h1"
  have h1: "dseg h1 None A (head_of B)" unfolding h1_def using dis s(1) by (intro dseg_back) auto
  have "h2 y = h1 y" if "y \<in> set A" for y
    using that dis(1) unfolding h2_def by (intro set_prev_head_other) blast
  then have "dseg h2 None A (head_of B)" using h1 by (simp cong: dseg_cong)
  moreover have "h1 y = h y" if "y \<in> set B" for y
    using that dis(1) unfolding h1_def by (intro set_next_last_other) blast
  then have "dseg h1 (Some x) B None" using s(4) by (simp cong: dseg_cong)
  then have "dseg h2 (last_of A) B None" unfolding h2_def by (rule dseg_front [OF dis(5)])
  moreover have u: "unlink x h = h2(x := resetNode)" unfolding unlink_def s(2,3) h1_def h2_def ..
  ultimately show "dseg (unlink x h) None (A @ B) None"
    using dis by (auto simp: dseg_append dseg_other)
  show "unlink x h y = h y" if "y \<notin> set (A @ B)" "y \<noteq> x"
    using that by (simp add: u h2_def h1_def set_prev_head_other set_next_last_other)
  show "prev (h x) = last_of A" "nxt (h x) = head_of B" by (rule s)+
qed

lemma unlink_self [simp]: "unlink x h x = resetNode"
  by (simp add: unlink_def)

section \<open>The doubly linked lists\<close>

lemma dl_add_dlist:
  assumes "dlist h mru lru xs" "x \<notin> set xs"
  shows "case dl_add x (h, mru, lru) of (h', mru', lru') \<Rightarrow> dlist h' mru' lru' (x # xs)"
proof -
  have x: "prev (h x) = None" "distinct xs" "dseg h None xs None" "mru = head_of xs" "lru = last_of xs"
    "\<And>y. y \<notin> set (x # xs) \<Longrightarrow> h y = resetNode"
    using assms by (simp_all add: dlist_def resetNode_def)
  note l = dseg_link [OF x(3,2) assms(2) x(1)]
  show ?thesis
    using l(1) l(2) x assms(2) unfolding dl_add.simps Let_def x(4) link_front_def [symmetric]
    by (auto simp: dlist_def split: option.splits)
qed

lemma dl_remove_dlist:
  assumes "dlist h mru lru (A @ x # B)"
  shows "case dl_remove x (h, mru, lru) of (h', mru', lru') \<Rightarrow> dlist h' mru' lru' (A @ B)"
proof -
  have d: "distinct (A @ x # B)" "mru = head_of (A @ x # B)" "lru = last_of (A @ x # B)"
    and o: "\<And>y. y \<notin> set (A @ x # B) \<Longrightarrow> h y = resetNode"
    and s: "dseg h None (A @ x # B) None"
    using assms by (auto simp: dlist_def)
  note u = dseg_unlink [OF s d(1)]
  show ?thesis
  proof (cases "A = [] \<and> B = []")
    case True
    then have "h x = resetNode" using u by (simp add: resetNode_def)
    then have "h y = resetNode" for y using True o [of y] by (cases "y = x") auto
    then show ?thesis using True d by (simp add: dlist_def)
  next
    case False
    have ends: "\<not> (Some x = mru \<and> Some x = lru)"
      using False d by (auto simp: head_of_append last_of_append split: if_splits option.splits
        dest!: sym [of "Some x"] dest: ends_in)
    have r: "unlink x h y = resetNode" if "y \<notin> set (A @ B)" for y
      using that o [of y] u(4) [of y] by (cases "y = x") auto
    have m: "(if Some x = mru then head_of B else mru) = head_of (A @ B)"
      using d by (auto simp: head_of_append dest!: sym [of "Some x"] dest: ends_in)
    have l: "(if Some x = lru then last_of A else lru) = last_of (A @ B)"
      using d by (auto simp: last_of_append split: option.splits if_splits dest: ends_in)
    show ?thesis
      unfolding dl_remove.simps if_not_P [OF ends] Let_def unlink_def [symmetric]
      unfolding u(2,3) m l using d(1) u(1) r by (simp add: dlist_def)
  qed
qed

lemma dl_removeLRU_dlist:
  assumes "dlist h mru lru (xs @ [x])"
  shows "\<exists>h' mru' lru'. dl_removeLRU (h, mru, lru) = Inr (Some x, (h', mru', lru')) \<and> dlist h' mru' lru' xs"
proof -
  have d: "distinct (xs @ [x])" "mru = head_of (xs @ [x])" "lru = Some x"
    and o: "\<And>y. y \<notin> set (xs @ [x]) \<Longrightarrow> h y = resetNode"
    and s: "dseg h None xs (Some x)" "prev (h x) = last_of xs" "nxt (h x) = None"
    using assms by (auto simp: dlist_def dseg_append split: if_splits)
  show ?thesis
  proof (cases xs rule: rev_cases)
    case Nil
    then show ?thesis using d o by (auto simp: dlist_def)
  next
    case (snoc ys p)
    have "dseg (set_next_if (last_of xs) None h) None xs None"
      using d(1) s(1) by (intro dseg_back) auto
    moreover have "set_next_if (last_of xs) None h = set_next p None h" using snoc by (simp add: set_next_if_def)
    ultimately have "dseg ((set_next p None h)(x := resetNode)) None xs None"
      using d(1) by (simp add: dseg_other)
    moreover have "((set_next p None h)(x := resetNode)) y = resetNode" if "y \<notin> set xs" for y
      using that o [of y] snoc by (auto simp: set_next_def)
    moreover have "lru \<noteq> mru" using d snoc by (cases ys) auto
    ultimately show ?thesis
      using d s snoc by (simp add: dlist_def head_of_append)
  qed
qed

lemma dl_removeLRU_empty: "dlist h mru lru [] \<Longrightarrow> dl_removeLRU (h, mru, lru) = Inr (None, (h, mru, lru))"
  by (simp add: dlist_def)

section \<open>Chains of next links\<close>

fun chain :: "links \<Rightarrow> nat option \<Rightarrow> nat list \<Rightarrow> bool" where
  "chain h p [] \<longleftrightarrow> p = None"
| "chain h p (x # xs) \<longleftrightarrow> p = Some x \<and> chain h (nxt (h x)) xs"

lemma chain_cong: "(\<And>x. x \<in> set xs \<Longrightarrow> nxt (h x) = nxt (h' x)) \<Longrightarrow> chain h p xs = chain h' p xs"
  by (induction xs arbitrary: p) auto

lemma dseg_chain: "dseg h p xs None \<Longrightarrow> chain h (head_of xs) xs"
proof (induction xs arbitrary: p)
  case (Cons x xs)
  then show ?case by (cases xs) auto
qed simp

lemma findChain_find: "chain h p xs \<Longrightarrow> length xs < n \<Longrightarrow> findChain n P h p = Inr (find P xs)"
proof (induction xs arbitrary: p n)
  case Nil
  then show ?case by (cases n) auto
next
  case (Cons x xs)
  then show ?case by (cases n) auto
qed

lemma set_prev_next [simp]: "nxt (set_prev x v h y) = nxt (h y)" "nxt (set_prev_if q v h y) = nxt (h y)"
  by (auto simp: set_prev_def set_prev_if_def split: option.splits)

lemma chain_link:
  assumes "chain h p xs" "x \<notin> set xs"
  shows "chain (link_front x p h) (Some x) (x # xs)"
proof -
  have "chain (link_front x p h) p xs = chain h p xs"
    by (rule chain_cong) (use assms(2) in \<open>auto simp: link_front_def set_next_def\<close>)
  then show ?thesis using assms by (simp add: link_front_def set_next_def)
qed

end
