(* ===== verification/Cache_Rel.thy ===== *)
theory Cache_Rel
  imports Cache_Lists
begin

text \<open>
  The representation invariant of the cache. \<open>cache_rel c R D F B\<close> says that the fields of \<open>c\<close>
  represent a recency list \<open>R\<close> of clean nodes, a dirty list \<open>D\<close>, a free list \<open>F\<close> and hash
  chains \<open>B\<close>; \<open>cmap\<close> is the abstract content: a map from descriptor and block address to data
  and dirty flags.
\<close>

section \<open>The representation invariant\<close>

definition hash_rel :: "Cache \<Rightarrow> nat set \<Rightarrow> (nat \<Rightarrow> nat list) \<Rightarrow> bool" where
  "hash_rel c L B \<longleftrightarrow>
    (\<forall>b. dseg (bucketNode c) None (B b) None \<and> distinct (B b) \<and> hashTable c b = head_of (B b) \<and>
         set (B b) = {x \<in> L. unat (bucketId c x) = b}) \<and>
    (\<forall>x. x \<notin> L \<longrightarrow> bucketNode c x = resetNode)"

definition lists_rel :: "Cache \<Rightarrow> nat list \<Rightarrow> nat list \<Rightarrow> nat list \<Rightarrow> bool" where
  "lists_rel c R D F \<longleftrightarrow>
    dlist (recencyNode c) (MRUNode c) (LRUNode c) R \<and>
    dlist (dirtyNode c) (dirtyListMRU c) (dirtyListLRU c) D \<and>
    chain (freeNode c) (freeListHead c) F \<and> distinct (R @ D @ F) \<and> set (R @ D @ F) = {..<blockCount} \<and>
    freeBlockCount c = word_of_nat (length F)"

definition ckey :: "CacheBlock \<Rightarrow> uint32 \<times> uint32" where
  "ckey b = (fdes b, addr b)"

definition wf_block :: "CacheBlock \<Rightarrow> bool" where
  "wf_block b \<longleftrightarrow> valid b \<and> length (data b) = pfsBlockSizeInBytes \<and> length (dirty b) = pfsBlockSizeInBytes \<and>
     (clean b \<longrightarrow> dirty b = replicate pfsBlockSizeInBytes False)"

definition blocks_rel :: "Cache \<Rightarrow> nat list \<Rightarrow> nat list \<Rightarrow> bool" where
  "blocks_rel c R D \<longleftrightarrow>
    (\<forall>x\<in>set R. clean (block c x)) \<and> (\<forall>x\<in>set D. \<not> clean (block c x)) \<and>
    (\<forall>x\<in>set R \<union> set D. wf_block (block c x) \<and>
       bucketId c x = ucast (hashPFS (fdes (block c x)) (addr (block c x)))) \<and>
    inj_on (\<lambda>x. ckey (block c x)) (set R \<union> set D)"

definition cache_rel ::
  "Cache \<Rightarrow> nat list \<Rightarrow> nat list \<Rightarrow> nat list \<Rightarrow> (nat \<Rightarrow> nat list) \<Rightarrow> bool" where
  "cache_rel c R D F B \<longleftrightarrow> hash_rel c (set R \<union> set D) B \<and> lists_rel c R D F \<and> blocks_rel c R D"

section \<open>The hash table\<close>

lemma hash_bucket: "unat (ucast (hashPFS f a) :: uint32) < HASH_BUCKETS"
proof -
  have "unat (hashPFS f a) < 1024" using hashPFS_bound [of f a] by simp
  then show ?thesis by (simp add: unsigned_ucast_eq take_bit_nat_eq_self)
qed

lemma addToHashmap_rel:
  assumes h: "hash_rel c L B" and x: "x \<notin> L" and b: "unat (bucketId c x) < HASH_BUCKETS"
  obtains t l where "addToHashmap x c = Inr (c\<lparr>hashTable := t, bucketNode := l\<rparr>)"
    "hash_rel (c\<lparr>hashTable := t, bucketNode := l\<rparr>) (insert x L)
       (B(unat (bucketId c x) := x # B (unat (bucketId c x))))"
proof -
  let ?b = "unat (bucketId c x)"
  let ?t = "(hashTable c)(?b := Some x)"
  let ?l = "link_front x (head_of (B ?b)) (bucketNode c)"
  have B: "dseg (bucketNode c) None (B k) None" "distinct (B k)" "hashTable c k = head_of (B k)"
     "set (B k) = {y \<in> L. unat (bucketId c y) = k}" for k using h by (simp_all add: hash_rel_def)
  have o: "bucketNode c y = resetNode" if "y \<notin> L" for y using h that by (simp add: hash_rel_def)
  have xB: "x \<notin> set (B k)" for k using B(4) x by simp
  have px: "prev (bucketNode c x) = None" using o [OF x] by (simp add: resetNode_def)
  note l = dseg_link [OF B(1) [of ?b] B(2) [of ?b] xB px]
  have "dseg ?l None (B k) None" if "k \<noteq> ?b" for k
  proof (subst dseg_cong [where h' = "bucketNode c"])
    show "?l y = bucketNode c y" if "y \<in> set (B k)" for y
      using l(2) [of y] that \<open>k \<noteq> ?b\<close> B(4) xB [of k] by auto
  qed (rule B(1))
  moreover have "?l y = resetNode" if "y \<notin> insert x L" for y
    using l(2) [of y] that o [of y] B(4) by auto
  ultimately have "hash_rel (c\<lparr>hashTable := ?t, bucketNode := ?l\<rparr>) (insert x L) (B(?b := x # B ?b))"
    using B x xB l(1) unfolding hash_rel_def by auto
  moreover have "addToHashmap x c = Inr (c\<lparr>hashTable := ?t, bucketNode := ?l\<rparr>)"
    using b by (simp add: addToHashmap_def bucketAt_def B(3) link_front_def)
  ultimately show thesis by (rule that [rotated])
qed

lemma removeFromHashmap_rel:
  assumes h: "hash_rel c L B" and x: "x \<in> L" and b: "unat (bucketId c x) < HASH_BUCKETS"
  obtains t l B' where "removeFromHashmap x c = Inr (c\<lparr>hashTable := t, bucketNode := l\<rparr>)"
    "hash_rel (c\<lparr>hashTable := t, bucketNode := l\<rparr>) (L - {x}) B'"
proof -
  let ?b = "unat (bucketId c x)"
  have B: "dseg (bucketNode c) None (B k) None" "distinct (B k)" "hashTable c k = head_of (B k)"
     "set (B k) = {y \<in> L. unat (bucketId c y) = k}" for k using h by (simp_all add: hash_rel_def)
  have o: "bucketNode c y = resetNode" if "y \<notin> L" for y using h that by (simp add: hash_rel_def)
  have "x \<in> set (B ?b)" using B(4) x by simp
  then obtain U V where UV: "B ?b = U @ x # V" by (meson split_list)
  note u = dseg_unlink [of "bucketNode c" U x V, folded UV, OF B(1,2)]
  let ?l = "unlink x (bucketNode c)"
  let ?t = "if Some x = hashTable c ?b then (hashTable c)(?b := nxt (bucketNode c x)) else hashTable c"
  let ?c = "c\<lparr>hashTable := ?t, bucketNode := ?l\<rparr>"
  have "dseg ?l None (B k) None" if "k \<noteq> ?b" for k
  proof (subst dseg_cong [where h' = "bucketNode c"])
    fix y assume y: "y \<in> set (B k)"
    then have "y \<notin> set (B ?b)" "y \<noteq> x" using \<open>k \<noteq> ?b\<close> B(4) by auto
    then show "?l y = bucketNode c y" by (intro u(4)) (auto simp: UV)
  qed (rule B(1))
  moreover have "?l y = resetNode" if "y \<notin> L - {x}" for y
  proof (cases "y = x")
    case False
    then have "y \<notin> set (B ?b)" "y \<notin> L" using that B(4) by auto
    then show ?thesis using u(4) [of y] False o [of y] by (simp add: UV)
  qed simp
  moreover have dUV: "distinct (U @ x # V)" using B(2) [of ?b] UV by simp
  have "set (U @ V) = {y \<in> L - {x}. unat (bucketId c y) = ?b}"
    using B(4) [of ?b] UV dUV by auto
  moreover have "?t ?b = head_of (U @ V)"
    using B(3) [of ?b] u(3) dUV by (cases U) (auto simp: UV)
  ultimately have "hash_rel ?c (L - {x}) (B(?b := U @ V))"
    using B u(1) dUV unfolding hash_rel_def by auto
  moreover have "removeFromHashmap x c = Inr ?c"
    using b unfolding removeFromHashmap_def bucketAt_def unlink_def by (simp add: Let_def)
  ultimately show thesis by (rule that [rotated])
qed

section \<open>lookup\<close>

lemma lookup_find:
  assumes "hash_rel c L B" "L \<subseteq> {..<blockCount}"
  shows "lookup f a c = Inr (find (\<lambda>x. matches f a (block c x)) (B (unat (ucast (hashPFS f a) :: uint32))))"
proof -
  let ?b = "unat (ucast (hashPFS f a) :: uint32)"
  have B: "dseg (bucketNode c) None (B ?b) None" "hashTable c ?b = head_of (B ?b)" "distinct (B ?b)"
    "set (B ?b) \<subseteq> {..<blockCount}"
    using assms by (auto simp: hash_rel_def)
  have "length (B ?b) \<le> blockCount"
    using card_mono [OF _ B(4)] distinct_card [OF B(3)] by simp
  then have "findChain (blockCount + 1) P (bucketNode c) (head_of (B ?b)) = Inr (find P (B ?b))" for P
    using dseg_chain [OF B(1)] by (intro findChain_find) auto
  then show ?thesis using hash_bucket [of f a] by (simp add: lookup_def bucketAt_def B(2))
qed

lemma lookup_rel:
  assumes "cache_rel c R D F B"
  shows "lookup f a c = Inr (Some x) \<longleftrightarrow> x \<in> set R \<union> set D \<and> ckey (block c x) = (f, a)"
    and "lookup f a c = Inr None \<longleftrightarrow> (\<forall>x\<in>set R \<union> set D. ckey (block c x) \<noteq> (f, a))"
    and "\<exists>r. lookup f a c = Inr r"
proof -
  let ?L = "set R \<union> set D" and ?b = "unat (ucast (hashPFS f a) :: uint32)"
  have h: "hash_rel c ?L B" and sub: "?L \<subseteq> {..<blockCount}"
    and bl: "\<forall>x\<in>?L. bucketId c x = ucast (hashPFS (fdes (block c x)) (addr (block c x)))"
      "inj_on (\<lambda>x. ckey (block c x)) ?L"
    using assms by (auto simp: cache_rel_def lists_rel_def blocks_rel_def)
  note l = lookup_find [OF h sub, of f a]
  have m: "x \<in> set (B ?b) \<and> matches f a (block c x) \<longleftrightarrow> x \<in> ?L \<and> ckey (block c x) = (f, a)" for x
    using h bl(1) by (auto simp: hash_rel_def matches_def ckey_def)
  show none: "lookup f a c = Inr None \<longleftrightarrow> (\<forall>x\<in>?L. ckey (block c x) \<noteq> (f, a))"
    using m unfolding l by (auto simp: find_None_iff)
  show "\<exists>r. lookup f a c = Inr r" using l by blast
  show "lookup f a c = Inr (Some x) \<longleftrightarrow> x \<in> ?L \<and> ckey (block c x) = (f, a)"
  proof
    assume "lookup f a c = Inr (Some x)"
    then have "x \<in> set (B ?b)" "matches f a (block c x)" unfolding l by (auto simp: find_Some_iff)
    then show "x \<in> ?L \<and> ckey (block c x) = (f, a)" using m by blast
  next
    assume x: "x \<in> ?L \<and> ckey (block c x) = (f, a)"
    then obtain y where y: "lookup f a c = Inr (Some y)" using none l by (metis not_None_eq)
    then have "y \<in> set (B ?b)" "matches f a (block c y)" unfolding l by (auto simp: find_Some_iff)
    then have "y \<in> ?L" "ckey (block c y) = (f, a)" using m by blast+
    then show "lookup f a c = Inr (Some x)" using x y bl(2) by (metis inj_onD)
  qed
qed

section \<open>The lists\<close>

lemma with_recency_sel [simp]:
  "block (with_recency l c) = block c" "bucketId (with_recency l c) = bucketId c"
  "dirtyNode (with_recency l c) = dirtyNode c" "freeNode (with_recency l c) = freeNode c"
  "bucketNode (with_recency l c) = bucketNode c" "freeListHead (with_recency l c) = freeListHead c"
  "freeBlockCount (with_recency l c) = freeBlockCount c" "hashTable (with_recency l c) = hashTable c"
  "dirtyListLRU (with_recency l c) = dirtyListLRU c" "dirtyListMRU (with_recency l c) = dirtyListMRU c"
  "freeBlockSemaphore (with_recency l c) = freeBlockSemaphore c"
  "harvesterSemaphore (with_recency l c) = harvesterSemaphore c"
  by (simp_all add: with_recency_def)

lemma with_dirties_sel [simp]:
  "block (with_dirties l c) = block c" "bucketId (with_dirties l c) = bucketId c"
  "recencyNode (with_dirties l c) = recencyNode c" "freeNode (with_dirties l c) = freeNode c"
  "bucketNode (with_dirties l c) = bucketNode c" "freeListHead (with_dirties l c) = freeListHead c"
  "freeBlockCount (with_dirties l c) = freeBlockCount c" "hashTable (with_dirties l c) = hashTable c"
  "LRUNode (with_dirties l c) = LRUNode c" "MRUNode (with_dirties l c) = MRUNode c"
  "freeBlockSemaphore (with_dirties l c) = freeBlockSemaphore c"
  "harvesterSemaphore (with_dirties l c) = harvesterSemaphore c"
  by (simp_all add: with_dirties_def)

abbreviation rec_list :: "Cache \<Rightarrow> nat list \<Rightarrow> bool" where
  "rec_list c R \<equiv> dlist (recencyNode c) (MRUNode c) (LRUNode c) R"

abbreviation dirty_list :: "Cache \<Rightarrow> nat list \<Rightarrow> bool" where
  "dirty_list c D \<equiv> dlist (dirtyNode c) (dirtyListMRU c) (dirtyListLRU c) D"

lemma addToRecencyList_rel:
  assumes "rec_list c R" "x \<notin> set R"
  obtains l where "addToRecencyList x c = with_recency l c" "rec_list (with_recency l c) (x # R)"
proof (rule that)
  show "addToRecencyList x c = with_recency (dl_add x (recency c)) c" by (simp add: addToRecencyList_def)
  show "rec_list (with_recency (dl_add x (recency c)) c) (x # R)"
    using dl_add_dlist [OF assms] by (auto simp: recency_def with_recency_def split: prod.splits)
qed

lemma removeFromRecencyList_rel:
  assumes "rec_list c (U @ x # V)"
  obtains l where "removeFromRecencyList x c = with_recency l c" "rec_list (with_recency l c) (U @ V)"
proof (rule that)
  show "removeFromRecencyList x c = with_recency (dl_remove x (recency c)) c" by (simp add: removeFromRecencyList_def)
  show "rec_list (with_recency (dl_remove x (recency c)) c) (U @ V)"
    using dl_remove_dlist [OF assms] by (auto simp: recency_def with_recency_def simp del: dl_remove.simps split: prod.splits)
qed

lemma removeRecencyListLRU_rel:
  assumes "rec_list c (R @ [x])"
  obtains l where "removeRecencyListLRU c = Inr (Some x, with_recency l c)" "rec_list (with_recency l c) R"
  using dl_removeLRU_dlist [OF assms] that unfolding removeRecencyListLRU_def recency_def
  by (auto simp: with_recency_def simp del: dl_removeLRU.simps)

lemma removeRecencyListLRU_empty: "rec_list c [] \<Longrightarrow> removeRecencyListLRU c = Inr (None, c)"
  using dl_removeLRU_empty [of "recencyNode c" "MRUNode c" "LRUNode c"]
  by (simp add: removeRecencyListLRU_def recency_def with_recency_def del: dl_removeLRU.simps)

lemma addToDirtyList_rel:
  assumes "dirty_list c D" "x \<notin> set D"
  obtains l where "addToDirtyList x c = with_dirties l c" "dirty_list (with_dirties l c) (x # D)"
proof (rule that)
  show "addToDirtyList x c = with_dirties (dl_add x (dirties c)) c" by (simp add: addToDirtyList_def)
  show "dirty_list (with_dirties (dl_add x (dirties c)) c) (x # D)"
    using dl_add_dlist [OF assms] by (auto simp: dirties_def with_dirties_def split: prod.splits)
qed

lemma removeFromDirtyList_rel:
  assumes "dirty_list c (U @ x # V)"
  obtains l where "removeFromDirtyList x c = with_dirties l c" "dirty_list (with_dirties l c) (U @ V)"
proof (rule that)
  show "removeFromDirtyList x c = with_dirties (dl_remove x (dirties c)) c" by (simp add: removeFromDirtyList_def)
  show "dirty_list (with_dirties (dl_remove x (dirties c)) c) (U @ V)"
    using dl_remove_dlist [OF assms] by (auto simp: dirties_def with_dirties_def simp del: dl_remove.simps split: prod.splits)
qed

lemma removeDirtyListLRU_rel:
  assumes "dirty_list c (D @ [x])"
  obtains l where "removeDirtyListLRU c = Inr (Some x, with_dirties l c)" "dirty_list (with_dirties l c) D"
  using dl_removeLRU_dlist [OF assms] that unfolding removeDirtyListLRU_def dirties_def
  by (auto simp: with_dirties_def simp del: dl_removeLRU.simps)

lemma removeDirtyListLRU_empty: "dirty_list c [] \<Longrightarrow> removeDirtyListLRU c = Inr (None, c)"
  using dl_removeLRU_empty [of "dirtyNode c" "dirtyListMRU c" "dirtyListLRU c"]
  by (simp add: removeDirtyListLRU_def dirties_def with_dirties_def del: dl_removeLRU.simps)

lemma hash_rel_cong:
  assumes "bucketNode c' = bucketNode c" "hashTable c' = hashTable c" "bucketId c' = bucketId c"
  shows "hash_rel c' = hash_rel c"
  using assms by (intro ext) (simp add: hash_rel_def)

section \<open>The cache as a map\<close>

definition cmap :: "Cache \<Rightarrow> (uint32 \<times> uint32) \<Rightarrow> (uint8 list \<times> bool list) option" where
  "cmap c k = (case lookup (fst k) (snd k) c of
                 Inr (Some x) \<Rightarrow> Some (data (block c x), dirty (block c x))
               | _ \<Rightarrow> None)"

definition cache_inv :: "Cache \<Rightarrow> bool" where
  "cache_inv c \<longleftrightarrow> (\<exists>R D F B. cache_rel c R D F B)"

lemma cmap_Some:
  assumes "cache_rel c R D F B"
  shows "cmap c k = Some v \<longleftrightarrow>
    (\<exists>x\<in>set R \<union> set D. ckey (block c x) = k \<and> v = (data (block c x), dirty (block c x)))"
proof -
  note l = lookup_rel [OF assms, of "fst k" "snd k", unfolded prod.collapse]
  from l(3) obtain r where r: "lookup (fst k) (snd k) c = Inr r" by blast
  show ?thesis
  proof (cases r)
    case None
    then show ?thesis using l(2) r by (auto simp: cmap_def)
  next
    case (Some x)
    then have "y \<in> set R \<union> set D \<and> ckey (block c y) = k \<longleftrightarrow> y = x" for y using l(1) [of y] r by auto
    then have "(\<exists>y\<in>set R \<union> set D. ckey (block c y) = k \<and> v = (data (block c y), dirty (block c y))) \<longleftrightarrow>
        v = (data (block c x), dirty (block c x))" by metis
    then show ?thesis using r Some by (auto simp: cmap_def)
  qed
qed

text \<open>The abstract content depends on the blocks of the live nodes only.\<close>

lemma cmap_update:
  assumes "cache_rel c R D F B" "cache_rel c' R' D' F' B'"
    and live: "set R' \<union> set D' - {x} = set R \<union> set D - {x}"
    and same: "\<And>y. y \<in> set R \<union> set D \<Longrightarrow> y \<noteq> x \<Longrightarrow> block c' y = block c y"
    and k: "x \<in> set R \<union> set D \<Longrightarrow> ckey (block c x) = k" "x \<in> set R' \<union> set D' \<Longrightarrow> ckey (block c' x) = k"
    and dis: "x \<notin> set R \<union> set D \<Longrightarrow> cmap c k = None"
  shows "cmap c' = (if x \<in> set R' \<union> set D' then (cmap c)(k \<mapsto> (data (block c' x), dirty (block c' x)))
                    else (cmap c)(k := None))"
proof (rule ext)
  fix j
  have inj: "inj_on (\<lambda>y. ckey (block c y)) (set R \<union> set D)" "inj_on (\<lambda>y. ckey (block c' y)) (set R' \<union> set D')"
    using assms(1,2) by (auto simp: cache_rel_def blocks_rel_def)
  have other: "cmap c' j = cmap c j" if "j \<noteq> k"
  proof -
    have "cmap c' j = Some v \<longleftrightarrow> cmap c j = Some v" for v
      unfolding cmap_Some [OF assms(1)] cmap_Some [OF assms(2)] using live same k that by (metis DiffD1 DiffI singletonD)
    then show ?thesis by (metis option.exhaust)
  qed
  show "cmap c' j = (if x \<in> set R' \<union> set D' then (cmap c)(k \<mapsto> (data (block c' x), dirty (block c' x)))
                    else (cmap c)(k := None)) j"
  proof (cases "j = k")
    case True
    have "cmap c' k = None" if "x \<notin> set R' \<union> set D'"
    proof -
      have "\<not> cmap c' k = Some v" for v
      proof
        assume "cmap c' k = Some v"
        then obtain y where y: "y \<in> set R' \<union> set D'" "ckey (block c' y) = k" using cmap_Some [OF assms(2)] by blast
        then have yy: "y \<noteq> x" "y \<in> set R \<union> set D" "ckey (block c y) = k" using that live same by (metis DiffD1 DiffI singletonD)+
        then show False using inj_onD [OF inj(1)] k(1) dis cmap_Some [OF assms(1), of k] by (metis option.distinct(1))
      qed
      then show ?thesis by (metis option.exhaust)
    qed
    moreover have "cmap c' k = Some (data (block c' x), dirty (block c' x))" if "x \<in> set R' \<union> set D'"
      using that k(2) cmap_Some [OF assms(2)] by blast
    ultimately show ?thesis using True by simp
  next
    case False
    then show ?thesis using other by simp
  qed
qed

lemma cmap_same:
  assumes "cache_rel c R D F B" "cache_rel c' R' D' F' B'"
    and "set R' \<union> set D' = set R \<union> set D"
    and "\<And>y. y \<in> set R \<union> set D \<Longrightarrow> block c' y = block c y"
  shows "cmap c' = cmap c"
proof (rule ext)
  fix j
  have "cmap c' j = Some v \<longleftrightarrow> cmap c j = Some v" for v
    unfolding cmap_Some [OF assms(1)] cmap_Some [OF assms(2)] using assms(3,4) by auto
  then show "cmap c' j = cmap c j" by (metis option.exhaust)
qed

end
