(* ===== verification/Cache_Ops.thy ===== *)
theory Cache_Ops
  imports Cache_Rel
begin

text \<open>
  The operations the client calls, against the abstract content: \<^verbatim>\<open>readBlock\<close>, \<^verbatim>\<open>write\<close>,
  \<^verbatim>\<open>addBlock\<close> and \<^verbatim>\<open>evictBlock\<close>.
\<close>

lemmas rel_defs = cache_rel_def lists_rel_def blocks_rel_def

lemma cache_relD:
  assumes "cache_rel c R D F B"
  shows "rec_list c R" "dirty_list c D" "distinct (R @ D @ F)" "hash_rel c (set R \<union> set D) B"
    "\<And>x. x \<in> set R \<Longrightarrow> clean (block c x)" "\<And>x. x \<in> set D \<Longrightarrow> \<not> clean (block c x)"
    "\<And>x. x \<in> set R \<union> set D \<Longrightarrow> wf_block (block c x)"
    "\<And>x. x \<in> set R \<union> set D \<Longrightarrow> unat (bucketId c x) < HASH_BUCKETS"
    "chain (freeNode c) (freeListHead c) F"
    "\<And>x. x \<in> set R \<union> set D \<Longrightarrow> bucketId c x = ucast (hashPFS (fdes (block c x)) (addr (block c x)))"
    "inj_on (\<lambda>x. ckey (block c x)) (set R \<union> set D)"
    "freeBlockCount c = word_of_nat (length F)" "set (R @ D @ F) = {..<blockCount}"
  using assms hash_bucket by (auto simp: rel_defs)

text \<open>A live node lies in the recency list or in the dirty list, as its flag tells.\<close>

lemma live_split:
  assumes "cache_rel c R D F B" "x \<in> set R \<union> set D"
  obtains (Clean) U V where "R = U @ x # V" "clean (block c x)"
  | (Dirty) U V where "D = U @ x # V" "\<not> clean (block c x)"
  using assms cache_relD(5,6) [OF assms(1)] by (metis Un_iff split_list)

section \<open>readBlock\<close>

lemma touch_clean_rel:
  assumes r: "cache_rel c (U @ x # V) D F B"
  shows "cache_rel (addToRecencyList x (removeFromRecencyList x c)) (x # U @ V) D F B"
proof -
  obtain l where l: "removeFromRecencyList x c = with_recency l c" "rec_list (with_recency l c) (U @ V)"
    using removeFromRecencyList_rel [OF cache_relD(1) [OF r]] .
  moreover have "x \<notin> set (U @ V)" using cache_relD(3) [OF r] by auto
  ultimately obtain l' where l': "addToRecencyList x (with_recency l c) = with_recency l' (with_recency l c)"
    "rec_list (with_recency l' (with_recency l c)) (x # U @ V)"
    using addToRecencyList_rel by metis
  have s: "insert x (set U \<union> set V) \<union> set D = set U \<union> insert x (set V) \<union> set D" by auto
  show ?thesis
    unfolding l(1) l'(1) using r l'(2) unfolding rel_defs
    by (auto simp: s hash_rel_cong [of "with_recency l' (with_recency l c)" c])
qed

lemma touch_dirty_rel:
  assumes r: "cache_rel c R (U @ x # V) F B"
  shows "cache_rel (addToDirtyList x (removeFromDirtyList x c)) R (x # U @ V) F B"
proof -
  obtain l where l: "removeFromDirtyList x c = with_dirties l c" "dirty_list (with_dirties l c) (U @ V)"
    using removeFromDirtyList_rel [OF cache_relD(2) [OF r]] .
  moreover have "x \<notin> set (U @ V)" using cache_relD(3) [OF r] by auto
  ultimately obtain l' where l': "addToDirtyList x (with_dirties l c) = with_dirties l' (with_dirties l c)"
    "dirty_list (with_dirties l' (with_dirties l c)) (x # U @ V)"
    using addToDirtyList_rel by metis
  have s: "set R \<union> insert x (set U \<union> set V) = set R \<union> (set U \<union> insert x (set V))" by auto
  show ?thesis
    unfolding l(1) l'(1) using r l'(2) unfolding rel_defs
    by (auto simp: s hash_rel_cong [of "with_dirties l' (with_dirties l c)" c])
qed

lemma touch_frame:
  "block (addToRecencyList x c) = block c" "block (removeFromRecencyList x c) = block c"
  "block (addToDirtyList x c) = block c" "block (removeFromDirtyList x c) = block c"
  "freeBlockSemaphore (addToRecencyList x c) = freeBlockSemaphore c"
  "freeBlockSemaphore (removeFromRecencyList x c) = freeBlockSemaphore c"
  "freeBlockSemaphore (addToDirtyList x c) = freeBlockSemaphore c"
  "freeBlockSemaphore (removeFromDirtyList x c) = freeBlockSemaphore c"
  "freeBlockCount (addToRecencyList x c) = freeBlockCount c"
  "freeBlockCount (removeFromRecencyList x c) = freeBlockCount c"
  "freeBlockCount (addToDirtyList x c) = freeBlockCount c"
  "freeBlockCount (removeFromDirtyList x c) = freeBlockCount c"
  by (simp_all add: addToRecencyList_def removeFromRecencyList_def addToDirtyList_def removeFromDirtyList_def)

lemma readBlock_spec:
  assumes "cache_inv c"
  obtains c' where "readBlock f a c = Inr (map_option fst (cmap c (f, a)), c')" "cache_inv c'"
    "cmap c' = cmap c" "freeBlockSemaphore c' = freeBlockSemaphore c" "freeBlockCount c' = freeBlockCount c"
proof -
  from assms obtain R D F B where r: "cache_rel c R D F B" by (auto simp: cache_inv_def)
  obtain y where y: "lookup f a c = Inr y" using lookup_rel(3) [OF r] by blast
  show thesis
  proof (cases y)
    case None
    then show thesis using that [of c] y assms by (simp add: readBlock_def cmap_def)
  next
    case (Some x)
    then have xL: "x \<in> set R \<union> set D" using lookup_rel(1) [OF r] y by blast
    define c' where "c' = (if clean (block c x) then addToRecencyList x (removeFromRecencyList x c)
                           else addToDirtyList x (removeFromDirtyList x c))"
    have rb: "readBlock f a c = Inr (map_option fst (cmap c (f, a)), c')"
      using y Some by (simp add: readBlock_def cmap_def c'_def)
    have fr: "block c' = block c" "freeBlockSemaphore c' = freeBlockSemaphore c" "freeBlockCount c' = freeBlockCount c"
      by (simp_all add: c'_def touch_frame)
    have "\<exists>R' D'. cache_rel c' R' D' F B \<and> set R' \<union> set D' = set R \<union> set D"
      using r xL
    proof (cases rule: live_split)
      case (Clean U V)
      have "cache_rel c' (x # U @ V) D F B"
        using touch_clean_rel [OF r [unfolded Clean(1)]] Clean(2) by (simp add: c'_def)
      then show ?thesis by (intro exI conjI) (auto simp: Clean(1))
    next
      case (Dirty U V)
      have "cache_rel c' R (x # U @ V) F B"
        using touch_dirty_rel [OF r [unfolded Dirty(1)]] Dirty(2) by (simp add: c'_def)
      then show ?thesis by (intro exI conjI) (auto simp: Dirty(1))
    qed
    then show thesis
      using that [OF rb] fr cmap_same [OF r] unfolding cache_inv_def by metis
  qed
qed

section \<open>write\<close>

definition write_node :: "nat \<Rightarrow> CacheBlock \<Rightarrow> Cache \<Rightarrow> Cache" where
  "write_node x b c =
    (let c1 = c\<lparr>block := (block c)(x := b)\<rparr>;
         c2 = (if clean b then removeFromRecencyList x c1 else removeFromDirtyList x c1);
         c3 = c2\<lparr>block := (block c2)(x := (block c2 x)\<lparr>clean := False\<rparr>)\<rparr>
     in addToDirtyList x c3)"

lemma write_node_frame:
  "block (write_node x b c) = (block c)(x := b\<lparr>clean := False\<rparr>)"
  "freeBlockSemaphore (write_node x b c) = freeBlockSemaphore c"
  "freeBlockCount (write_node x b c) = freeBlockCount c"
  by (simp_all add: write_node_def touch_frame Let_def)

lemma blocks_rel_write:
  assumes "blocks_rel c R D" "x \<in> set R \<union> set D"
    and "set R' \<union> set D' = set R \<union> set D" "set R' \<subseteq> set R - {x}" "set D' - {x} \<subseteq> set D"
    and "block c' = (block c)(x := b\<lparr>clean := False\<rparr>)" "bucketId c' = bucketId c"
    and "ckey b = ckey (block c x)" "wf_block (b\<lparr>clean := False\<rparr>)"
  shows "blocks_rel c' R' D'"
proof -
  have k: "ckey (block c' y) = ckey (block c y)" for y using assms(6,8) by (auto simp: ckey_def)
  have "inj_on (\<lambda>y. ckey (block c' y)) (set R' \<union> set D')"
    unfolding k assms(3) using assms(1) by (simp add: blocks_rel_def)
  moreover have "bucketId c' y = ucast (hashPFS (fdes (block c' y)) (addr (block c' y)))"
    if "y \<in> set R \<union> set D" for y
    using assms(1,7) k [of y] that by (auto simp: blocks_rel_def ckey_def)
  moreover have "wf_block (block c' y)" if "y \<in> set R \<union> set D" for y
    using assms(1,6,9) that by (auto simp: blocks_rel_def)
  moreover have "clean (block c' y)" if "y \<in> set R'" for y
  proof -
    have "y \<in> set R" "y \<noteq> x" using assms(4) that by auto
    then show ?thesis using assms(1,6) by (simp add: blocks_rel_def)
  qed
  moreover have "\<not> clean (block c' y)" if "y \<in> set D'" for y
    using assms(1,5,6) that by (auto simp: blocks_rel_def)
  ultimately show ?thesis using assms(3) by (simp add: blocks_rel_def)
qed

lemma write_node_rel:
  assumes r: "cache_rel c R D F B" and x: "x \<in> set R \<union> set D"
    and b: "ckey b = ckey (block c x)" "clean b = clean (block c x)" "wf_block (b\<lparr>clean := False\<rparr>)"
  obtains R' D' where "cache_rel (write_node x b c) R' D' F B" "set R' \<union> set D' = set R \<union> set D"
  using r x
proof (cases rule: live_split)
  case (Clean U V)
  define c1 where "c1 = c\<lparr>block := (block c)(x := b)\<rparr>"
  have "rec_list c1 (U @ x # V)" using cache_relD(1) [OF r] Clean(1) by (simp add: c1_def)
  then obtain l where l: "removeFromRecencyList x c1 = with_recency l c1" "rec_list (with_recency l c1) (U @ V)"
    by (rule removeFromRecencyList_rel)
  define c3 where "c3 = (with_recency l c1)\<lparr>block := (block c)(x := b\<lparr>clean := False\<rparr>)\<rparr>"
  have "dirty_list c3 D" using cache_relD(2) [OF r] by (simp add: c1_def c3_def)
  moreover have "x \<notin> set D" using cache_relD(3) [OF r] Clean(1) by simp
  ultimately obtain m where m: "addToDirtyList x c3 = with_dirties m c3" "dirty_list (with_dirties m c3) (x # D)"
    by (rule addToDirtyList_rel)
  have w: "write_node x b c = with_dirties m c3"
    using l(1) b(2) Clean(2) unfolding m(1) [symmetric] by (simp add: write_node_def c1_def c3_def)
  have sel: "block (with_dirties m c3) = (block c)(x := b\<lparr>clean := False\<rparr>)"
    "bucketId (with_dirties m c3) = bucketId c" by (simp_all add: c1_def c3_def)
  have "blocks_rel (with_dirties m c3) (U @ V) (x # D)"
    by (rule blocks_rel_write [of c R D, OF _ x _ _ _ sel b(1,3)])
       (use r Clean cache_relD(3) [OF r] in \<open>auto simp: cache_rel_def\<close>)
  moreover have "rec_list (with_dirties m c3) (U @ V)" using l(2) by (simp add: c3_def)
  then have "lists_rel (with_dirties m c3) (U @ V) (x # D) F"
    using cache_relD(3,9,12,13) [OF r] m(2) Clean(1) unfolding lists_rel_def by (auto simp: c1_def c3_def)
  moreover have "hash_rel (with_dirties m c3) = hash_rel c"
    by (rule hash_rel_cong) (simp_all add: c1_def c3_def)
  moreover have "set (U @ V) \<union> set (x # D) = set R \<union> set D" using Clean(1) by auto
  ultimately show thesis
    using r by (intro that [of "U @ V" "x # D"]) (simp_all only: w cache_rel_def simp_thms)
next
  case (Dirty U V)
  define c1 where "c1 = c\<lparr>block := (block c)(x := b)\<rparr>"
  have "dirty_list c1 (U @ x # V)" using cache_relD(2) [OF r] Dirty(1) by (simp add: c1_def)
  then obtain l where l: "removeFromDirtyList x c1 = with_dirties l c1" "dirty_list (with_dirties l c1) (U @ V)"
    by (rule removeFromDirtyList_rel)
  define c3 where "c3 = (with_dirties l c1)\<lparr>block := (block c)(x := b\<lparr>clean := False\<rparr>)\<rparr>"
  have "dirty_list c3 (U @ V)" using l(2) by (simp add: c3_def)
  moreover have "x \<notin> set (U @ V)" using cache_relD(3) [OF r] Dirty(1) by simp
  ultimately obtain m where m: "addToDirtyList x c3 = with_dirties m c3" "dirty_list (with_dirties m c3) (x # U @ V)"
    by (rule addToDirtyList_rel)
  have w: "write_node x b c = with_dirties m c3"
    using l(1) b(2) Dirty(2) unfolding m(1) [symmetric] by (simp add: write_node_def c1_def c3_def)
  have sel: "block (with_dirties m c3) = (block c)(x := b\<lparr>clean := False\<rparr>)"
    "bucketId (with_dirties m c3) = bucketId c" by (simp_all add: c1_def c3_def)
  have "blocks_rel (with_dirties m c3) R (x # U @ V)"
    by (rule blocks_rel_write [of c R D, OF _ x _ _ _ sel b(1,3)])
       (use r Dirty cache_relD(3) [OF r] in \<open>auto simp: cache_rel_def\<close>)
  moreover have "lists_rel (with_dirties m c3) R (x # U @ V) F"
    using cache_relD(1,3,9,12,13) [OF r] m(2) Dirty(1) unfolding lists_rel_def by (auto simp: c1_def c3_def)
  moreover have "hash_rel (with_dirties m c3) = hash_rel c"
    by (rule hash_rel_cong) (simp_all add: c1_def c3_def)
  moreover have "set R \<union> set (x # U @ V) = set R \<union> set D" using Dirty(1) by auto
  ultimately show thesis
    using r by (intro that [of R "x # U @ V"]) (simp_all only: w cache_rel_def simp_thms)
qed

lemma cache_write_spec:
  fixes offset sz :: uint32
  defines "a \<equiv> offset div 1024 * 1024" and "off \<equiv> unat (offset mod 1024)"
  assumes "cache_inv c" and sz: "off + unat sz \<le> 1024" "unat sz \<le> length src"
  obtains c' where "cache_write f offset sz src c = Inr (cmap c (f, a) \<noteq> None, c')" "cache_inv c'"
    "cmap c' = (case cmap c (f, a) of None \<Rightarrow> cmap c
       | Some (d, m) \<Rightarrow> (cmap c)((f, a) \<mapsto>
           (take off d @ take (unat sz) src @ drop (off + unat sz) d,
            take off m @ replicate (unat sz) True @ drop (off + unat sz) m)))"
    "freeBlockSemaphore c' = freeBlockSemaphore c" "freeBlockCount c' = freeBlockCount c"
proof -
  from assms(3) obtain R D F B where r: "cache_rel c R D F B" by (auto simp: cache_inv_def)
  obtain y where y: "lookup f a c = Inr y" using lookup_rel(3) [OF r] by blast
  have a: "offset div word_of_nat pfsBlockSizeInBytes * word_of_nat pfsBlockSizeInBytes = a"
    "unat (offset mod word_of_nat pfsBlockSizeInBytes) = off" by (simp_all add: a_def off_def)
  show thesis
  proof (cases y)
    case None
    then show thesis
      using that [of c] y assms(3) unfolding cache_write_def a by (simp add: cmap_def)
  next
    case (Some x)
    then have x: "x \<in> set R \<union> set D" "ckey (block c x) = (f, a)" using lookup_rel(1) [OF r] y by blast+
    define b where "b = writeInto off (unat sz) src (block c x)"
    have wf: "wf_block (block c x)" using cache_relD(7) [OF r x(1)] .
    have b: "ckey b = ckey (block c x)" "clean b = clean (block c x)" "wf_block (b\<lparr>clean := False\<rparr>)"
      using wf sz by (auto simp: b_def writeInto_def ckey_def wf_block_def)
    obtain R' D' where r': "cache_rel (write_node x b c) R' D' F B" "set R' \<union> set D' = set R \<union> set D"
      using write_node_rel [OF r x(1) b] .
    have wr: "cache_write f offset sz src c = Inr (cmap c (f, a) \<noteq> None, write_node x b c)"
      using y Some sz unfolding cache_write_def a by (simp add: write_node_def b_def cmap_def Let_def)
    have "cmap (write_node x b c) = (if x \<in> set R' \<union> set D'
        then (cmap c)((f, a) \<mapsto> (data (block (write_node x b c) x), dirty (block (write_node x b c) x)))
        else (cmap c)((f, a) := None))"
      by (rule cmap_update [OF r r'(1)]) (use r'(2) x b(1) in \<open>auto simp: write_node_frame ckey_def\<close>)
    also have "\<dots> = (cmap c)((f, a) \<mapsto> (data b, dirty b))" using x(1) r'(2) by (simp add: write_node_frame)
    finally show thesis
      using that [OF wr] r'(1) y Some
      by (auto simp: cache_inv_def write_node_frame b_def writeInto_def cmap_def)
  qed
qed

lemma hash_rel_on:
  assumes "bucketNode c' = bucketNode c" "hashTable c' = hashTable c" "\<And>x. x \<in> L \<Longrightarrow> bucketId c' x = bucketId c x"
    "hash_rel c L B"
  shows "hash_rel c' L B"
proof -
  have "{x \<in> L. unat (bucketId c' x) = b} = {x \<in> L. unat (bucketId c x) = b}" for b
    using assms(3) by auto
  then show ?thesis using assms(1,2,4) by (simp add: hash_rel_def)
qed

section \<open>addBlock\<close>

text \<open>The state after the free list gave up node \<open>x\<close>; node \<open>y\<close> is the new head.\<close>

definition pop_free :: "nat \<Rightarrow> Cache \<Rightarrow> Cache" where
  "pop_free y c =
    (let c1 = c\<lparr>freeBlockSemaphore := freeBlockSemaphore c - 2, freeNode := set_prev y None (freeNode c),
                freeListHead := Some y, freeBlockCount := freeBlockCount c - 1\<rparr>
     in if freeBlockCount c1 \<le> 2000 then c1\<lparr>harvesterSemaphore := harvesterSemaphore c1 + 1\<rparr> else c1)"

lemma pop_free_sel [simp]:
  "block (pop_free y c) = block c" "bucketId (pop_free y c) = bucketId c"
  "recencyNode (pop_free y c) = recencyNode c" "dirtyNode (pop_free y c) = dirtyNode c"
  "bucketNode (pop_free y c) = bucketNode c" "hashTable (pop_free y c) = hashTable c"
  "LRUNode (pop_free y c) = LRUNode c" "MRUNode (pop_free y c) = MRUNode c"
  "dirtyListLRU (pop_free y c) = dirtyListLRU c" "dirtyListMRU (pop_free y c) = dirtyListMRU c"
  "freeBlockSemaphore (pop_free y c) = freeBlockSemaphore c - 2" "freeListHead (pop_free y c) = Some y"
  "freeBlockCount (pop_free y c) = freeBlockCount c - 1" "freeNode (pop_free y c) = set_prev y None (freeNode c)"
  by (simp_all add: pop_free_def Let_def)

lemma waits_then_entry:
  assumes "chain (freeNode c) (freeListHead c) (x # y # F)" "2 \<le> freeBlockSemaphore c"
  shows "bindR (waitFreeBlock c) getFreeListEntry = Inr (x, pop_free y c)"
proof -
  have "freeBlockSemaphore c - Suc (Suc 0) = freeBlockSemaphore c - 1 - 1" by simp
  then show ?thesis
    using assms by (simp add: waitFreeBlock_def getFreeListEntry_def pop_free_def Let_def numeral_2_eq_2)
qed

lemma addBlock_rel:
  fixes a :: uint32
  assumes r: "cache_rel c R D (x # y # F) B"
    and a: "a AND 1023 = 0" and src: "1024 \<le> length src"
    and new: "cmap c (f, a) = None" and sem: "2 \<le> freeBlockSemaphore c"
  obtains c' B' where "addBlock f a src c = Inr c'" "cache_rel c' (x # R) D (y # F) B'"
    "block c' = (block c)(x := (CacheBlock_reset (block c x))\<lparr>valid := True, addr := a, fdes := f, data := take 1024 src\<rparr>)"
    "freeBlockSemaphore c' = freeBlockSemaphore c - 2" "freeBlockCount c' = freeBlockCount c - 1"
proof -
  define b where "b = (CacheBlock_reset (block c x))\<lparr>valid := True, addr := a, fdes := f, data := take 1024 src\<rparr>"
  define c1 where "c1 = (pop_free y c)\<lparr>block := (block c)(x := b), bucketId := (bucketId c)(x := ucast (hashPFS f a))\<rparr>"
  note d = cache_relD [OF r]
  have xn: "x \<notin> set R \<union> set D" "x \<notin> set (y # F)" using d(3) by auto
  have "hash_rel c1 (set R \<union> set D) B"
    by (rule hash_rel_on [OF _ _ _ d(4)]) (use xn in \<open>auto simp: c1_def\<close>)
  moreover have "unat (bucketId c1 x) < HASH_BUCKETS" using hash_bucket by (simp add: c1_def)
  ultimately obtain t l B' where t: "addToHashmap x c1 = Inr (c1\<lparr>hashTable := t, bucketNode := l\<rparr>)"
    "hash_rel (c1\<lparr>hashTable := t, bucketNode := l\<rparr>) (insert x (set R \<union> set D)) B'"
    by (rule addToHashmap_rel [OF _ xn(1)])
  define c2 where "c2 = c1\<lparr>hashTable := t, bucketNode := l\<rparr>"
  have "rec_list c2 R" "x \<notin> set R" using d(1) xn by (simp_all add: c1_def c2_def)
  then obtain m where m: "addToRecencyList x c2 = with_recency m c2" "rec_list (with_recency m c2) (x # R)"
    by (rule addToRecencyList_rel)
  have am: "a AND (word_of_nat pfsBlockSizeInBytes - 1) = 0" using a by simp
  have add: "addBlock f a src c = Inr (with_recency m c2)"
    using waits_then_entry [OF d(9) sem] src t(1) m(1)
    unfolding addBlock_def bindR_assoc [symmetric] by (simp add: a b_def [symmetric] c1_def c2_def)
  have ch: "chain (set_prev y None (freeNode c)) (Some y) (y # F)"
    using d(9) chain_cong [of F "set_prev y None (freeNode c)" "freeNode c"] by simp
  have blk: "block (with_recency m c2) = (block c)(x := b)" by (simp add: c2_def c1_def)
  have nk: "ckey (block c z) \<noteq> (f, a)" if "z \<in> set R \<union> set D" for z
    using new cmap_Some [OF r, of "(f, a)"] that by (metis option.distinct(1))
  have inj: "inj_on (\<lambda>z. ckey (((block c)(x := b)) z)) (insert x (set R \<union> set D))"
  proof -
    have "inj_on (\<lambda>z. ckey (((block c)(x := b)) z)) (set R \<union> set D)"
      using d(11) xn(1) by (auto simp: inj_on_def)
    moreover have "ckey b = (f, a)" by (simp add: b_def ckey_def)
    moreover have "(f, a) \<notin> (\<lambda>z. ckey (((block c)(x := b)) z)) ` (set R \<union> set D - {x})"
    proof
      assume "(f, a) \<in> (\<lambda>z. ckey (((block c)(x := b)) z)) ` (set R \<union> set D - {x})"
      then obtain z where "z \<in> set R \<union> set D" "(f, a) = ckey (block c z)" by auto
      then show False using nk by metis
    qed
    ultimately show ?thesis by (simp only: inj_on_insert fun_upd_same simp_thms)
  qed
  have b: "wf_block b" "clean b" "fdes b = f" "addr b = a"
    using src by (auto simp: b_def wf_block_def CacheBlock_reset_def)
  have bid: "bucketId (with_recency m c2) = (bucketId c)(x := ucast (hashPFS f a))" by (simp add: c2_def c1_def)
  have "blocks_rel (with_recency m c2) (x # R) D"
    unfolding blocks_rel_def blk bid
  proof (intro conjI ballI)
    fix z assume z: "z \<in> set (x # R) \<union> set D"
    show "wf_block (((block c)(x := b)) z)" using z b(1) d(7) by (cases "z = x") simp_all
    show "((bucketId c)(x := ucast (hashPFS f a))) z = ucast (hashPFS (fdes (((block c)(x := b)) z)) (addr (((block c)(x := b)) z)))"
      using z b(3,4) d(10) [of z] by (cases "z = x") simp_all
  next
    fix z assume "z \<in> set (x # R)"
    then show "clean (((block c)(x := b)) z)" using b(2) d(5) by (cases "z = x") simp_all
  next
    fix z assume "z \<in> set D"
    then show "\<not> clean (((block c)(x := b)) z)" using xn(1) d(6) by (cases "z = x") simp_all
  next
    show "inj_on (\<lambda>z. ckey (((block c)(x := b)) z)) (set (x # R) \<union> set D)" using inj by simp
  qed
  moreover have "lists_rel (with_recency m c2) (x # R) D (y # F)"
    using m(2) d(2,3,12,13) ch by (auto simp: lists_rel_def c2_def c1_def)
  moreover have "hash_rel (with_recency m c2) (set (x # R) \<union> set D) B'"
  proof (rule hash_rel_on)
    show "hash_rel c2 (set (x # R) \<union> set D) B'" using t(2) unfolding c2_def by simp
  qed simp_all
  ultimately show thesis
    by (intro that [OF add]) (simp_all add: cache_rel_def blk b_def c2_def c1_def)
qed

lemma addBlock_spec:
  fixes a :: uint32
  assumes inv: "cache_inv c" and a: "a AND 1023 = 0" and src: "1024 \<le> length src"
    and new: "cmap c (f, a) = None" and sem: "2 \<le> freeBlockSemaphore c" and free: "2 \<le> freeBlockCount c"
  obtains c' where "addBlock f a src c = Inr c'" "cache_inv c'"
    "cmap c' = (cmap c)((f, a) \<mapsto> (take 1024 src, replicate 1024 False))"
    "freeBlockSemaphore c' = freeBlockSemaphore c - 2" "freeBlockCount c' = freeBlockCount c - 1"
proof -
  from inv obtain R D F B where r: "cache_rel c R D F B" by (auto simp: cache_inv_def)
  have "\<not> length F < 2"
  proof
    assume "length F < 2"
    then have "length F = 0 \<or> length F = 1" by linarith
    then show False using free cache_relD(12) [OF r] by (auto simp: word_le_nat_alt)
  qed
  then obtain x y G where F: "F = x # y # G" by (cases F; cases "tl F") auto
  obtain c' B' where add: "addBlock f a src c = Inr c'" and r': "cache_rel c' (x # R) D (y # G) B'"
    and blk: "block c' = (block c)(x := (CacheBlock_reset (block c x))\<lparr>valid := True, addr := a, fdes := f, data := take 1024 src\<rparr>)"
    and s: "freeBlockSemaphore c' = freeBlockSemaphore c - 2" "freeBlockCount c' = freeBlockCount c - 1"
    using addBlock_rel [OF r [unfolded F] a src new sem] .
  have xn: "x \<notin> set R \<union> set D" using cache_relD(3) [OF r] F by auto
  have "cmap c' = (if x \<in> set (x # R) \<union> set D then (cmap c)((f, a) \<mapsto> (data (block c' x), dirty (block c' x)))
                    else (cmap c)((f, a) := None))"
    by (rule cmap_update [OF r r']) (use xn new in \<open>auto simp: blk ckey_def\<close>)
  then show thesis
    using that [OF add] r' s by (auto simp: cache_inv_def blk CacheBlock_reset_def)
qed

lemma addBlock_exhausted:
  "freeBlockSemaphore c < 2 \<Longrightarrow> a AND 1023 = 0 \<Longrightarrow> addBlock f a src c = Inl Blocked"
  by (auto simp: addBlock_def waitFreeBlock_def getFreeListEntry_def)

section \<open>Giving a node back to the free list\<close>

lemma addToFreeList_rel:
  assumes r: "cache_rel c R D F B" and x: "x \<in> set R \<union> set D"
    and sets: "set R' = set R - {x}" "set D' = set D - {x}"
    and lists: "rec_list c' R'" "dirty_list c' D'" "hash_rel c' (set R \<union> set D - {x}) B'"
    and free: "chain (freeNode c') (freeListHead c') F" "freeBlockCount c' = freeBlockCount c"
    and same: "\<And>y. y \<noteq> x \<Longrightarrow> block c' y = block c y \<and> bucketId c' y = bucketId c y"
  shows "cache_rel (snd (addToFreeList x c')) R' D' (x # F) B'"
proof -
  define c'' where "c'' = snd (addToFreeList x c')"
  have sel: "recencyNode c'' = recencyNode c'" "MRUNode c'' = MRUNode c'" "LRUNode c'' = LRUNode c'"
    "dirtyNode c'' = dirtyNode c'" "dirtyListMRU c'' = dirtyListMRU c'" "dirtyListLRU c'' = dirtyListLRU c'"
    "hashTable c'' = hashTable c'" "bucketNode c'' = bucketNode c'" "bucketId c'' = bucketId c'"
    "block c'' = block c'" "freeListHead c'' = Some x" "freeBlockCount c'' = freeBlockCount c' + 1"
    "freeNode c'' = link_front x (freeListHead c') (freeNode c')"
    by (simp_all add: c''_def addToFreeList_def link_front_def Let_def)
  note d = cache_relD [OF r]
  have L: "set R' \<union> set D' = set R \<union> set D - {x}" using sets by auto
  have xF: "x \<notin> set F" using d(3) x by auto
  have "distinct R'" "distinct D'" using lists(1,2) by (simp_all add: dlist_def)
  then have "distinct (R' @ D' @ x # F)" using d(3) xF sets by auto
  moreover have "set (R' @ D' @ x # F) = {..<blockCount}" using d(13) x sets by auto
  moreover have "freeBlockCount c'' = word_of_nat (length (x # F))" using free(2) d(12) by (simp add: sel)
  ultimately have "lists_rel c'' R' D' (x # F)"
    using lists(1,2) chain_link [OF free(1) xF] by (simp add: lists_rel_def sel)
  moreover have "hash_rel c'' (set R' \<union> set D') B'"
    unfolding L using lists(3) by (simp add: hash_rel_def sel)
  moreover have "inj_on (\<lambda>y. ckey (block c' y)) (set R' \<union> set D') \<longleftrightarrow> inj_on (\<lambda>y. ckey (block c y)) (set R' \<union> set D')"
    by (rule inj_on_cong) (use L same in auto)
  then have "inj_on (\<lambda>y. ckey (block c' y)) (set R' \<union> set D')"
    using d(11) L by (auto intro: inj_on_subset)
  then have "blocks_rel c'' R' D'"
    using d(5-7,10) sets same unfolding blocks_rel_def sel by auto
  ultimately show ?thesis by (simp add: cache_rel_def c''_def)
qed

lemma dlist_reset: "dlist h m l xs \<Longrightarrow> x \<notin> set xs \<Longrightarrow> dlist (h(x := resetNode)) m l xs"
  by (metis dlist_def fun_upd_triv)

lemma resetMetadata_rel:
  assumes "rec_list c R" "dirty_list c D" "hash_rel c L B" "chain (freeNode c) (freeListHead c) F"
    and "x \<notin> set R" "x \<notin> set D" "x \<notin> L" "x \<notin> set F"
  shows "rec_list (resetMetadata x c) R" "dirty_list (resetMetadata x c) D" "hash_rel (resetMetadata x c) L B"
    "chain (freeNode (resetMetadata x c)) (freeListHead (resetMetadata x c)) F"
proof -
  have "bucketNode c x = resetNode" using assms(3,7) by (simp add: hash_rel_def)
  then have b: "(bucketNode c)(x := resetNode) = bucketNode c" by (metis fun_upd_triv)
  show "hash_rel (resetMetadata x c) L B"
    by (rule hash_rel_on [OF _ _ _ assms(3)]) (use assms(7) b in \<open>auto simp: resetMetadata_def\<close>)
  have "chain ((freeNode c)(x := resetNode)) p F = chain (freeNode c) p F" for p
    by (rule chain_cong) (use assms(8) in auto)
  then show "chain (freeNode (resetMetadata x c)) (freeListHead (resetMetadata x c)) F"
    using assms(4) by (simp add: resetMetadata_def)
qed (use assms dlist_reset in \<open>simp_all add: resetMetadata_def\<close>)

section \<open>evictBlock\<close>

lemma release_frame:
  "freeBlockSemaphore (snd (addToFreeList x c)) = freeBlockSemaphore c"
  "freeBlockCount (snd (addToFreeList x c)) = freeBlockCount c + 1"
  "block (snd (addToFreeList x c)) = block c"
  "freeBlockSemaphore (resetMetadata x c) = freeBlockSemaphore c"
  "freeBlockCount (resetMetadata x c) = freeBlockCount c" "block (resetMetadata x c) = block c"
  by (simp_all add: addToFreeList_def resetMetadata_def Let_def)

text \<open>The cache after node \<open>x\<close> left the hash table, its list and the cache.\<close>

lemma evict_node:
  assumes r: "cache_rel c R D F B" and x: "x \<in> set R \<union> set D"
  obtains c1 c3 R' D' B' where "removeFromHashmap x c = Inr c1" "block c1 = block c"
    "c3 = (if clean (block c x) then removeFromRecencyList x c1
           else removeFromDirtyList x (c1\<lparr>block := (block c1)(x := resetDirty (block c1 x))\<rparr>))"
    "cache_rel (snd (addToFreeList x (resetMetadata x c3))) R' D' (x # F) B'"
    "set R' \<union> set D' = set R \<union> set D - {x}" "\<forall>y. y \<noteq> x \<longrightarrow> block c3 y = block c y"
    "freeBlockSemaphore c3 = freeBlockSemaphore c" "freeBlockCount c3 = freeBlockCount c"
proof -
  note d = cache_relD [OF r]
  obtain t l B' where h: "removeFromHashmap x c = Inr (c\<lparr>hashTable := t, bucketNode := l\<rparr>)"
    "hash_rel (c\<lparr>hashTable := t, bucketNode := l\<rparr>) (set R \<union> set D - {x}) B'"
    by (rule removeFromHashmap_rel [OF d(4) x d(8) [OF x]])
  define c1 where "c1 = c\<lparr>hashTable := t, bucketNode := l\<rparr>"
  have c1: "hash_rel c1 (set R \<union> set D - {x}) B'" using h(2) by (simp add: c1_def)
  have xF: "x \<notin> set F" using d(3) x by auto
  define c3 where "c3 = (if clean (block c x) then removeFromRecencyList x c1
           else removeFromDirtyList x (c1\<lparr>block := (block c1)(x := resetDirty (block c1 x))\<rparr>))"
  have "\<exists>R' D'. rec_list c3 R' \<and> dirty_list c3 D' \<and> set R' = set R - {x} \<and> set D' = set D - {x} \<and>
      hash_rel c3 (set R \<union> set D - {x}) B'"
    using r x
  proof (cases rule: live_split)
    case (Clean U V)
    have "rec_list c1 (U @ x # V)" using d(1) Clean(1) by (simp add: c1_def)
    then obtain m where m: "removeFromRecencyList x c1 = with_recency m c1" "rec_list (with_recency m c1) (U @ V)"
      by (rule removeFromRecencyList_rel)
    have c3: "c3 = with_recency m c1" using Clean(2) m(1) by (simp add: c3_def)
    have "dirty_list c3 D" using d(2) by (simp add: c3 c1_def)
    moreover have "hash_rel c3 = hash_rel c1" by (rule hash_rel_cong) (simp_all add: c3)
    moreover have "set (U @ V) = set R - {x}" "set D = set D - {x}" using d(3) Clean(1) by auto
    ultimately show ?thesis using m(2) c1 unfolding c3 by metis
  next
    case (Dirty U V)
    define c2 where "c2 = c1\<lparr>block := (block c1)(x := resetDirty (block c1 x))\<rparr>"
    have "dirty_list c2 (U @ x # V)" using d(2) Dirty(1) by (simp add: c1_def c2_def)
    then obtain m where m: "removeFromDirtyList x c2 = with_dirties m c2" "dirty_list (with_dirties m c2) (U @ V)"
      by (rule removeFromDirtyList_rel)
    have c3: "c3 = with_dirties m c2" using Dirty(2) m(1) by (simp add: c3_def c2_def)
    have "rec_list c3 R" using d(1) by (simp add: c3 c2_def c1_def)
    moreover have "hash_rel c3 = hash_rel c1" by (rule hash_rel_cong) (simp_all add: c3 c2_def)
    moreover have "set (U @ V) = set D - {x}" "set R = set R - {x}" using d(3) Dirty(1) by auto
    ultimately show ?thesis using m(2) c1 unfolding c3 by metis
  qed
  then obtain R' D' where n: "rec_list c3 R'" "dirty_list c3 D'" "set R' = set R - {x}" "set D' = set D - {x}"
      "hash_rel c3 (set R \<union> set D - {x}) B'" by blast
  have fr: "freeBlockSemaphore c3 = freeBlockSemaphore c" "freeBlockCount c3 = freeBlockCount c"
    "\<And>y. y \<noteq> x \<Longrightarrow> block c3 y = block c y" "bucketId c3 = bucketId c" "freeNode c3 = freeNode c"
    "freeListHead c3 = freeListHead c"
    by (simp_all add: c3_def c1_def removeFromRecencyList_def removeFromDirtyList_def)
  have ch: "chain (freeNode c3) (freeListHead c3) F" using d(9) fr by simp
  note m = resetMetadata_rel [OF n(1,2,5) ch, of x]
  have "cache_rel (snd (addToFreeList x (resetMetadata x c3))) R' D' (x # F) B'"
    by (rule addToFreeList_rel [OF r x n(3,4)])
       (use m n xF fr in \<open>auto simp: release_frame resetMetadata_def\<close>)
  moreover have "set R' \<union> set D' = set R \<union> set D - {x}" using n by auto
  moreover have "removeFromHashmap x c = Inr c1" "block c1 = block c" using h(1) by (simp_all add: c1_def)
  ultimately show thesis using fr by (intro that [OF _ _ c3_def]) auto
qed

lemma evictBlock_spec:
  assumes "cache_inv c"
  obtains (miss) "cmap c (f, a) = None" "\<And>flush w. evictBlock flush f a (c, w) = Inr (c, w)"
  | (hit) b c' where "cmap c (f, a) = Some (data b, dirty b)" "ckey b = (f, a)" "wf_block b"
    "\<And>flush w. evictBlock flush f a (c, w) =
      bindR (if clean b then Inr w else flush b w) (\<lambda>w'. Inr (c', w'))"
    "cache_inv c'" "cmap c' = (cmap c)((f, a) := None)"
    "freeBlockSemaphore c' = freeBlockSemaphore c" "freeBlockCount c' = freeBlockCount c + 1"
    "\<exists>x. lookup f a c = Inr (Some x) \<and> b = block c x"
proof -
  from assms(1) obtain R D F B where r: "cache_rel c R D F B" by (auto simp: cache_inv_def)
  obtain y where y: "lookup f a c = Inr y" using lookup_rel(3) [OF r] by blast
  show thesis
  proof (cases y)
    case None
    then show thesis using y by (intro miss) (simp_all add: cmap_def evictBlock_def)
  next
    case (Some x)
    then have x: "x \<in> set R \<union> set D" "ckey (block c x) = (f, a)" using lookup_rel(1) [OF r] y by blast+
    obtain c1 c3 R' D' B' where e: "removeFromHashmap x c = Inr c1" "block c1 = block c"
      and c3: "c3 = (if clean (block c x) then removeFromRecencyList x c1
           else removeFromDirtyList x (c1\<lparr>block := (block c1)(x := resetDirty (block c1 x))\<rparr>))"
      and r': "cache_rel (snd (addToFreeList x (resetMetadata x c3))) R' D' (x # F) B'"
      and n: "set R' \<union> set D' = set R \<union> set D - {x}" "\<forall>y. y \<noteq> x \<longrightarrow> block c3 y = block c y"
      and fr: "freeBlockSemaphore c3 = freeBlockSemaphore c" "freeBlockCount c3 = freeBlockCount c"
      by (rule evict_node [OF r x(1)])
    define c' where "c' = snd (addToFreeList x (resetMetadata x c3))"
    have "cmap c' = (if x \<in> set R' \<union> set D' then (cmap c)((f, a) \<mapsto> (data (block c' x), dirty (block c' x)))
                    else (cmap c)((f, a) := None))"
      unfolding c'_def by (rule cmap_update [OF r r']) (use n x in \<open>auto simp: release_frame\<close>)
    then have cm: "cmap c' = (cmap c)((f, a) := None)" using n(1) by simp
    show thesis
    proof (rule hit [of "block c x" c'])
      show "evictBlock flush f a (c, w) =
          bindR (if clean (block c x) then Inr w else flush (block c x) w) (\<lambda>w'. Inr (c', w'))" for flush w
        using y Some e by (auto simp: evictBlock_def c'_def c3 bindR_assoc)
    qed (use y Some x r' cm fr cache_relD(7) [OF r x(1)] in
        \<open>auto simp: cmap_def c'_def release_frame cache_inv_def\<close>)
  qed
qed

end
