(* ===== verification/Cache_Threads.thy ===== *)
theory Cache_Threads
  imports Cache_Ops
begin

text \<open>
  The new cache and the two background threads. What they write back is a list of blocks given
  to \<^verbatim>\<open>PFSClient::flush\<close> one after the other.
\<close>

section \<open>The new cache\<close>

lemma linkFree_chain:
  assumes "chain h p F" "distinct is" "set is \<inter> set F = {}"
  shows "case linkFree is h p of (h', p') \<Rightarrow> chain h' p' (rev is @ F)"
  using assms
proof (induction "is" arbitrary: h p F)
  case (Cons i "is")
  have "chain (link_front i p h) (Some i) (i # F)" using Cons.prems by (intro chain_link) auto
  from Cons.IH [OF this] Cons.prems show ?case by (simp add: link_front_def)
qed simp

lemma new_Cache_rel: "cache_rel (new_Cache mem) [] [] (rev [0..<blockCount]) (\<lambda>_. [])"
proof -
  obtain h p where l: "linkFree [0..<blockCount] (\<lambda>_. resetNode) None = (h, p)" by fastforce
  have "chain h p (rev [0..<blockCount])"
    using linkFree_chain [of "\<lambda>_. resetNode" None "[]" "[0..<blockCount]"] l by simp
  then show ?thesis
    unfolding rel_defs hash_rel_def new_Cache_def l by (auto simp: dlist_def)
qed

lemma new_Cache_spec:
  "cache_inv (new_Cache mem)" "cmap (new_Cache mem) = Map.empty"
  "freeBlockSemaphore (new_Cache mem) = 2048" "freeBlockCount (new_Cache mem) = 2048"
proof -
  show "cache_inv (new_Cache mem)" using new_Cache_rel cache_inv_def by blast
  have "cmap (new_Cache mem) k = None" for k
    using cmap_Some [OF new_Cache_rel, of mem k] by (metis (no_types, lifting) empty_iff empty_set option.exhaust sup_bot.right_neutral)
  then show "cmap (new_Cache mem) = Map.empty" by blast
qed (simp_all add: new_Cache_def split: prod.splits)

section \<open>The flusher\<close>

lemma resetDirty_sel [simp]:
  "fdes (resetDirty b) = fdes b" "addr (resetDirty b) = addr b" "data (resetDirty b) = data b"
  "valid (resetDirty b) = valid b" "clean (resetDirty b)" "ckey (resetDirty b) = ckey b"
  "dirty (resetDirty b) = replicate pfsBlockSizeInBytes False"
  "wf_block b \<Longrightarrow> wf_block (resetDirty b)"
  by (simp_all add: resetDirty_def ckey_def wf_block_def)

lemma flush_node:
  assumes r: "cache_rel c R (D @ [x]) F B"
  obtains c1 c2 where "removeDirtyListLRU c = Inr (Some x, c1)" "block c1 = block c"
    "c2 = addToRecencyList x (c1\<lparr>block := (block c1)(x := resetDirty (block c1 x))\<rparr>)"
    "cache_rel c2 (x # R) D F B" "block c2 = (block c)(x := resetDirty (block c x))"
    "freeBlockSemaphore c2 = freeBlockSemaphore c" "freeBlockCount c2 = freeBlockCount c"
proof -
  note d = cache_relD [OF r]
  obtain l where l: "removeDirtyListLRU c = Inr (Some x, with_dirties l c)" "dirty_list (with_dirties l c) D"
    by (rule removeDirtyListLRU_rel [OF d(2)])
  define c1 where "c1 = (with_dirties l c)\<lparr>block := (block c)(x := resetDirty (block c x))\<rparr>"
  have xn: "x \<notin> set R" "x \<notin> set D" using d(3) by auto
  have "rec_list c1 R" using d(1) by (simp add: c1_def)
  from this xn(1) obtain m where m: "addToRecencyList x c1 = with_recency m c1" "rec_list (with_recency m c1) (x # R)"
    by (rule addToRecencyList_rel)
  let ?c2 = "with_recency m c1"
  have sel: "block ?c2 = (block c)(x := resetDirty (block c x))" "bucketId ?c2 = bucketId c" by (simp_all add: c1_def)
  have k: "ckey (((block c)(x := resetDirty (block c x))) y) = ckey (block c y)" for y by simp
  have L: "set (x # R) \<union> set D = set R \<union> set (D @ [x])" by auto
  have "blocks_rel ?c2 (x # R) D"
    unfolding blocks_rel_def sel k L
  proof (intro conjI ballI)
    fix y assume y: "y \<in> set R \<union> set (D @ [x])"
    show "wf_block (((block c)(x := resetDirty (block c x))) y)" using y d(7) [of x] d(7) [of y] by (cases "y = x") simp_all
    show "bucketId c y = ucast (hashPFS (fdes (((block c)(x := resetDirty (block c x))) y)) (addr (((block c)(x := resetDirty (block c x))) y)))"
      using y d(10) [of y] by (cases "y = x") simp_all
  next
    fix y assume "y \<in> set (x # R)"
    then show "clean (((block c)(x := resetDirty (block c x))) y)" using d(5) [of y] by (cases "y = x") simp_all
  next
    fix y assume "y \<in> set D"
    then show "\<not> clean (((block c)(x := resetDirty (block c x))) y)" using xn(2) d(6) [of y] by (cases "y = x") simp_all
  qed (rule d(11))
  moreover have "dirty_list ?c2 D" using l(2) by (simp add: c1_def)
  then have "lists_rel ?c2 (x # R) D F"
    using m(2) d(3,9,12,13) unfolding lists_rel_def by (auto simp: c1_def)
  moreover have "hash_rel ?c2 (set (x # R) \<union> set D) B"
    unfolding L by (rule hash_rel_on [OF _ _ _ d(4)]) (simp_all add: c1_def)
  ultimately have "cache_rel ?c2 (x # R) D F B" by (simp add: cache_rel_def)
  then show thesis
    using sel(1) l(1) m(1) by (intro that [of "with_dirties l c" ?c2]) (simp_all add: c1_def)
qed

lemma flushLoop_spec:
  assumes "cache_rel c R D F B" "length D < n"
  obtains c' R' where "\<And>flush w. flushLoop flush n (c, w) =
      bindR (runAll flush (map (block c) (rev D)) w) (\<lambda>w'. Inr (c', w'))"
    "cache_rel c' R' [] F B" "set R' = set R \<union> set D"
    "\<forall>y. block c' y = (if y \<in> set D then resetDirty (block c y) else block c y)"
    "freeBlockSemaphore c' = freeBlockSemaphore c" "freeBlockCount c' = freeBlockCount c"
  using assms
proof (induction D arbitrary: c R n thesis rule: rev_induct)
  case Nil
  from Nil.prems(3) obtain k where n: "n = Suc k" by (cases n) auto
  have "flushLoop flush n (c, w) = Inr (c, w)" for flush :: "CacheBlock \<Rightarrow> 'a \<Rightarrow> 'a result" and w
    using removeDirtyListLRU_empty [OF cache_relD(2) [OF Nil.prems(2)]] n by simp
  then show ?case using Nil.prems(2) by (intro Nil.prems(1) [of c R]) auto
next
  case (snoc x D)
  from snoc.prems(3) obtain k where n: "n = Suc k" "length D < k" by (cases n) auto
  obtain c1 c2 where f: "removeDirtyListLRU c = Inr (Some x, c1)" "block c1 = block c"
    and c2: "c2 = addToRecencyList x (c1\<lparr>block := (block c1)(x := resetDirty (block c1 x))\<rparr>)"
    and r2: "cache_rel c2 (x # R) D F B" and b2: "block c2 = (block c)(x := resetDirty (block c x))"
    and s: "freeBlockSemaphore c2 = freeBlockSemaphore c" "freeBlockCount c2 = freeBlockCount c"
    by (rule flush_node [OF snoc.prems(2)])
  obtain c' R' where IH: "\<And>flush (w::'a). flushLoop flush k (c2, w) =
      bindR (runAll flush (map (block c2) (rev D)) w) (\<lambda>w'. Inr (c', w'))"
    "cache_rel c' R' [] F B" "set R' = set (x # R) \<union> set D"
    "\<forall>y. block c' y = (if y \<in> set D then resetDirty (block c2 y) else block c2 y)"
    "freeBlockSemaphore c' = freeBlockSemaphore c2" "freeBlockCount c' = freeBlockCount c2"
    by (rule snoc.IH [OF _ r2 n(2)]) blast
  have dirty: "\<not> clean (block c x)" using cache_relD(6) [OF snoc.prems(2)] by simp
  have "x \<notin> set D" using cache_relD(3) [OF snoc.prems(2)] by simp
  then have m: "map (block c2) (rev D) = map (block c) (rev D)" by (simp add: b2)
  have "flushLoop flush n (c, w) = bindR (runAll flush (map (block c) (rev (D @ [x]))) w) (\<lambda>w'. Inr (c', w'))" for flush and w :: 'a
    using f dirty IH(1) [unfolded m] by (simp add: n(1) c2 [symmetric, unfolded f(2)] bindR_assoc)
  then show ?case
    by (rule snoc.prems(1)) (use IH(2-6) s b2 \<open>x \<notin> set D\<close> in auto)
qed

text \<open>The blocks of the dirty list are the ones with unwritten bytes.\<close>

lemma dirty_blocks:
  assumes r: "cache_rel c R D F B"
  shows "distinct (map ckey (map (block c) (rev D)))"
    "\<forall>b\<in>set (map (block c) (rev D)). cmap c (ckey b) = Some (data b, dirty b) \<and> wf_block b \<and> \<not> clean b"
    "\<forall>k d m. cmap c k = Some (d, m) \<and> True \<in> set m \<longrightarrow> k \<in> ckey ` set (map (block c) (rev D))"
    "length D < blockCount + 1"
proof -
  note d = cache_relD [OF r]
  show "distinct (map ckey (map (block c) (rev D)))"
    using d(3,11) by (auto simp: distinct_map inj_on_def)
  show "\<forall>b\<in>set (map (block c) (rev D)). cmap c (ckey b) = Some (data b, dirty b) \<and> wf_block b \<and> \<not> clean b"
    using cmap_Some [OF r] d(6,7) by auto
  have "x \<in> set D" if "x \<in> set R \<union> set D" "True \<in> set (dirty (block c x))" for x
    using that d(5,7) [of x] by (auto simp: wf_block_def)
  then show "\<forall>k d m. cmap c k = Some (d, m) \<and> True \<in> set m \<longrightarrow> k \<in> ckey ` set (map (block c) (rev D))"
    unfolding cmap_Some [OF r] by force
  have "length D \<le> card {..<blockCount}"
    using d(3,13) distinct_card [of D] card_mono [of "{..<blockCount}" "set D"] by auto
  then show "length D < blockCount + 1" by simp
qed

lemma cacheFlusher_spec:
  assumes "cache_inv c"
  obtains bs c' where
    "\<And>flush w. cacheFlusher flush (c, w) = bindR (runAll flush bs w) (\<lambda>w'. Inr (c', w'))"
    "cache_inv c'" "cmap c' = (\<lambda>k. map_option (\<lambda>v. (fst v, replicate 1024 False)) (cmap c k))"
    "distinct (map ckey bs)" "\<forall>b\<in>set bs. cmap c (ckey b) = Some (data b, dirty b) \<and> wf_block b \<and> \<not> clean b"
    "\<forall>k d m. cmap c k = Some (d, m) \<and> True \<in> set m \<longrightarrow> k \<in> ckey ` set bs"
    "freeBlockSemaphore c' = freeBlockSemaphore c" "freeBlockCount c' = freeBlockCount c"
proof -
  from assms obtain R D F B where r: "cache_rel c R D F B" by (auto simp: cache_inv_def)
  note d = cache_relD [OF r]
  note len = dirty_blocks(4) [OF r]
  obtain c' R' where f: "\<And>flush (w::'a). flushLoop flush (blockCount + 1) (c, w) =
      bindR (runAll flush (map (block c) (rev D)) w) (\<lambda>w'. Inr (c', w'))"
    "cache_rel c' R' [] F B" "set R' = set R \<union> set D"
    "\<forall>y. block c' y = (if y \<in> set D then resetDirty (block c y) else block c y)"
    "freeBlockSemaphore c' = freeBlockSemaphore c" "freeBlockCount c' = freeBlockCount c"
    by (rule flushLoop_spec [OF r len]) blast
  have dr: "(data (block c' y), dirty (block c' y)) = (data (block c y), replicate 1024 False) \<and> ckey (block c' y) = ckey (block c y)"
    if "y \<in> set R \<union> set D" for y
    using that d(5,7) [of y] f(4) by (auto simp: wf_block_def)
  have cm: "cmap c' k = map_option (\<lambda>v. (fst v, replicate 1024 False)) (cmap c k)" for k
  proof -
    have "cmap c' k = Some v \<longleftrightarrow> (\<exists>u. cmap c k = Some u \<and> v = (fst u, replicate 1024 False))" for v
      unfolding cmap_Some [OF r] cmap_Some [OF f(2)] f(3) using dr by (auto intro!: bexI)
    then show ?thesis by (cases "cmap c k"; cases "cmap c' k") auto
  qed
  show thesis
  proof (rule that)
    show "cacheFlusher flush (c, w) = bindR (runAll flush (map (block c) (rev D)) w) (\<lambda>w'. Inr (c', w'))"
      for flush and w :: 'a using f(1) by (simp add: cacheFlusher_def)
    show "cache_inv c'" using f(2) cache_inv_def by blast
    show "cmap c' = (\<lambda>k. map_option (\<lambda>v. (fst v, replicate 1024 False)) (cmap c k))" using cm by blast
  qed (use f dirty_blocks [OF r] in auto)
qed

section \<open>The destructor\<close>

lemma destroyLoop_spec:
  assumes "dirty_list c D" "\<forall>x\<in>set D. \<not> clean (block c x)" "length D < n"
  shows "destroyLoop flush n (c, w) = runAll flush (map (block c) (rev D)) w"
  using assms
proof (induction D arbitrary: c w n rule: rev_induct)
  case Nil
  then show ?case by (cases n) (simp_all add: removeDirtyListLRU_empty)
next
  case (snoc x D)
  then obtain m where m: "n = Suc m" by (cases n) auto
  obtain l where l: "removeDirtyListLRU c = Inr (Some x, with_dirties l c)" "dirty_list (with_dirties l c) D"
    using removeDirtyListLRU_rel [OF snoc.prems(1)] by metis
  have "destroyLoop flush m (with_dirties l c, w') = runAll flush (map (block c) (rev D)) w'" for w'
    using snoc.IH [OF l(2), of m w'] snoc.prems m by simp
  then have "destroyLoop flush m (with_dirties l c, w') = runAll flush (rev (map (block c) D)) w'" for w'
    by (simp add: rev_map)
  then show ?case using l(1) m snoc.prems(2) by (simp add: rev_map bindR_def split: sum.split)
qed

lemma delete_Cache_spec:
  assumes "cache_inv c"
  obtains bs where "\<And>flush w. delete_Cache flush (c, w) = runAll flush bs w"
    "\<forall>b\<in>set bs. cmap c (ckey b) = Some (data b, dirty b) \<and> wf_block b \<and> \<not> clean b"
    "\<forall>k d m. cmap c k = Some (d, m) \<and> True \<in> set m \<longrightarrow> k \<in> ckey ` set bs"
proof -
  from assms obtain R D F B where r: "cache_rel c R D F B" by (auto simp: cache_inv_def)
  have "delete_Cache flush (c, w) = runAll flush (map (block c) (rev D)) w" for flush and w :: 'a
    using destroyLoop_spec [OF cache_relD(2) [OF r] _ dirty_blocks(4) [OF r]] cache_relD(6) [OF r]
    by (simp add: delete_Cache_def)
  then show thesis using that dirty_blocks(2,3) [OF r] by blast
qed

section \<open>The harvester\<close>

lemma live_card:
  assumes r: "cache_rel c R D F B" and "freeBlockCount c < 2020"
  shows "R \<noteq> [] \<or> D \<noteq> []"
proof (rule ccontr)
  assume "\<not> ?thesis"
  then have "length F = 2048"
    using cache_relD(3,13) [OF r] distinct_card [of F] by auto
  then show False using assms(2) cache_relD(12) [OF r] by (simp add: word_less_nat_alt)
qed

lemma release_last:
  assumes r: "cache_rel c R D F B" and x: "x \<in> set R \<union> set D"
    and l: "rec_list c1 R'" "dirty_list c1 D'" "set R' = set R - {x}" "set D' = set D - {x}"
    and same: "block c1 = block c" "bucketId c1 = bucketId c" "freeNode c1 = freeNode c" "bucketNode c1 = bucketNode c"
      "freeListHead c1 = freeListHead c" "hashTable c1 = hashTable c" "freeBlockCount c1 = freeBlockCount c"
      "freeBlockSemaphore c1 = freeBlockSemaphore c"
  obtains c3 c5 B' where "removeFromHashmap x c1 = Inr c3" "block c3 = block c"
    "c5 = snd (addToFreeList x (if \<not> clean (block c x) then c3\<lparr>block := (block c3)(x := resetDirty (block c3 x))\<rparr> else c3))"
    "fst (addToFreeList x (if \<not> clean (block c x) then c3\<lparr>block := (block c3)(x := resetDirty (block c3 x))\<rparr> else c3))
       \<longleftrightarrow> freeBlockCount c + 1 < 2020"
    "cache_rel c5 R' D' (x # F) B'" "\<forall>y. y \<noteq> x \<longrightarrow> block c5 y = block c y"
    "freeBlockCount c5 = freeBlockCount c + 1" "freeBlockSemaphore c5 = freeBlockSemaphore c"
proof -
  note d = cache_relD [OF r]
  have "hash_rel c1 = hash_rel c" by (rule hash_rel_cong) (simp_all add: same)
  then have "hash_rel c1 (set R \<union> set D) B" using d(4) by simp
  moreover have "unat (bucketId c1 x) < HASH_BUCKETS" using d(8) [OF x] same by simp
  ultimately obtain t lk B' where h: "removeFromHashmap x c1 = Inr (c1\<lparr>hashTable := t, bucketNode := lk\<rparr>)"
    "hash_rel (c1\<lparr>hashTable := t, bucketNode := lk\<rparr>) (set R \<union> set D - {x}) B'"
    by (rule removeFromHashmap_rel [OF _ x])
  define c3 where "c3 = c1\<lparr>hashTable := t, bucketNode := lk\<rparr>"
  define c4 where "c4 = (if \<not> clean (block c x) then c3\<lparr>block := (block c3)(x := resetDirty (block c3 x))\<rparr> else c3)"
  have s: "recencyNode c4 = recencyNode c1" "MRUNode c4 = MRUNode c1" "LRUNode c4 = LRUNode c1"
    "dirtyNode c4 = dirtyNode c1" "dirtyListMRU c4 = dirtyListMRU c1" "dirtyListLRU c4 = dirtyListLRU c1"
    "bucketId c4 = bucketId c" "freeNode c4 = freeNode c" "freeListHead c4 = freeListHead c"
    "freeBlockCount c4 = freeBlockCount c" "freeBlockSemaphore c4 = freeBlockSemaphore c"
    "hashTable c4 = hashTable c3" "bucketNode c4 = bucketNode c3" "bucketId c3 = bucketId c"
    "\<And>y. y \<noteq> x \<Longrightarrow> block c4 y = block c y"
    by (simp_all add: c4_def c3_def same)
  have "hash_rel c4 = hash_rel c3" by (rule hash_rel_cong) (simp_all add: s)
  then have "hash_rel c4 (set R \<union> set D - {x}) B'" using h(2) by (simp add: c3_def)
  then have "cache_rel (snd (addToFreeList x c4)) R' D' (x # F) B'"
    by (intro addToFreeList_rel [OF r x l(3,4)]) (use l d(9) s in auto)
  then have r5: "cache_rel (snd (addToFreeList x c4)) R' D' (x # F) B'" .
  have h3: "removeFromHashmap x c1 = Inr c3" "block c3 = block c" using h(1) by (simp_all add: c3_def same)
  have cont: "fst (addToFreeList x c4) \<longleftrightarrow> freeBlockCount c + 1 < 2020"
    using s(10) by (simp add: addToFreeList_def Let_def)
  show thesis
    by (rule that [OF h3 refl cont [unfolded c4_def] r5 [unfolded c4_def]])
       (use s in \<open>simp_all add: release_frame flip: c4_def\<close>)
qed

text \<open>
  One round takes the least recently used clean block, or, when there is none, the least
  recently used dirty one, which it flushes.
\<close>

lemma harvestOne_spec:
  assumes "cache_inv c" "freeBlockCount c < 2020"
  obtains b c' where "cmap c (ckey b) = Some (data b, dirty b)" "wf_block b"
    "\<And>flush w. harvestOne flush (c, w) =
       bindR (if clean b then Inr w else flush b w) (\<lambda>w'. Inr (freeBlockCount c + 1 < 2020, c', w'))"
    "\<not> clean b \<longrightarrow> LRUNode c = None" "cache_inv c'" "cmap c' = (cmap c)(ckey b := None)"
    "freeBlockCount c' = freeBlockCount c + 1" "freeBlockSemaphore c' = freeBlockSemaphore c"
proof -
  from assms(1) obtain R D F B where r: "cache_rel c R D F B" by (auto simp: cache_inv_def)
  note d = cache_relD [OF r]
  obtain x c1 R' D' where x: "x \<in> set R \<union> set D"
    and c1: "rec_list c1 R'" "dirty_list c1 D'" "set R' = set R - {x}" "set D' = set D - {x}"
    and same: "block c1 = block c" "bucketId c1 = bucketId c" "freeNode c1 = freeNode c" "bucketNode c1 = bucketNode c"
      "freeListHead c1 = freeListHead c" "hashTable c1 = hashTable c" "freeBlockCount c1 = freeBlockCount c"
      "freeBlockSemaphore c1 = freeBlockSemaphore c"
    and pick: "(removeRecencyListLRU c = Inr (Some x, c1) \<and> clean (block c x)) \<or>
      (removeRecencyListLRU c = Inr (None, c) \<and> removeDirtyListLRU c = Inr (Some x, c1) \<and>
       \<not> clean (block c x) \<and> LRUNode c = None)"
  proof (cases R rule: rev_cases)
    case (snoc R' x)
    obtain l where l: "removeRecencyListLRU c = Inr (Some x, with_recency l c)" "rec_list (with_recency l c) R'"
      by (rule removeRecencyListLRU_rel [OF d(1) [unfolded snoc]])
    show thesis
      by (rule that [of x "with_recency l c" R' D]) (use l d(2,3) d(5) [of x] snoc in auto)
  next
    case Nil
    then have "D \<noteq> []" using live_card [OF r assms(2)] by simp
    then obtain D' x where D: "D = D' @ [x]" by (metis rev_exhaust)
    obtain l where l: "removeDirtyListLRU c = Inr (Some x, with_dirties l c)" "dirty_list (with_dirties l c) D'"
      by (rule removeDirtyListLRU_rel [OF d(2) [unfolded D]])
    have e: "removeRecencyListLRU c = Inr (None, c)" "LRUNode c = None"
      using removeRecencyListLRU_empty d(1) Nil by (auto simp: dlist_def)
    show thesis
      by (rule that [of x "with_dirties l c" "[]" D']) (use l e d(1,3) d(6) [of x] Nil D in auto)
  qed
  obtain c3 c5 B' where q: "removeFromHashmap x c1 = Inr c3" "block c3 = block c"
    and c5: "c5 = snd (addToFreeList x (if \<not> clean (block c x) then c3\<lparr>block := (block c3)(x := resetDirty (block c3 x))\<rparr> else c3))"
    and cont: "fst (addToFreeList x (if \<not> clean (block c x) then c3\<lparr>block := (block c3)(x := resetDirty (block c3 x))\<rparr> else c3))
       \<longleftrightarrow> freeBlockCount c + 1 < 2020"
    and r5: "cache_rel c5 R' D' (x # F) B'" "\<forall>y. y \<noteq> x \<longrightarrow> block c5 y = block c y"
    and s: "freeBlockCount c5 = freeBlockCount c + 1" "freeBlockSemaphore c5 = freeBlockSemaphore c"
    by (rule release_last [OF r x c1 same])
  have wf: "wf_block (block c x)" using d(7) [OF x] .
  have h: "harvestOne flush (c, w) = bindR (if clean (block c x) then Inr w else flush (block c x) w)
      (\<lambda>w'. Inr (freeBlockCount c + 1 < 2020, c5, w'))" for flush :: "CacheBlock \<Rightarrow> 'a \<Rightarrow> 'a result" and w
    using pick
  proof
    assume p: "removeRecencyListLRU c = Inr (Some x, c1) \<and> clean (block c x)"
    then show ?thesis using q cont by (simp add: harvestOne_def c5 case_prod_unfold)
  next
    assume p: "removeRecencyListLRU c = Inr (None, c) \<and> removeDirtyListLRU c = Inr (Some x, c1) \<and>
       \<not> clean (block c x) \<and> LRUNode c = None"
    then show ?thesis
      using q cont wf same(1) by (simp add: harvestOne_def c5 wf_block_def bindR_assoc case_prod_unfold)
  qed
  have "cmap c5 = (if x \<in> set R' \<union> set D' then (cmap c)(ckey (block c x) \<mapsto> (data (block c5 x), dirty (block c5 x)))
                    else (cmap c)(ckey (block c x) := None))"
    by (rule cmap_update [OF r r5(1)]) (use c1(3,4) r5(2) x in auto)
  then have cm: "cmap c5 = (cmap c)(ckey (block c x) := None)" using c1(3,4) by auto
  show thesis
  proof (rule that [OF _ wf h])
    show "cmap c (ckey (block c x)) = Some (data (block c x), dirty (block c x))"
      using cmap_Some [OF r] x by blast
  qed (use pick cm r5(1) s in \<open>auto simp: cache_inv_def\<close>)
qed

lemma harvestLoop_spec:
  assumes "cache_inv c" "freeBlockCount c < 2020" "2020 \<le> n + unat (freeBlockCount c)"
  obtains bs c' where
    "\<And>flush w. harvestLoop flush n True (c, w) = bindR (runAll flush bs w) (\<lambda>w'. Inr (c', w'))"
    "cache_inv c'" "cmap c' \<subseteq>\<^sub>m cmap c" "freeBlockCount c' = 2020"
    "distinct (map ckey bs)"
    "\<forall>b\<in>set bs. cmap c (ckey b) = Some (data b, dirty b) \<and> wf_block b \<and> \<not> clean b"
    "\<forall>k d m. cmap c k = Some (d, m) \<and> True \<in> set m \<longrightarrow> cmap c' k = Some (d, m) \<or> k \<in> ckey ` set bs"
    "freeBlockSemaphore c' = freeBlockSemaphore c"
  using assms
proof (induction n arbitrary: c thesis)
  case 0
  then show ?case by (simp add: word_less_nat_alt)
next
  case (Suc n)
  obtain b c1 where b: "cmap c (ckey b) = Some (data b, dirty b)" "wf_block b"
    and h: "\<And>flush (w::'a). harvestOne flush (c, w) =
       bindR (if clean b then Inr w else flush b w) (\<lambda>w'. Inr (freeBlockCount c + 1 < 2020, c1, w'))"
    and c1: "cache_inv c1" "cmap c1 = (cmap c)(ckey b := None)"
    and fc: "freeBlockCount c1 = freeBlockCount c + 1" "freeBlockSemaphore c1 = freeBlockSemaphore c"
    by (rule harvestOne_spec [OF Suc.prems(2,3)]) blast
  define bs0 where "bs0 = (if clean b then [] else [b])"
  have run0: "(if clean b then Inr w else flush b w) = runAll flush bs0 w" for flush and w :: 'a
    by (simp add: bs0_def bindR_def split: sum.splits)
  have sub: "cmap c1 \<subseteq>\<^sub>m cmap c" by (simp add: c1(2) map_le_def)
  have lost: "cmap c1 k = Some (d, m) \<or> k \<in> ckey ` set bs0" if "cmap c k = Some (d, m)" "True \<in> set m" for k d m
  proof (cases "k = ckey b")
    case True
    have "clean b \<Longrightarrow> True \<notin> set (dirty b)" using b(2) by (simp add: wf_block_def)
    then show ?thesis using True that b(1) by (auto simp: bs0_def)
  qed (use that c1(2) in simp)
  have u: "unat (freeBlockCount c + 1) = unat (freeBlockCount c) + 1"
    using Suc.prems(3) by (simp add: word_less_nat_alt unat_word_ariths)
  show ?case
  proof (cases "freeBlockCount c + 1 < 2020")
    case False
    then have "unat (freeBlockCount c + 1) = 2020"
      using Suc.prems(3) u by (simp add: word_less_nat_alt)
    then have "freeBlockCount c1 = 2020" unfolding fc(1) by (simp add: word_unat_eq_iff)
    moreover have "harvestLoop flush (Suc n) True (c, w) = bindR (runAll flush bs0 w) (\<lambda>w'. Inr (c1, w'))" for flush and w :: 'a
      using False by (simp add: h run0 bindR_assoc)
    moreover have "distinct (map ckey bs0)"
      "\<forall>b\<in>set bs0. cmap c (ckey b) = Some (data b, dirty b) \<and> wf_block b \<and> \<not> clean b"
      using b by (simp_all add: bs0_def)
    ultimately show ?thesis
      using c1(1) sub lost fc(2) by (intro Suc.prems(1) [of bs0 c1]) blast+
  next
    case True
    then have n: "freeBlockCount c1 < 2020" "2020 \<le> n + unat (freeBlockCount c1)" using fc u Suc.prems(4) by simp_all
    obtain bs c' where IH: "\<And>flush (w::'a). harvestLoop flush n True (c1, w) = bindR (runAll flush bs w) (\<lambda>w'. Inr (c', w'))"
      "cache_inv c'" "cmap c' \<subseteq>\<^sub>m cmap c1" "freeBlockCount c' = 2020"
      "distinct (map ckey bs)"
      "\<forall>b\<in>set bs. cmap c1 (ckey b) = Some (data b, dirty b) \<and> wf_block b \<and> \<not> clean b"
      "\<forall>k d m. cmap c1 k = Some (d, m) \<and> True \<in> set m \<longrightarrow> cmap c' k = Some (d, m) \<or> k \<in> ckey ` set bs"
      "freeBlockSemaphore c' = freeBlockSemaphore c1"
      by (rule Suc.IH [OF _ c1(1) n]) blast
    have run: "runAll flush (bs0 @ bs) w = bindR (runAll flush bs0 w) (runAll flush bs)" for flush and w :: 'a
      by (simp add: bs0_def bindR_assoc)
    have lp: "harvestLoop flush (Suc n) True (c, w) = bindR (runAll flush (bs0 @ bs) w) (\<lambda>w'. Inr (c', w'))" for flush and w :: 'a
      using True by (simp add: h run0 bindR_assoc run IH(1))
    have sub': "cmap c' \<subseteq>\<^sub>m cmap c" using IH(3) sub map_le_trans by blast
    have fl: "\<forall>b\<in>set (bs0 @ bs). cmap c (ckey b) = Some (data b, dirty b) \<and> wf_block b \<and> \<not> clean b"
      using IH(6) b c1(2) by (auto simp: bs0_def split: if_splits)
    have dk: "distinct (map ckey (bs0 @ bs))"
      using IH(5,6) c1(2) by (auto simp: bs0_def)
    have ls: "\<forall>k d m. cmap c k = Some (d, m) \<and> True \<in> set m \<longrightarrow> cmap c' k = Some (d, m) \<or> k \<in> ckey ` set (bs0 @ bs)"
      using lost IH(7) by (metis Un_iff image_Un set_append)
    show ?thesis
      by (rule Suc.prems(1) [OF lp IH(2) sub' IH(4) dk fl ls]) (use IH(8) fc in simp)
  qed
qed

end
