(* ===== verification/Cache_Runs.thy ===== *)
theory Cache_Runs
  imports Cache_Threads
begin

text \<open>
  The states a cache reaches from its construction by any sequence of operations, and what the
  semaphore and the counter of free blocks hold in them.
\<close>

section \<open>Runs of the cache\<close>

text \<open>
  \<open>cache_run n c\<close>: state \<open>c\<close> is reached from a new cache by operations that return, \<open>n\<close> of them
  calls of \<^verbatim>\<open>addBlock\<close>. The client calls it for a block that a lookup just missed.
\<close>

inductive cache_run :: "nat \<Rightarrow> Cache \<Rightarrow> bool" where
  init: "cache_run 0 (new_Cache mem)"
| read: "cache_run n c \<Longrightarrow> readBlock f a c = Inr (r, c') \<Longrightarrow> cache_run n c'"
| writing: "cache_run n c \<Longrightarrow> cache_write f off sz src c = Inr (h, c') \<Longrightarrow> cache_run n c'"
| add: "cache_run n c \<Longrightarrow> lookup f a c = Inr None \<Longrightarrow> addBlock f a src c = Inr c' \<Longrightarrow>
    cache_run (Suc n) c'"
| evict: "cache_run n c \<Longrightarrow> evictBlock flush f a (c, ()) = Inr (c', ()) \<Longrightarrow> cache_run n c'"
| flush: "cache_run n c \<Longrightarrow> cacheFlusher flush (c, ()) = Inr (c', ()) \<Longrightarrow> cache_run n c'"
| harvest: "cache_run n c \<Longrightarrow> cacheHarvester flush (c, ()) = Inr (c', ()) \<Longrightarrow> cache_run n c'"

text \<open>The invariant with the books of the semaphore and of the free list.\<close>

definition cache_books :: "nat \<Rightarrow> Cache \<Rightarrow> bool" where
  "cache_books n c \<longleftrightarrow> cache_inv c \<and> freeBlockSemaphore c + 2 * n = 2048 \<and>
     2048 \<le> unat (freeBlockCount c) + n"

lemma aligned_block: "word_of_nat (k * 1024) AND (1023 :: uint32) = 0"
proof -
  have "(1023 :: uint32) = mask 10" by (simp add: mask_eq_exp_minus_1)
  moreover have "word_of_nat (k * 1024) = push_bit 10 (word_of_nat k :: uint32)" by (simp add: push_bit_eq_mult)
  ultimately show ?thesis by (simp only: take_bit_eq_mask [symmetric] take_bit_push_bit) simp
qed

lemma lookup_miss: "lookup f a c = Inr None \<Longrightarrow> cmap c (f, a) = None"
  by (simp add: cmap_def)

lemma addBlock_needs:
  assumes "cache_rel c R D F B" "addBlock f a src c = Inr c'"
  shows "a AND 1023 = 0" "1024 \<le> length src" "2 \<le> freeBlockSemaphore c" "2 \<le> length F"
proof -
  have ch: "chain (freeNode c) (freeListHead c) F" using cache_relD(9) [OF assms(1)] .
  show "a AND 1023 = 0" "1024 \<le> length src" "2 \<le> freeBlockSemaphore c"
    using assms(2) by (auto simp: addBlock_def waitFreeBlock_def getFreeListEntry_def split: if_splits)
  show "2 \<le> length F"
  proof (rule ccontr)
    assume "\<not> 2 \<le> length F"
    then have "F = [] \<or> (\<exists>x. F = [x])" by (cases F; cases "tl F") auto
    then show False
      using assms(2) ch by (auto simp: addBlock_def waitFreeBlock_def getFreeListEntry_def split: if_splits)
  qed
qed

lemma free_count:
  assumes "cache_rel c R D F B"
  shows "unat (freeBlockCount c) = length F" "length F \<le> 2048"
proof -
  have "distinct F" "set F \<subseteq> {..<blockCount}" using cache_relD(3,13) [OF assms] by auto
  then show "length F \<le> 2048" using card_mono [of "{..<blockCount}" "set F"] distinct_card [of F] by simp
  then show "unat (freeBlockCount c) = length F"
    using cache_relD(12) [OF assms] by (simp add: unat_of_nat)
qed

lemma add_books:
  assumes b: "cache_books n c" and "lookup f a c = Inr None" and add: "addBlock f a src c = Inr c'"
  shows "cache_books (Suc n) c'"
proof -
  from b obtain R D F B where r: "cache_rel c R D F B" by (auto simp: cache_books_def cache_inv_def)
  note nd = addBlock_needs [OF r add]
  have fc: "2 \<le> freeBlockCount c" using nd(4) free_count(1) [OF r] by (simp add: word_le_nat_alt)
  have inv: "cache_inv c" using b by (simp add: cache_books_def)
  obtain c1 where c1: "addBlock f a src c = Inr c1" "cache_inv c1"
    "freeBlockSemaphore c1 = freeBlockSemaphore c - 2" "freeBlockCount c1 = freeBlockCount c - 1"
    using addBlock_spec [OF inv nd(1,2) lookup_miss [OF assms(2)] nd(3) fc] by metis
  have "unat (freeBlockCount c - 1) = unat (freeBlockCount c) - 1"
    using fc unat_sub [of 1 "freeBlockCount c"] by (simp add: word_le_nat_alt)
  then show ?thesis using b nd(3) c1 add by (auto simp: cache_books_def)
qed

lemma freed_count:
  assumes "cache_inv c'" "freeBlockCount c' = freeBlockCount c + 1" "2048 \<le> unat (freeBlockCount c) + n" "cache_inv c"
  shows "2048 \<le> unat (freeBlockCount c') + n"
proof -
  obtain R D F B where r: "cache_rel c R D F B" using assms(4) by (auto simp: cache_inv_def)
  have "unat (freeBlockCount c + 1) = unat (freeBlockCount c) + 1"
    using free_count [OF r] by (simp add: unat_word_ariths)
  then show ?thesis using assms(2,3) by simp
qed

lemma write_keeps_books:
  assumes b: "cache_books n c" and w: "cache_write f off sz src c = Inr (h, c')"
  shows "cache_books n c'"
proof (cases "unat (off mod 1024) + unat sz \<le> 1024 \<and> unat sz \<le> length src")
  case True
  have inv: "cache_inv c" using b by (simp add: cache_books_def)
  obtain c1 where "cache_write f off sz src c = Inr (cmap c (f, off div 1024 * 1024) \<noteq> None, c1)" "cache_inv c1"
    "freeBlockSemaphore c1 = freeBlockSemaphore c" "freeBlockCount c1 = freeBlockCount c"
    by (rule cache_write_spec [OF inv]) (use True in auto)
  then show ?thesis using b w by (auto simp: cache_books_def)
next
  case False
  then have "c' = c"
    using w by (auto simp: cache_write_def Let_def split: option.splits if_splits)
  then show ?thesis using b by simp
qed

lemma harvest_keeps_books:
  assumes b: "cache_books n c" and h: "cacheHarvester flush (c, ()) = Inr (c', ())"
  shows "cache_books n c'"
proof (cases "freeBlockCount c < 2020")
  case False
  then have "c' = c\<lparr>harvesterSemaphore := harvesterSemaphore c - 1\<rparr>"
    using h by (auto simp: cacheHarvester_def split: if_splits)
  moreover have "cache_rel (c\<lparr>harvesterSemaphore := k\<rparr>) R D F B = cache_rel c R D F B" for k R D F B
    by (simp add: rel_defs hash_rel_def)
  ultimately show ?thesis using b by (simp add: cache_books_def cache_inv_def)
next
  case True
  let ?c = "c\<lparr>harvesterSemaphore := harvesterSemaphore c - 1\<rparr>"
  have "cache_rel ?c R D F B = cache_rel c R D F B" for R D F B
    by (simp add: rel_defs hash_rel_def)
  then have inv: "cache_inv ?c" using b by (simp add: cache_books_def cache_inv_def)
  obtain bs c1 where c1: "\<And>flush w. harvestLoop flush 2020 True (?c, w::unit) = bindR (runAll flush bs w) (\<lambda>w'. Inr (c1, w'))"
    "cache_inv c1" "freeBlockCount c1 = 2020" "freeBlockSemaphore c1 = freeBlockSemaphore ?c"
    by (rule harvestLoop_spec [OF inv, of 2020, where 'a = unit]) (use True in simp_all)
  have "c' = c1" using h c1(1) True by (auto simp: cacheHarvester_def Let_def split: if_splits)
  moreover have "unat (freeBlockCount c) < 2020" using True by (simp add: word_less_nat_alt)
  ultimately show ?thesis using b c1 by (simp add: cache_books_def)
qed

lemma cache_run_books: "cache_run n c \<Longrightarrow> cache_books n c"
proof (induction rule: cache_run.induct)
  case (init mem)
  then show ?case using new_Cache_spec [of mem] by (simp add: cache_books_def)
next
  case (read n c f a r c')
  have inv: "cache_inv c" using read.IH by (simp add: cache_books_def)
  show ?case by (rule readBlock_spec [OF inv, of f a]) (use read in \<open>auto simp: cache_books_def\<close>)
next
  case (evict n c flush f a c')
  have inv: "cache_inv c" using evict.IH by (simp add: cache_books_def)
  show ?case
  proof (cases rule: evictBlock_spec [OF inv, of f a, where 'a = unit and 'b = unit])
    case 1
    then show ?thesis using evict by auto
  next
    case (2 b c1)
    have "c' = c1" using evict(2) 2(4) [of flush "()"] by (auto split: if_splits)
    then show ?thesis using evict.IH 2(5,7) freed_count [OF 2(5,8) _ inv] by (simp add: cache_books_def)
  qed
next
  case (flush n c flush c')
  have inv: "cache_inv c" using flush.IH by (simp add: cache_books_def)
  obtain bs c1 where "\<And>flush w. cacheFlusher flush (c, w::unit) = bindR (runAll flush bs w) (\<lambda>w'. Inr (c1, w'))"
    "cache_inv c1" "freeBlockSemaphore c1 = freeBlockSemaphore c" "freeBlockCount c1 = freeBlockCount c"
    by (rule cacheFlusher_spec [OF inv, where 'a = unit]) simp_all
  then show ?case using flush by (auto simp: cache_books_def)
qed (auto dest: write_keeps_books add_books harvest_keeps_books)

end
