(* ===== verification/Cache_Properties.thy ===== *)
theory Cache_Properties
  imports Cache_Runs
begin

text \<open>
  The properties of the client cache: its pointer structures implement a map from descriptor and
  block address to data and dirty flags, the background threads lose no dirty byte, and the
  semaphore of free blocks limits what a client can ever load.
\<close>

section \<open>A cache with one block\<close>

definition demo_mem :: "nat \<Rightarrow> CacheBlock" where
  "demo_mem i = \<lparr>fdes = 0, addr = 0, dirty = [], clean = True, valid = False, data = []\<rparr>"

lemma demo_add:
  obtains c where "addBlock 3 1024 (replicate 1024 7) (new_Cache demo_mem) = Inr c" "cache_inv c"
    "cmap c = [(3, 1024) \<mapsto> (replicate 1024 7, replicate 1024 False)]" "cache_run 1 c"
proof -
  have a: "(1024::uint32) AND 1023 = 0" "(1024::nat) \<le> length (replicate 1024 (7::uint8))" by simp_all
  obtain c where c: "addBlock 3 1024 (replicate 1024 7) (new_Cache demo_mem) = Inr c" "cache_inv c"
    "cmap c = (cmap (new_Cache demo_mem))((3, 1024) \<mapsto> (take 1024 (replicate 1024 7), replicate 1024 False))"
    by (rule addBlock_spec [OF new_Cache_spec(1) a, of demo_mem 3])
       (simp_all add: new_Cache_spec)
  have "lookup 3 1024 (new_Cache demo_mem) = Inr None"
    using lookup_rel(2) [OF new_Cache_rel] by simp
  then have "cache_run 1 c" using cache_run.add [OF cache_run.init _ c(1)] by simp
  then show thesis using that c by (simp add: new_Cache_spec(2))
qed

text \<open>A client that loaded the first \<open>n\<close> blocks of a file.\<close>

lemma filled_run:
  assumes "n \<le> 1024"
  shows "\<exists>c. cache_run n c \<and> cache_inv c \<and> freeBlockCount c = 2048 - word_of_nat n \<and>
    (\<forall>k. n \<le> k \<and> k < 1024 \<longrightarrow> cmap c (3, word_of_nat (k * 1024)) = None)"
  using assms
proof (induction n)
  case 0
  then show ?case using cache_run.init [of demo_mem] new_Cache_spec [of demo_mem] by auto
next
  case (Suc n)
  then obtain c where c: "cache_run n c" "cache_inv c" "freeBlockCount c = 2048 - word_of_nat n"
    "\<forall>k. n \<le> k \<and> k < 1024 \<longrightarrow> cmap c (3, word_of_nat (k * 1024)) = None" by auto
  have b: "freeBlockSemaphore c + 2 * n = 2048" "2048 \<le> unat (freeBlockCount c) + n"
    using cache_run_books [OF c(1)] by (simp_all add: cache_books_def)
  have sem: "2 \<le> freeBlockSemaphore c" "2 \<le> freeBlockCount c"
    using b Suc.prems by (simp_all add: word_le_nat_alt)
  let ?a = "word_of_nat (n * 1024) :: uint32" and ?src = "replicate 1024 (7::uint8)"
  have new: "cmap c (3, ?a) = None" using c(4) Suc.prems by simp
  obtain c' where c': "addBlock 3 ?a ?src c = Inr c'" "cache_inv c'"
    "cmap c' = (cmap c)((3, ?a) \<mapsto> (take 1024 ?src, replicate 1024 False))"
    "freeBlockCount c' = freeBlockCount c - 1"
    by (rule addBlock_spec [OF c(2) aligned_block _ new sem, of ?src]) simp_all
  obtain R D F B where r: "cache_rel c R D F B" using c(2) by (auto simp: cache_inv_def)
  have "lookup 3 ?a c = Inr None"
    using new lookup_rel(3) [OF r, of 3 ?a] by (auto simp: cmap_def split: option.splits)
  then have run: "cache_run (Suc n) c'" using cache_run.add [OF c(1) _ c'(1)] by blast
  have "word_of_nat (k * 1024) \<noteq> ?a" if "Suc n \<le> k" "k < 1024" for k
  proof
    assume "word_of_nat (k * 1024) = ?a"
    then have "unat (word_of_nat (k * 1024) :: uint32) = unat ?a" by simp
    then show False using that unfolding unat_of_nat by simp
  qed
  then have "cmap c' (3, word_of_nat (k * 1024)) = None" if "Suc n \<le> k" "k < 1024" for k
    using that c(4) by (simp add: c'(3))
  then show ?case using run c'(2,4) c(3) by (intro exI [of _ c']) (auto simp: algebra_simps)
qed

section \<open>The map the cache implements\<close>

text \<open>
  C18. In every state the client can reach, the hash chains, the two linked lists, the free list
  and the flags of the blocks fit together, and \<^verbatim>\<open>lookup\<close> returns: the chain it follows ends.
\<close>

theorem cache_structure:
  assumes "cache_run n c"
  shows "cache_inv c \<and> (\<exists>r. lookup f a c = Inr r)"
proof -
  have inv: "cache_inv c" using cache_run_books [OF assms] by (simp add: cache_books_def)
  then obtain R D F B where "cache_rel c R D F B" by (auto simp: cache_inv_def)
  then show ?thesis using inv lookup_rel(3) by blast
qed

theorem cache_structure_witness: "\<exists>r. lookup 3 1024 (new_Cache demo_mem) = Inr r"
  using cache_structure [OF cache_run.init] by blast

text \<open>
  C19. \<^verbatim>\<open>readBlock\<close> returns the data the abstract map has for the block, reports a miss exactly when
  it has none, and its reordering of the lists does not change the map.
\<close>

theorem readBlock_refines:
  assumes "cache_inv c"
  shows "\<exists>c'. readBlock f a c = Inr (map_option fst (cmap c (f, a)), c') \<and> cache_inv c' \<and> cmap c' = cmap c"
  by (rule readBlock_spec [OF assms, of f a]) blast

theorem readBlock_refines_witness:
  "\<exists>c c'. addBlock 3 1024 (replicate 1024 7) (new_Cache demo_mem) = Inr c \<and>
     readBlock 3 1024 c = Inr (Some (replicate 1024 7), c')"
proof -
  obtain c where c: "addBlock 3 1024 (replicate 1024 7) (new_Cache demo_mem) = Inr c" "cache_inv c"
    "cmap c = [(3, 1024) \<mapsto> (replicate 1024 7, replicate 1024 False)]" by (rule demo_add)
  then show ?thesis using readBlock_refines [OF c(2), of 3 1024] by auto
qed

text \<open>
  C20. A \<^verbatim>\<open>write\<close> inside a block reports a hit exactly when the block is cached, and then replaces
  the bytes of the range by the new ones and sets exactly their dirty flags; other blocks and the
  rest of this one stay as they are.
\<close>

theorem write_refines:
  fixes offset sz :: uint32
  assumes "cache_inv c" "unat (offset mod 1024) + unat sz \<le> 1024" "unat sz \<le> length src"
  shows "\<exists>c'. cache_write f offset sz src c = Inr (cmap c (f, offset div 1024 * 1024) \<noteq> None, c') \<and>
    cache_inv c' \<and>
    cmap c' = (case cmap c (f, offset div 1024 * 1024) of None \<Rightarrow> cmap c
       | Some (d, m) \<Rightarrow> (cmap c)((f, offset div 1024 * 1024) \<mapsto>
           (take (unat (offset mod 1024)) d @ take (unat sz) src @ drop (unat (offset mod 1024) + unat sz) d,
            take (unat (offset mod 1024)) m @ replicate (unat sz) True @
              drop (unat (offset mod 1024) + unat sz) m)))"
  by (rule cache_write_spec [OF assms, of f]) blast

theorem write_refines_witness:
  "\<exists>c c'. addBlock 3 1024 (replicate 1024 7) (new_Cache demo_mem) = Inr c \<and>
     cache_write 3 1030 2 [8, 9] c = Inr (True, c')"
proof -
  obtain c where c: "addBlock 3 1024 (replicate 1024 7) (new_Cache demo_mem) = Inr c" "cache_inv c"
    "cmap c = [(3, 1024) \<mapsto> (replicate 1024 7, replicate 1024 False)]" by (rule demo_add)
  then show ?thesis using write_refines [OF c(2), of 1030 2 "[8, 9]" 3] by auto
qed

text \<open>
  C21. As long as a client has loaded fewer than 1024 blocks, \<^verbatim>\<open>addBlock\<close> of a block that is not
  cached succeeds, whatever was read, written, evicted, flushed or harvested in between, and adds
  the block to the map as clean data.
\<close>

theorem addBlock_succeeds:
  fixes a :: uint32
  assumes run: "cache_run n c" and n: "n < 1024" and a: "a AND 1023 = 0" and src: "1024 \<le> length src"
    and new: "cmap c (f, a) = None"
  shows "\<exists>c'. addBlock f a src c = Inr c' \<and> cache_inv c' \<and>
    cmap c' = (cmap c)((f, a) \<mapsto> (take 1024 src, replicate 1024 False))"
proof -
  have b: "cache_inv c" "freeBlockSemaphore c + 2 * n = 2048" "2048 \<le> unat (freeBlockCount c) + n"
    using cache_run_books [OF run] by (simp_all add: cache_books_def)
  have "2 \<le> freeBlockSemaphore c" "2 \<le> freeBlockCount c" using b(2,3) n by (simp_all add: word_le_nat_alt)
  then show ?thesis by (rule addBlock_spec [OF b(1) a src new]) blast
qed

theorem addBlock_succeeds_witness:
  "\<exists>c'. addBlock 3 1024 (replicate 1024 7) (new_Cache demo_mem) = Inr c' \<and>
     cmap c' (3, 1024) = Some (replicate 1024 7, replicate 1024 False)"
proof -
  have "\<exists>c'. addBlock 3 1024 (replicate 1024 7) (new_Cache demo_mem) = Inr c' \<and> cache_inv c' \<and>
      cmap c' = (cmap (new_Cache demo_mem))((3, 1024) \<mapsto> (take 1024 (replicate 1024 7), replicate 1024 False))"
    by (rule addBlock_succeeds [OF cache_run.init]) (simp_all add: new_Cache_spec(2))
  then show ?thesis by auto
qed

text \<open>
  C22. \<^verbatim>\<open>evictBlock\<close> removes the block from the map and keeps all others. It calls \<^verbatim>\<open>flush\<close> exactly
  once, with the block as it is in the cache, when the block is cached and not marked clean, and not
  at all when it is clean or not cached. A cached block with a dirty byte is not clean, so that no
  such byte is dropped.
\<close>

theorem evictBlock_refines:
  assumes "cache_inv c"
  shows "\<exists>c' bs. (\<forall>flush w. evictBlock flush f a (c, w) = bindR (runAll flush bs w) (\<lambda>w'. Inr (c', w'))) \<and>
    cache_inv c' \<and> cmap c' = (cmap c)((f, a) := None) \<and>
    bs = (case lookup f a c of Inr (Some x) \<Rightarrow> if clean (block c x) then [] else [block c x] | _ \<Rightarrow> []) \<and>
    (\<forall>b\<in>set bs. ckey b = (f, a) \<and> cmap c (f, a) = Some (data b, dirty b)) \<and>
    (\<forall>d m. cmap c (f, a) = Some (d, m) \<and> True \<in> set m \<longrightarrow> length bs = 1)"
proof (cases rule: evictBlock_spec [OF assms, of f a, where 'a = 'a and 'b = 'a])
  case 1
  then have "cmap c = (cmap c)((f, a) := None)" by (simp add: fun_upd_idem)
  moreover have "lookup f a c \<noteq> Inr (Some x)" for x using 1(1) by (auto simp: cmap_def)
  ultimately show ?thesis using 1 assms
    by (intro exI [of _ c] exI [of _ "[]"]) (auto split: sum.split option.split)
next
  case (2 b c')
  have "(if clean b then Inr w else flush b w) = runAll flush (if clean b then [] else [b]) w"
    for flush and w :: 'a by (simp add: bindR_def split: sum.splits)
  moreover have "clean b \<Longrightarrow> True \<notin> set (dirty b)" using 2(3) by (simp add: wf_block_def)
  moreover obtain x where "lookup f a c = Inr (Some x)" "b = block c x" using 2(9) by blast
  ultimately show ?thesis
    using 2 by (intro exI [of _ c'] exI [of _ "if clean b then [] else [b]"]) auto
qed

text \<open>A block that was loaded and then written to in two places.\<close>

lemma demo_dirty:
  obtains c c1 m where "addBlock 3 1024 (replicate 1024 7) (new_Cache demo_mem) = Inr c"
    "cache_write 3 1030 2 [8, 9] c = Inr (True, c1)" "cache_inv c1" "True \<in> set m" "dom (cmap c1) = {(3, 1024)}"
    "cmap c1 (3, 1024) = Some (replicate 6 7 @ [8, 9] @ replicate 1016 7, m)"
proof -
  obtain c where c: "addBlock 3 1024 (replicate 1024 7) (new_Cache demo_mem) = Inr c" "cache_inv c"
    "cmap c = [(3, 1024) \<mapsto> (replicate 1024 7, replicate 1024 False)]" by (rule demo_add)
  define m where "m = take 6 (replicate 1024 False) @ replicate 2 True @ drop 8 (replicate 1024 False)"
  obtain c1 where c1: "cache_write 3 1030 2 [8, 9] c = Inr (True, c1)" "cache_inv c1"
    "cmap c1 = (cmap c)((3, 1024) \<mapsto> (take 6 (replicate 1024 7) @ take 2 [8, 9] @ drop 8 (replicate 1024 7), m))"
    using cache_write_spec [OF c(2), of 1030 2 "[8, 9]" 3] by (auto simp: c(3) m_def)
  have "True \<in> set m" by (simp add: m_def numeral_2_eq_2)
  moreover have "dom (cmap c1) = {(3, 1024)}" unfolding c1(3) c(3) by auto
  moreover have "cmap c1 (3, 1024) = Some (replicate 6 7 @ [8, 9] @ replicate 1016 7, m)" unfolding c1(3) by simp
  ultimately show thesis using c(1) c1(1,2) by (intro that)
qed

theorem evictBlock_refines_witness:
  "\<exists>c c1 c2. addBlock 3 1024 (replicate 1024 7) (new_Cache demo_mem) = Inr c \<and>
     cache_write 3 1030 2 [8, 9] c = Inr (True, c1) \<and> cmap c2 = Map.empty \<and>
     evictBlock (\<lambda>b w. Inr (w @ [(ckey b, data b)])) 3 1024 (c1, []) =
       Inr (c2, [((3, 1024), replicate 6 7 @ [8, 9] @ replicate 1016 7)])"
proof -
  obtain c c1 m where c: "addBlock 3 1024 (replicate 1024 7) (new_Cache demo_mem) = Inr c"
    "cache_write 3 1030 2 [8, 9] c = Inr (True, c1)" "cache_inv c1" "True \<in> set m" "dom (cmap c1) = {(3, 1024)}"
    "cmap c1 (3, 1024) = Some (replicate 6 7 @ [8, 9] @ replicate 1016 7, m)" by (rule demo_dirty)
  obtain c2 bs where e: "\<forall>flush (w :: ((uint32 \<times> uint32) \<times> uint8 list) list).
      evictBlock flush 3 1024 (c1, w) = bindR (runAll flush bs w) (\<lambda>w'. Inr (c2, w'))"
    "cmap c2 = (cmap c1)((3, 1024) := None)" "\<forall>b\<in>set bs. ckey b = (3, 1024) \<and> cmap c1 (3, 1024) = Some (data b, dirty b)"
    "length bs = 1"
    using evictBlock_refines [OF c(3), of 3 1024, where 'a = "((uint32 \<times> uint32) \<times> uint8 list) list"] c(4,6) by blast
  then obtain b where b: "bs = [b]" "ckey b = (3, 1024)" "data b = replicate 6 7 @ [8, 9] @ replicate 1016 7"
    using c(6) by (auto simp: length_Suc_conv)
  have "dom (cmap c2) = {}" using e(2) c(5) by auto
  then have "cmap c2 = Map.empty" by simp
  then show ?thesis using c(1,2) e(1) b by (intro exI [of _ c] exI [of _ c1] exI [of _ c2]) simp
qed

section \<open>The threads\<close>

text \<open>
  C23. One round of the flusher ends and hands exactly the blocks that are not marked clean to
  \<^verbatim>\<open>flush\<close>, each once, with its current data and flags; every block with a dirty byte is among them.
  Afterwards the cache holds the same data with no dirty flag set.
\<close>

theorem flusher_flushes_all:
  assumes "cache_inv c"
  shows "\<exists>bs c'. (\<forall>flush w. cacheFlusher flush (c, w) = bindR (runAll flush bs w) (\<lambda>w'. Inr (c', w'))) \<and>
    cache_inv c' \<and> cmap c' = (\<lambda>k. map_option (\<lambda>v. (fst v, replicate 1024 False)) (cmap c k)) \<and>
    distinct (map ckey bs) \<and> (\<forall>b\<in>set bs. \<not> clean b \<and> cmap c (ckey b) = Some (data b, dirty b)) \<and>
    (\<forall>k d m. cmap c k = Some (d, m) \<and> True \<in> set m \<longrightarrow> k \<in> ckey ` set bs)"
proof -
  obtain bs c' where
    "\<And>flush (w::'a). cacheFlusher flush (c, w) = bindR (runAll flush bs w) (\<lambda>w'. Inr (c', w'))"
    "cache_inv c'" "cmap c' = (\<lambda>k. map_option (\<lambda>v. (fst v, replicate 1024 False)) (cmap c k))"
    "distinct (map ckey bs)" "\<forall>b\<in>set bs. cmap c (ckey b) = Some (data b, dirty b) \<and> wf_block b \<and> \<not> clean b"
    "\<forall>k d m. cmap c k = Some (d, m) \<and> True \<in> set m \<longrightarrow> k \<in> ckey ` set bs"
    by (rule cacheFlusher_spec [OF assms, where 'a = 'a]) simp_all
  then show ?thesis by (intro exI [of _ bs] exI [of _ c']) auto
qed

theorem flusher_flushes_all_witness:
  "\<exists>c c1 c2. addBlock 3 1024 (replicate 1024 7) (new_Cache demo_mem) = Inr c \<and>
     cache_write 3 1030 2 [8, 9] c = Inr (True, c1) \<and>
     cacheFlusher (\<lambda>b w. Inr (w @ [(ckey b, data b)])) (c1, []) =
       Inr (c2, [((3, 1024), replicate 6 7 @ [8, 9] @ replicate 1016 7)]) \<and>
     cmap c2 (3, 1024) = Some (replicate 6 7 @ [8, 9] @ replicate 1016 7, replicate 1024 False)"
proof -
  obtain c c1 m where c: "addBlock 3 1024 (replicate 1024 7) (new_Cache demo_mem) = Inr c"
    "cache_write 3 1030 2 [8, 9] c = Inr (True, c1)" "cache_inv c1" "True \<in> set m" "dom (cmap c1) = {(3, 1024)}"
    "cmap c1 (3, 1024) = Some (replicate 6 7 @ [8, 9] @ replicate 1016 7, m)" by (rule demo_dirty)
  obtain bs c2 where e: "\<forall>flush (w :: ((uint32 \<times> uint32) \<times> uint8 list) list).
      cacheFlusher flush (c1, w) = bindR (runAll flush bs w) (\<lambda>w'. Inr (c2, w'))"
    "cmap c2 = (\<lambda>k. map_option (\<lambda>v. (fst v, replicate 1024 False)) (cmap c1 k))" "distinct (map ckey bs)"
    "\<forall>b\<in>set bs. cmap c1 (ckey b) = Some (data b, dirty b)" "(3, 1024) \<in> ckey ` set bs"
    using flusher_flushes_all [OF c(3), where 'a = "((uint32 \<times> uint32) \<times> uint8 list) list"] c(4,6) by blast
  have k: "ckey b = (3, 1024)" if "b \<in> set bs" for b using e(4) c(5) that by fastforce
  obtain b where "b \<in> set bs" using e(5) by auto
  moreover have "length bs \<le> 1"
    using e(3) k distinct_card [OF e(3)] card_mono [of "{(3, 1024)}" "set (map ckey bs)"] by auto
  ultimately have bs: "bs = [b]" by (cases bs) auto
  then have "data b = replicate 6 7 @ [8, 9] @ replicate 1016 7" using e(4) k c(6) by auto
  then show ?thesis
    using c(1,2,6) e(1,2) bs k by (intro exI [of _ c] exI [of _ c1] exI [of _ c2]) simp
qed

text \<open>
  C24. When the harvester finds fewer than 2020 free blocks it ends with exactly 2020 of them (the
  README has it start below 50 KB and free up to 100 KB; the code uses one limit of 2020 blocks of
  1 KB for both); it only removes blocks, and every removed block with a dirty byte went to \<^verbatim>\<open>flush\<close> with its data
  and flags. It never runs into the null pointer of two empty lists.
\<close>

theorem harvester_frees:
  assumes "cache_inv c" "freeBlockCount c < 2020" "harvesterSemaphore c > 0"
  shows "\<exists>bs c'. (\<forall>flush w. cacheHarvester flush (c, w) = bindR (runAll flush bs w) (\<lambda>w'. Inr (c', w'))) \<and>
    cache_inv c' \<and> freeBlockCount c' = 2020 \<and> cmap c' \<subseteq>\<^sub>m cmap c \<and>
    (\<forall>b\<in>set bs. cmap c (ckey b) = Some (data b, dirty b)) \<and>
    (\<forall>k d m. cmap c k = Some (d, m) \<and> True \<in> set m \<longrightarrow> cmap c' k = Some (d, m) \<or> k \<in> ckey ` set bs)"
proof -
  define c0 where "c0 = c\<lparr>harvesterSemaphore := harvesterSemaphore c - 1\<rparr>"
  have "cache_rel c0 R D F B = cache_rel c R D F B" for R D F B
    by (simp add: rel_defs hash_rel_def c0_def)
  then have inv: "cache_inv c0" using assms(1) by (simp add: cache_inv_def)
  have lk: "lookup f a c0 = lookup f a c" for f a by (simp add: lookup_def bucketAt_def c0_def)
  have bl: "block c0 = block c" by (simp add: c0_def)
  have cm: "cmap c0 = cmap c" unfolding cmap_def [abs_def] lk bl ..
  have low: "freeBlockCount c0 < 2020" "2020 \<le> 2020 + unat (freeBlockCount c0)" using assms(2) by (simp_all add: c0_def)
  obtain bs c' where h: "\<And>flush (w::'a). harvestLoop flush 2020 True (c0, w) = bindR (runAll flush bs w) (\<lambda>w'. Inr (c', w'))"
    "cache_inv c'" "cmap c' \<subseteq>\<^sub>m cmap c" "freeBlockCount c' = 2020"
    "\<forall>b\<in>set bs. cmap c (ckey b) = Some (data b, dirty b) \<and> wf_block b \<and> \<not> clean b"
    "\<forall>k d m. cmap c k = Some (d, m) \<and> True \<in> set m \<longrightarrow> cmap c' k = Some (d, m) \<or> k \<in> ckey ` set bs"
    by (rule harvestLoop_spec [OF inv low, where 'a = 'a, unfolded cm]) simp_all
  have "cacheHarvester flush (c, w) = bindR (runAll flush bs w) (\<lambda>w'. Inr (c', w'))" for flush and w :: 'a
    using h(1) [of flush w] assms(2,3) by (simp add: cacheHarvester_def c0_def)
  then show ?thesis using h(2-6) by (intro exI [of _ bs] exI [of _ c']) auto
qed

theorem harvester_frees_witness:
  "\<exists>c bs c'. freeBlockCount c = 1948 \<and> freeBlockCount c' = 2020 \<and> cmap c' \<subseteq>\<^sub>m cmap c \<and>
     cacheHarvester (\<lambda>b w. Inr w) (c, ()) = bindR (runAll (\<lambda>b w. Inr w) (bs :: CacheBlock list) ()) (\<lambda>w'. Inr (c', w'))"
proof -
  obtain c where c: "cache_inv c" "freeBlockCount c = 1948"
    using filled_run [of 100] by auto
  define c0 where "c0 = c\<lparr>harvesterSemaphore := 1\<rparr>"
  have "cache_rel c0 R D F B = cache_rel c R D F B" for R D F B
    by (simp add: rel_defs hash_rel_def c0_def)
  then have "cache_inv c0" "freeBlockCount c0 = 1948" "freeBlockCount c0 < 2020" "harvesterSemaphore c0 > 0"
    using c by (simp_all add: cache_inv_def c0_def)
  moreover from calculation(1,3,4) obtain bs c' where h:
    "\<forall>flush (w::unit). cacheHarvester flush (c0, w) = bindR (runAll flush bs w) (\<lambda>w'. Inr (c', w'))"
    "freeBlockCount c' = 2020" "cmap c' \<subseteq>\<^sub>m cmap c0"
    using harvester_frees [of c0, where 'a = unit] by blast
  ultimately show ?thesis
    by (intro exI [of _ c0] exI [of _ bs] exI [of _ c']) (simp only: h simp_thms)
qed

text \<open>
  C36. \<^verbatim>\<open>addBlock\<close> waits twice on the semaphore of free blocks and nothing posts it: a client loads
  at most 1024 blocks in its lifetime, and the next \<^verbatim>\<open>addBlock\<close> blocks for ever, however many
  blocks were given back to the free list.
\<close>

theorem cache_exhausted:
  assumes "cache_run n c"
  shows "n \<le> 1024 \<and> (n = 1024 \<and> a AND 1023 = 0 \<longrightarrow> addBlock f a src c = Inl Blocked)"
proof -
  have "freeBlockSemaphore c + 2 * n = 2048" using cache_run_books [OF assms] by (simp add: cache_books_def)
  then show ?thesis using addBlock_exhausted [of c a f src] by auto
qed

theorem cache_exhausted_witness:
  "\<exists>c. cache_run 1024 c \<and> addBlock 9 0 (replicate 1024 7) c = Inl Blocked"
proof -
  obtain c where c: "cache_run 1024 c" using filled_run [of 1024] by auto
  then show ?thesis using cache_exhausted [OF c, of 0 9 "replicate 1024 7"] by auto
qed

text \<open>
  \<^verbatim>\<open>evictFile\<close> does not take its blocks out of the hash table: after it, the block of a closed
  file is still found, while its node is already the head of the free list.
\<close>

theorem evictFile_leaves_hash:
  assumes r: "cache_rel c [x] [] F B"
  shows "\<exists>c'. evictFile flush (fdes (block c x)) (c, w) = Inr (c', w) \<and>
    lookup (fdes (block c x)) (addr (block c x)) c' = Inr (Some x) \<and> freeListHead c' = Some x"
proof -
  note d = cache_relD [OF r]
  obtain l where l: "removeFromRecencyList x c = with_recency l c"
    by (rule removeFromRecencyList_rel [of c "[]" x "[]"]) (use d(1) in simp_all)
  define c' where "c' = snd (addToFreeList x (with_recency l c))"
  have ptr: "dirtyListMRU c = None" "MRUNode c = Some x" "nxt (recencyNode c x) = None"
    using d(1,2) by (simp_all add: dlist_def)
  have "evictFile flush (fdes (block c x)) (c, w) = Inr (c', w)"
    by (simp add: evictFile_def ptr numeral_eq_Suc l c'_def)
  moreover have "hashTable c' = hashTable c" "bucketNode c' = bucketNode c" "block c' = block c" "freeListHead c' = Some x"
    by (simp_all add: c'_def addToFreeList_def Let_def)
  then have "lookup f a c' = lookup f a c" for f a by (simp add: lookup_def bucketAt_def)
  moreover have "lookup (fdes (block c x)) (addr (block c x)) c = Inr (Some x)"
    using lookup_rel(1) [OF r] by (simp add: ckey_def)
  ultimately show ?thesis using \<open>freeListHead c' = Some x\<close> by simp
qed

theorem evictFile_leaves_hash_witness:
  "\<exists>c x c'. addBlock 3 1024 (replicate 1024 7) (new_Cache demo_mem) = Inr c \<and>
     evictFile (\<lambda>b w. Inr w) 3 (c, ()) = Inr (c', ()) \<and>
     lookup 3 1024 c' = Inr (Some x) \<and> freeListHead c' = Some x"
proof -
  have F: "rev [0..<blockCount] = 2047 # 2046 # rev [0..<2046]"
  proof -
    have u: "rev [0..<Suc (Suc n)] = Suc n # n # rev [0..<n]" for n by simp
    have e: "blockCount = Suc (Suc 2046)" by simp
    show ?thesis unfolding e u by simp
  qed
  obtain c B where add: "addBlock 3 1024 (replicate 1024 7) (new_Cache demo_mem) = Inr c"
    and r: "cache_rel c [2047] [] (2046 # rev [0..<2046]) B"
    and b: "block c = (block (new_Cache demo_mem))(2047 := (CacheBlock_reset (block (new_Cache demo_mem) 2047))
      \<lparr>valid := True, addr := 1024, fdes := 3, data := take 1024 (replicate 1024 7)\<rparr>)"
    by (rule addBlock_rel [OF new_Cache_rel [of demo_mem, unfolded F], of 1024 "replicate 1024 7" 3])
       (simp_all add: new_Cache_spec)
  have "fdes (block c 2047) = 3" "addr (block c 2047) = 1024" by (simp_all add: b)
  then show ?thesis using evictFile_leaves_hash [OF r, of "\<lambda>b w. Inr w" "()"] add by auto
qed

end
