(* ===== verification/Permission.thy ===== *)
theory Permission
  imports Util
begin

text \<open>
  One byte-range token of a file: class \<^verbatim>\<open>Permission\<close> (\<^verbatim>\<open>include/permission.h\<close>,
  \<^verbatim>\<open>common/permission.cpp\<close>). A token covers the bytes from its start up to, but not
  including, its end. \<open>permitHeld\<close> is the state of the mutex \<^verbatim>\<open>permitLock\<close>; semaphores are
  named by numbers. The mutex \<^verbatim>\<open>waitingSemaphoresLock\<close> is taken and released inside each
  method and has no state of its own here.
\<close>

record Permission =
  isWrite :: bool
  pstart :: uint32
  pend :: uint32
  permitHeld :: bool
  locked :: bool
  waitingSemaphores :: "nat list"

definition new_Permission :: "uint32 \<Rightarrow> uint32 \<Rightarrow> bool \<Rightarrow> Permission" where
  "new_Permission s e w =
    \<lparr>isWrite = w, pstart = s, pend = e, permitHeld = False, locked = False,
     waitingSemaphores = []\<rparr>"

definition addWaitingSemaphore :: "nat \<Rightarrow> Permission \<Rightarrow> bool \<times> Permission" where
  "addWaitingSemaphore sem p =
    (if locked p then (True, p\<lparr>waitingSemaphores := waitingSemaphores p @ [sem]\<rparr>)
     else (False, p))"

definition isShared :: "Permission \<Rightarrow> uint32 \<Rightarrow> uint32 \<Rightarrow> bool" where
  "isShared p s e = (if e \<le> pstart p then False else if s \<ge> pend p then False else True)"

definition isInclusiveShared :: "Permission \<Rightarrow> uint32 \<Rightarrow> uint32 \<Rightarrow> bool" where
  "isInclusiveShared p s e = (if e < pstart p then False else if s > pend p then False else True)"

text \<open>\<^verbatim>\<open>lock()\<close> blocks while \<^verbatim>\<open>permitLock\<close> is held.\<close>

definition Permission_lock :: "Permission \<Rightarrow> Permission result" where
  "Permission_lock p =
    (let p' = p\<lparr>locked := True\<rparr>
     in if permitHeld p' then Inl Blocked else Inr (p'\<lparr>permitHeld := True\<rparr>))"

text \<open>\<^verbatim>\<open>unlock()\<close> also returns the semaphores it posts, in order; the vector is not cleared.\<close>

definition Permission_unlock :: "Permission \<Rightarrow> Permission \<times> nat list" where
  "Permission_unlock p = (p\<lparr>permitHeld := False, locked := False\<rparr>, waitingSemaphores p)"

section \<open>Tokens as sets of bytes\<close>

definition pbytes :: "Permission \<Rightarrow> uint32 set" where
  "pbytes p = {pstart p ..< pend p}"

text \<open>The bytes a list of tokens covers at all, and those it covers for writing.\<close>

definition rbytes :: "Permission list \<Rightarrow> uint32 set" where
  "rbytes ps = (\<Union>p\<in>set ps. pbytes p)"

definition wbytes :: "Permission list \<Rightarrow> uint32 set" where
  "wbytes ps = (\<Union>p\<in>{p \<in> set ps. isWrite p}. pbytes p)"

named_theorems perm_simps \<open>tokens and the bytes they cover\<close>

declare pbytes_def [perm_simps] isShared_def [perm_simps] isInclusiveShared_def [perm_simps]

lemma new_Permission_sel [simp]:
  "isWrite (new_Permission s e w) = w" "pstart (new_Permission s e w) = s"
  "pend (new_Permission s e w) = e" "permitHeld (new_Permission s e w) = False"
  "locked (new_Permission s e w) = False" "waitingSemaphores (new_Permission s e w) = []"
  by (simp_all add: new_Permission_def)

lemma bytes_Nil [simp]: "rbytes [] = {}" "wbytes [] = {}"
  by (simp_all add: rbytes_def wbytes_def)

lemma bytes_Cons [simp]:
  "rbytes (p # ps) = pbytes p \<union> rbytes ps"
  "wbytes (p # ps) = (if isWrite p then pbytes p else {}) \<union> wbytes ps"
  by (auto simp: rbytes_def wbytes_def)

lemma bytes_append [simp]:
  "rbytes (ps @ qs) = rbytes ps \<union> rbytes qs"
  "wbytes (ps @ qs) = wbytes ps \<union> wbytes qs"
  by (auto simp: rbytes_def wbytes_def)

lemma wbytes_subset_rbytes: "wbytes ps \<subseteq> rbytes ps"
  by (auto simp: rbytes_def wbytes_def)

text \<open>
  \<^verbatim>\<open>isShared\<close> never misses an overlap, and it is exact on proper tokens and requests.
\<close>

lemma not_isShared_disjoint: "\<not> isShared p s e \<Longrightarrow> pbytes p \<inter> {s..<e} = {}"
  by (auto simp: perm_simps split: if_splits)

lemma isShared_iff:
  assumes "pstart p < pend p" "s < e"
  shows "isShared p s e \<longleftrightarrow> pbytes p \<inter> {s..<e} \<noteq> {}"
proof
  assume "isShared p s e"
  then have "max s (pstart p) \<in> pbytes p \<inter> {s..<e}"
    using assms by (auto simp: perm_simps max_def split: if_splits)
  then show "pbytes p \<inter> {s..<e} \<noteq> {}" by blast
next
  assume "pbytes p \<inter> {s..<e} \<noteq> {}"
  then show "isShared p s e" using not_isShared_disjoint by blast
qed

section \<open>Locking\<close>

lemma lock_unlock: "Permission_lock p = Inr q \<Longrightarrow>
    fst (Permission_unlock q) = p\<lparr>locked := False\<rparr> \<and> \<not> permitHeld p"
  by (auto simp: Permission_lock_def Permission_unlock_def Let_def split: if_splits)

lemma lock_keeps:
  assumes "Permission_lock p = Inr q"
  shows "isWrite q = isWrite p" "pstart q = pstart p" "pend q = pend p" "pbytes q = pbytes p"
  using assms by (auto simp: Permission_lock_def Let_def pbytes_def split: if_splits)

lemma lock_new [simp]:
  "Permission_lock (new_Permission s e w) =
     Inr ((new_Permission s e w)\<lparr>locked := True, permitHeld := True\<rparr>)"
  by (simp add: Permission_lock_def)

end
