(* ===== verification/File.thy ===== *)
theory File
  imports Permission
begin

text \<open>
  The base class \<^verbatim>\<open>File\<close> (\<^verbatim>\<open>include/file.h\<close>, \<^verbatim>\<open>common/file.cpp\<close>): the metadata record and
  the three operations on a vector of byte-range tokens that the metadata manager and the
  clients share. The methods take the vector as a reference argument; here it is an argument
  and a result. A locked call runs between \<^verbatim>\<open>pthread_mutex_lock\<close> and
  \<^verbatim>\<open>pthread_mutex_unlock\<close> on every path, so that mutex has no state of its own.
\<close>

section \<open>The record and its accessors\<close>

text \<open>\<open>stripWidth\<close> is a C++ \<^verbatim>\<open>int\<close> (read with \<open>sint\<close>), \<open>pst_size\<close> an \<^verbatim>\<open>off_t\<close>.\<close>

record File =
  fname :: string
  pst_mtime :: int
  pst_ctime :: int
  pst_size :: uint64
  stripWidth :: uint32
  permissions :: "Permission list"
  hasModified :: bool

definition getSize :: "'a File_scheme \<Rightarrow> uint32" where
  "getSize f = ucast (pst_size f)"

definition setSize :: "uint32 \<Rightarrow> 'a File_scheme \<Rightarrow> 'a File_scheme" where
  "setSize sz f = f\<lparr>pst_size := ucast sz\<rparr>"

lemma getSize_setSize [simp]: "getSize (setSize n f) = n"
  by (simp add: getSize_def setSize_def) (transfer, simp)

section \<open>hasPermission\<close>

definition hasPermission :: "uint32 \<Rightarrow> uint32 \<Rightarrow> bool \<Rightarrow> Permission list \<Rightarrow> bool" where
  "hasPermission start en w perms =
    (if perms = [] then False
     else
       let r = first_index (\<lambda>p. pstart p > start) perms
       in if r = Some 0 then False
          else
            let s = (case r of Some i \<Rightarrow> i - 1 | None \<Rightarrow> length perms - 1);
                e = (case first_index (\<lambda>p. pend p \<ge> en) (drop s perms) of
                       Some j \<Rightarrow> s + j
                     | None \<Rightarrow> length perms - 1)
            in if pstart (perms ! s) > start then False
               else if pend (perms ! e) < en then False
               else if w \<and> (\<exists>i\<in>set [s..<Suc e]. \<not> isWrite (perms ! i)) then False
               else if \<exists>i\<in>set [s..<e]. pend (perms ! i) \<noteq> pstart (perms ! (i + 1)) then False
               else True)"

section \<open>addPermission\<close>

definition lock_if :: "bool \<Rightarrow> Permission \<Rightarrow> Permission result" where
  "lock_if lockNewPermissions p = (if lockNewPermissions then Permission_lock p else Inr p)"

text \<open>
  Some token touches the request and the request is for writing. The locals \<^verbatim>\<open>newStart\<close> and
  \<^verbatim>\<open>newEnd\<close> are \<^verbatim>\<open>int\<close>s that only carry \<^verbatim>\<open>uint32_t\<close> values here. The new token behind the
  request ends where token \<^verbatim>\<open>s\<close> ended, as in the source.
\<close>

definition addPermission_write ::
  "uint32 \<Rightarrow> uint32 \<Rightarrow> Permission list \<Rightarrow> bool \<Rightarrow> nat \<Rightarrow> nat \<Rightarrow> Permission list result" where
  "addPermission_write start en perms lockNewPermissions s e =
    (let ps = perms ! s;
         pe = perms ! e;
         sPermit = (if \<not> isWrite ps \<and> pstart ps < start
                    then Some (new_Permission (pstart ps) start False) else None);
         newStart = (if \<not> isWrite ps \<and> pstart ps < start then start
                     else if isWrite ps then min (pstart ps) start else start);
         ePermit = (if \<not> isWrite pe \<and> pend pe > en
                    then Some (new_Permission en (pend ps) False) else None);
         newEnd = (if \<not> isWrite pe \<and> pend pe > en then en
                   else if isWrite pe then max (pend pe) en else en);
         v1 = verase s (e + 1) perms;
         v2 = (case ePermit of Some q \<Rightarrow> vinsert s q v1 | None \<Rightarrow> v1)
     in bindR (lock_if lockNewPermissions (new_Permission newStart newEnd True)) (\<lambda>permit.
          let v3 = vinsert s permit v2
          in Inr (case sPermit of Some q \<Rightarrow> vinsert s q v3 | None \<Rightarrow> v3)))"

text \<open>
  The \<^verbatim>\<open>while(!writePermits.empty())\<close> loop: the write tokens are popped from the back, and
  a read token fills the gap between each of them and \<^verbatim>\<open>newEnd\<close>.
\<close>

fun fillReads ::
  "bool \<Rightarrow> nat \<Rightarrow> Permission list \<Rightarrow> uint32 \<Rightarrow> Permission list \<Rightarrow> (uint32 \<times> Permission list) result"
where
  "fillReads lockNewPermissions s [] newEnd v = Inr (newEnd, v)"
| "fillReads lockNewPermissions s (wp # wps) newEnd v =
     bindR (lock_if lockNewPermissions (new_Permission (pend wp) newEnd False)) (\<lambda>permit.
     bindR (lock_if lockNewPermissions wp) (\<lambda>wp'.
       fillReads lockNewPermissions s wps (pstart wp) (vinsert s wp' (vinsert s permit v))))"

text \<open>The step before that loop: the last write token may already reach \<^verbatim>\<open>newEnd\<close>.\<close>

definition keepLastWrite ::
  "bool \<Rightarrow> nat \<Rightarrow> Permission list \<Rightarrow> uint32 \<Rightarrow> Permission list \<Rightarrow>
   (uint32 \<times> Permission list \<times> Permission list) result" where
  "keepLastWrite lockNewPermissions s writePermits newEnd v =
    (let wl = last writePermits
     in if pstart wl \<le> newEnd \<and> newEnd \<le> pend wl
        then bindR (lock_if lockNewPermissions wl) (\<lambda>wl'.
               Inr (pstart wl, vinsert s wl' v, butlast writePermits))
        else Inr (newEnd, v, writePermits))"

text \<open>
  Some token touches the request and the request is for reading. \<^verbatim>\<open>newStart < newEnd\<close> compares
  two \<^verbatim>\<open>int\<close>s; the other comparisons mix \<^verbatim>\<open>int\<close> and \<^verbatim>\<open>uint32_t\<close> and are unsigned.
\<close>

definition fillFront ::
  "bool \<Rightarrow> nat \<Rightarrow> uint32 \<Rightarrow> uint32 \<Rightarrow> Permission list \<Rightarrow> Permission list result" where
  "fillFront lockNewPermissions s newStart newEnd v =
    (if sint newStart < sint newEnd
     then bindR (lock_if lockNewPermissions (new_Permission newStart newEnd False))
            (\<lambda>permit. Inr (vinsert s permit v))
     else Inr v)"

definition addPermission_read ::
  "uint32 \<Rightarrow> uint32 \<Rightarrow> Permission list \<Rightarrow> bool \<Rightarrow> nat \<Rightarrow> nat \<Rightarrow> Permission list result" where
  "addPermission_read start en perms lockNewPermissions s e =
    (let ps = perms ! s;
         pe = perms ! e;
         newStart = (if \<not> isWrite ps \<and> pstart ps < start then pstart ps else start);
         newEnd = (if \<not> isWrite pe \<and> pend pe > en then pend pe else en);
         writePermits = filter isWrite (take (e + 1 - s) (drop s perms));
         v = verase s (e + 1) perms
     in if writePermits = [] then
          bindR (lock_if lockNewPermissions (new_Permission newStart newEnd False)) (\<lambda>permit.
            Inr (vinsert s permit v))
        else
          bindR (keepLastWrite lockNewPermissions s writePermits newEnd v)
            (\<lambda>(newEnd, v, writePermits).
          bindR (fillReads lockNewPermissions s (rev writePermits) newEnd v) (\<lambda>(newEnd, v).
            fillFront lockNewPermissions s newStart newEnd v)))"

text \<open>No token touches the request.\<close>

definition addPermission_new ::
  "uint32 \<Rightarrow> uint32 \<Rightarrow> bool \<Rightarrow> Permission list \<Rightarrow> bool \<Rightarrow> Permission list result" where
  "addPermission_new start en w perms lockNewPermissions =
    bindR (lock_if lockNewPermissions (new_Permission start en w)) (\<lambda>permit.
      if perms = [] then Inr [permit]
      else case last_index (\<lambda>p. pend p < start) perms of
             Some i \<Rightarrow> Inr (vinsert (i + 1) permit perms)
           | None \<Rightarrow> Inr (vinsert 0 permit perms))"

text \<open>
  The search for \<^verbatim>\<open>e\<close> keeps the initial value \<^verbatim>\<open>e = s\<close> when every later token touches the
  request too, as in the source.
\<close>

definition addPermission ::
  "uint32 \<Rightarrow> uint32 \<Rightarrow> bool \<Rightarrow> Permission list \<Rightarrow> bool \<Rightarrow> Permission list result" where
  "addPermission start en w perms lockNewPermissions =
    (case first_index (\<lambda>p. isInclusiveShared p start en) perms of
       Some s \<Rightarrow>
         let e = (case first_index (\<lambda>p. \<not> isInclusiveShared p start en) (drop (s + 1) perms) of
                    Some j \<Rightarrow> s + 1 + j - 1
                  | None \<Rightarrow> s)
         in if w then addPermission_write start en perms lockNewPermissions s e
            else addPermission_read start en perms lockNewPermissions s e
     | None \<Rightarrow> addPermission_new start en w perms lockNewPermissions)"

section \<open>revokePermission\<close>

text \<open>
  A locked call first registers one semaphore with every locked token that overlaps the
  range and then waits for as many posts as tokens took it. The mutex is free during the wait,
  so the second half of the method works on the vector as it is by then.
\<close>

fun registerWaiting :: "nat \<Rightarrow> uint32 \<Rightarrow> uint32 \<Rightarrow> Permission list \<Rightarrow> nat \<times> Permission list" where
  "registerWaiting sem start en [] = (0, [])"
| "registerWaiting sem start en (p # ps) =
     (let (count, ps') = registerWaiting sem start en ps
      in if isShared p start en
         then (let (res, p') = addWaitingSemaphore sem p
               in (count + (if res then 1 else 0), p' # ps'))
         else (count, p # ps'))"

text \<open>The range falls into one token, which is replaced by what is left on either side.\<close>

definition revokeOne :: "uint32 \<Rightarrow> uint32 \<Rightarrow> Permission list \<Rightarrow> nat \<Rightarrow> Permission list" where
  "revokeOne start en perms s =
    (let sPermit = (if pstart (perms ! s) < start
                    then Some (new_Permission (pstart (perms ! s)) start (isWrite (perms ! s)))
                    else None);
         ePermit = (if en < pend (perms ! s)
                    then Some (new_Permission en (pend (perms ! s)) (isWrite (perms ! s)))
                    else None);
         v1 = verase s (s + 1) perms;
         v2 = (case ePermit of Some q \<Rightarrow> vinsert s q v1 | None \<Rightarrow> v1)
     in case sPermit of Some q \<Rightarrow> vinsert s q v2 | None \<Rightarrow> v2)"

text \<open>The range touches several tokens: trim the first and the last, erase what is between.\<close>

definition revokeRun :: "uint32 \<Rightarrow> uint32 \<Rightarrow> Permission list \<Rightarrow> nat \<Rightarrow> nat \<Rightarrow> Permission list" where
  "revokeRun start en perms s e =
    (let (v1, s1) = (if pstart (perms ! s) < start
                     then (perms[s := (perms ! s)\<lparr>pend := start\<rparr>], s + 1)
                     else (perms, s));
         (v2, e1) = (if pend (v1 ! e) > en
                     then (v1[e := (v1 ! e)\<lparr>pstart := en\<rparr>], e - 1)
                     else (v1, e))
     in if s1 \<le> e1 then verase s1 (e1 + 1) v2 else v2)"

text \<open>
  The removal itself; a call with a null lock is only this part. The argument \<^verbatim>\<open>write\<close> of
  the method is not used by it.
\<close>

definition revokePermission :: "uint32 \<Rightarrow> uint32 \<Rightarrow> Permission list \<Rightarrow> Permission list" where
  "revokePermission start en perms =
    (case (first_index (\<lambda>p. isShared p start en) perms,
           last_index (\<lambda>p. isShared p start en) perms) of
       (Some s, Some e) \<Rightarrow>
         if s = e then revokeOne start en perms s else revokeRun start en perms s e
     | _ \<Rightarrow> perms)"

end
