(* ===== verification/Client_File.thy ===== *)
theory Client_File
  imports File
begin

text \<open>
  An open file of a client: class \<^verbatim>\<open>ClientFile\<close> (\<^verbatim>\<open>client/client_file.cpp\<close>). Its tokens are
  the base class's vector \<open>permissions\<close>. A descriptor is a C++ \<^verbatim>\<open>int\<close>.
\<close>

record ClientFile = File +
  descriptor :: uint32

text \<open>
  The constructor takes the next descriptor. \<open>openFile\<close> sets name, times, size and width right
  after it.
\<close>

definition new_ClientFile :: "uint32 \<Rightarrow> ClientFile \<times> uint32" where
  "new_ClientFile descriptorCount =
    (\<lparr>fname = [], pst_mtime = 0, pst_ctime = 0, pst_size = 0, stripWidth = 0, permissions = [],
      hasModified = False, descriptor = descriptorCount + 1\<rparr>, descriptorCount + 1)"

text \<open>The second component lists the semaphores that are posted.\<close>

fun unlockTokens :: "uint32 \<Rightarrow> uint32 \<Rightarrow> Permission list \<Rightarrow> Permission list \<times> nat list" where
  "unlockTokens start en [] = ([], [])"
| "unlockTokens start en (p # ps) =
     (let (ps', posts) = unlockTokens start en ps
      in if isShared p start en
         then (let (p', post) = Permission_unlock p in (p' # ps', post @ posts))
         else (p # ps', posts))"

definition unlockPermission :: "uint32 \<Rightarrow> uint32 \<Rightarrow> ClientFile \<Rightarrow> ClientFile \<times> nat list" where
  "unlockPermission start en f =
    (let (ps, posts) = unlockTokens start en (permissions f) in (f\<lparr>permissions := ps\<rparr>, posts))"

lemma unlockTokens_map:
  "fst (unlockTokens start en ps) =
     map (\<lambda>p. if isShared p start en then p\<lparr>permitHeld := False, locked := False\<rparr> else p) ps"
  by (induction ps) (auto simp: Let_def Permission_unlock_def split: prod.splits)

lemma unlockTokens_bytes [simp]:
  "rbytes (fst (unlockTokens start en ps)) = rbytes ps"
  "wbytes (fst (unlockTokens start en ps)) = wbytes ps"
  by (induction ps) (auto simp: Let_def Permission_unlock_def pbytes_def split: prod.splits)

end
