(* ===== verification/Message.thy ===== *)
theory Message
  imports Util
begin

text \<open>
  The messages of \<^verbatim>\<open>protos/message.proto\<close> that carry more than a name, and the part of
  \<^verbatim>\<open>grpc::Status\<close> the sources use: a status is its error code, 0 for \<^verbatim>\<open>OK\<close> and 1 for
  \<^verbatim>\<open>CANCELLED\<close>; a failing transport yields other codes.
\<close>

type_synonym Status = int

definition Status_OK :: Status where "Status_OK = 0"
definition Status_CANCELLED :: Status where "Status_CANCELLED = 1"

definition status_ok :: "Status \<Rightarrow> bool" where "status_ok s = (s = Status_OK)"

lemma status_ok_simps [simp]: "status_ok Status_OK" "\<not> status_ok Status_CANCELLED"
  by (simp_all add: status_ok_def Status_OK_def Status_CANCELLED_def)

lemma status_distinct [simp]: "Status_OK \<noteq> Status_CANCELLED" "Status_CANCELLED \<noteq> Status_OK"
  by (simp_all add: Status_OK_def Status_CANCELLED_def)

record CreateFileRequest =
  cf_name :: string
  cf_stripeWidth :: uint32

record CreateStripeRequest =
  cs_name :: string
  cs_stripeWidth :: uint32
  cs_id :: uint32

record PermissionRequest =
  pr_name :: string
  pr_start :: uint32
  pr_end :: uint32
  pr_isWrite :: bool

record PermissionReply =
  pp_error :: int
  pp_start :: uint32
  pp_end :: uint32

record CloseFileRequest =
  cl_name :: string
  cl_hasModified :: bool
  cl_size :: uint32

record FileStatReply =
  st_error :: int
  st_lastModified :: int
  st_creationTime :: int
  st_fileSize :: uint64
  st_stripWidth :: uint32

record RevokePermissionRequest =
  rv_name :: string
  rv_start :: uint32
  rv_end :: uint32
  rv_isWrite :: bool

text \<open>Proto3 defaults: what a reply holds before a handler sets its fields.\<close>

definition new_PermissionReply :: PermissionReply where
  "new_PermissionReply = \<lparr>pp_error = 0, pp_start = 0, pp_end = 0\<rparr>"

definition new_FileStatReply :: FileStatReply where
  "new_FileStatReply =
    \<lparr>st_error = 0, st_lastModified = 0, st_creationTime = 0, st_fileSize = 0, st_stripWidth = 0\<rparr>"

text \<open>The block requests; \<open>addr\<close> is a signed 32-bit field, \<open>dirty\<close> a byte string.\<close>

record ReadBlockRequest =
  rb_name :: string
  rb_addr :: uint32

record WriteBlockRequest =
  wb_name :: string
  wb_addr :: uint32
  wb_data :: "uint8 list"
  wb_dirty :: "uint8 list"

record ReadFileRequest =
  rf_name :: string
  rf_start :: uint32
  rf_size :: uint32

record WriteFileRequest =
  wf_name :: string
  wf_start :: uint32
  wf_data :: "uint8 list"

end
