(* ===== verification/PFS_Client.thy ===== *)
theory PFS_Client
  imports Client_File Cache Message "HOL-Library.Signed_Division"
begin

text \<open>
  The client library: class \<^verbatim>\<open>PFSClient\<close> (\<^verbatim>\<open>client/pfs_client.cpp\<close>), its C interface
  (\<^verbatim>\<open>client/pfs.cpp\<close>) and its service (\<^verbatim>\<open>client/client_service.cpp\<close>). The remote procedures are
  the fields of a record of functions on the state \<open>w\<close> of the other processes; a remote call
  that does not return is a fault. \<^verbatim>\<open>off_t\<close> and \<^verbatim>\<open>ssize_t\<close> values are integers, with the
  conversions to \<^verbatim>\<open>uint32_t\<close> written out. The singleton cache is part of the client's state.
\<close>

section \<open>State and remote procedures\<close>

record 'w Stubs =
  rpc_ClientStart :: "string \<Rightarrow> 'w \<Rightarrow> (Status \<times> 'w) result"
  rpc_CreateFile :: "CreateFileRequest \<Rightarrow> 'w \<Rightarrow> (Status \<times> 'w) result"
  rpc_OpenFile :: "string \<Rightarrow> 'w \<Rightarrow> (Status \<times> FileStatReply \<times> 'w) result"
  rpc_GetPermission :: "PermissionRequest \<Rightarrow> 'w \<Rightarrow> (Status \<times> PermissionReply \<times> 'w) result"
  rpc_CloseFile :: "CloseFileRequest \<Rightarrow> 'w \<Rightarrow> (Status \<times> 'w) result"
  rpc_DeleteFile :: "string \<Rightarrow> 'w \<Rightarrow> (Status \<times> 'w) result"
  rpc_GetFileDesc :: "string \<Rightarrow> 'w \<Rightarrow> (Status \<times> FileStatReply \<times> 'w) result"
  rpc_ReadBlock :: "nat \<Rightarrow> ReadBlockRequest \<Rightarrow> 'w \<Rightarrow> (Status \<times> uint8 list \<times> 'w) result"
  rpc_WriteBlock :: "nat \<Rightarrow> WriteBlockRequest \<Rightarrow> 'w \<Rightarrow> (Status \<times> 'w) result"

record PFSClient =
  stubReady :: bool
  openedFiles :: "ClientFile list"
  descriptorCount :: uint32
  cache :: Cache

definition new_PFSClient :: "(nat \<Rightarrow> CacheBlock) \<Rightarrow> PFSClient" where
  "new_PFSClient mem =
    \<lparr>stubReady = False, openedFiles = [], descriptorCount = 0, cache = new_Cache mem\<rparr>"

text \<open>\<open>client_no\<close> is \<^verbatim>\<open>argv[2]\<close>.\<close>

definition initialize ::
  "'w Stubs \<Rightarrow> string \<Rightarrow> PFSClient \<Rightarrow> 'w \<Rightarrow> (PFSClient \<times> 'w) result" where
  "initialize S client_no cl w =
    bindR (rpc_ClientStart S (''0.0.0.0:400'' @ client_no) w) (\<lambda>(status, w').
      if status_ok status then Inr (cl\<lparr>stubReady := True\<rparr>, w') else Inl AssertFail)"

section \<open>Blocks on the file servers\<close>

definition fileServerIndex :: "uint32 \<Rightarrow> ClientFile \<Rightarrow> nat result" where
  "fileServerIndex blockAddr f =
    (if stripWidth f = 0 then Inl DivByZero
     else Inr (unat ((blockAddr div word_of_nat (STRIP_SIZE * pfsBlockSizeInBytes)) mod stripWidth f
                     mod word_of_nat NUM_FILE_SERVERS)))"

definition findDescriptor :: "uint32 \<Rightarrow> ClientFile list \<Rightarrow> nat option" where
  "findDescriptor filedes fs = first_index (\<lambda>f. descriptor f = filedes) fs"

definition flush :: "'w Stubs \<Rightarrow> ClientFile list \<Rightarrow> CacheBlock \<Rightarrow> 'w \<Rightarrow> 'w result" where
  "flush S fs b w =
    (if clean b then Inl AssertFail
     else case findDescriptor (fdes b) fs of
       None \<Rightarrow> Inl AssertFail
     | Some foundAt \<Rightarrow>
         bindR (fileServerIndex (addr b) (fs ! foundAt)) (\<lambda>i.
         bindR (rpc_WriteBlock S i
                 \<lparr>wb_name = fname (fs ! foundAt), wb_addr = addr b, wb_data = data b,
                  wb_dirty = map (\<lambda>d. if d then 1 else 0) (dirty b)\<rparr> w) (\<lambda>(status, w').
           if status_ok status then Inr w' else Inl AssertFail)))"

definition getBlockFromFileServer ::
  "'w Stubs \<Rightarrow> ClientFile \<Rightarrow> uint32 \<Rightarrow> 'w \<Rightarrow> (uint8 list \<times> 'w) result" where
  "getBlockFromFileServer S f blockAddr w =
    bindR (fileServerIndex blockAddr f) (\<lambda>i.
    bindR (rpc_ReadBlock S i \<lparr>rb_name = fname f, rb_addr = blockAddr\<rparr> w) (\<lambda>(status, bytes, w').
      if status_ok status \<and> length bytes = pfsBlockSizeInBytes then Inr (bytes, w')
      else Inl AssertFail))"

text \<open>
  \<^verbatim>\<open>while(blockAddr <= end)\<close> in steps of a block, as in \<^verbatim>\<open>revokePermission\<close> and \<^verbatim>\<open>closeFile\<close>. An
  aligned address takes \<open>2\<^sup>2\<^sup>2\<close> values, so a loop that is not done after that many steps has wrapped
  around and does not end.
\<close>

fun evictRange ::
  "(CacheBlock \<Rightarrow> 'w \<Rightarrow> 'w result) \<Rightarrow> nat \<Rightarrow> uint32 \<Rightarrow> uint32 \<Rightarrow> uint32 \<Rightarrow> Cache \<times> 'w \<Rightarrow> (Cache \<times> 'w) result"
where
  "evictRange fl 0 filedes blockAddr en cw = (if blockAddr \<le> en then Inl Blocked else Inr cw)"
| "evictRange fl (Suc n) filedes blockAddr en cw =
     (if blockAddr \<le> en
      then bindR (evictBlock fl filedes blockAddr cw)
             (evictRange fl n filedes (blockAddr + word_of_nat pfsBlockSizeInBytes) en)
      else Inr cw)"

definition evictFuel :: nat where
  "evictFuel = 2 ^ 22"

definition blockStart :: "uint32 \<Rightarrow> uint32" where
  "blockStart a = a div word_of_nat pfsBlockSizeInBytes * word_of_nat pfsBlockSizeInBytes"

section \<open>Files\<close>

text \<open>\<^verbatim>\<open>-1 * abs(status.error_code())\<close>.\<close>

definition errorOf :: "Status \<Rightarrow> int" where
  "errorOf status = - 1 * \<bar>status\<bar>"

definition createFile ::
  "'w Stubs \<Rightarrow> string \<Rightarrow> uint32 \<Rightarrow> PFSClient \<Rightarrow> 'w \<Rightarrow> (int \<times> 'w) result" where
  "createFile S filename stripe_width cl w =
    (if \<not> stubReady cl then Inr (- 1, w)
     else bindR (rpc_CreateFile S \<lparr>cf_name = filename, cf_stripeWidth = stripe_width\<rparr> w)
            (\<lambda>(status, w'). Inr (if status_ok status then 0 else errorOf status, w')))"

definition openFile ::
  "'w Stubs \<Rightarrow> string \<Rightarrow> PFSClient \<Rightarrow> 'w \<Rightarrow> (int \<times> PFSClient \<times> 'w) result" where
  "openFile S filename cl w =
    (if \<not> stubReady cl then Inr (- 1, cl, w)
     else bindR (rpc_OpenFile S filename w) (\<lambda>(status, reply, w').
       if status_ok status
       then
         let (file, count) = new_ClientFile (descriptorCount cl);
             file' = setSize (ucast (st_fileSize reply))
                       (file\<lparr>fname := filename, pst_ctime := st_creationTime reply,
                             pst_mtime := st_lastModified reply, stripWidth := st_stripWidth reply\<rparr>)
         in Inr (sint (descriptor file'),
                 cl\<lparr>openedFiles := openedFiles cl @ [file'], descriptorCount := count\<rparr>, w')
       else Inr (status, cl, w')))"

definition deleteFile :: "'w Stubs \<Rightarrow> string \<Rightarrow> PFSClient \<Rightarrow> 'w \<Rightarrow> (int \<times> 'w) result" where
  "deleteFile S filename cl w =
    (if \<not> stubReady cl then Inr (- 1, w)
     else bindR (rpc_DeleteFile S filename w)
            (\<lambda>(status, w'). Inr (if status_ok status then 0 else errorOf status, w')))"

text \<open>
  \<^verbatim>\<open>bool foundAt = -1\<close>: the variable holds 1 before the search and is 0 or 1 after it, and its
  comparison with \<^verbatim>\<open>-1\<close> is false. The name of the request stays empty when nothing is found.
\<close>

definition foundAtBool :: "uint32 \<Rightarrow> ClientFile list \<Rightarrow> nat" where
  "foundAtBool filedes fs = (if findDescriptor filedes fs = Some 0 then 0 else 1)"

definition requestName :: "uint32 \<Rightarrow> ClientFile list \<Rightarrow> string" where
  "requestName filedes fs = (case findDescriptor filedes fs of None \<Rightarrow> [] | Some i \<Rightarrow> fname (fs ! i))"

fun evictTokens ::
  "(CacheBlock \<Rightarrow> 'w \<Rightarrow> 'w result) \<Rightarrow> uint32 \<Rightarrow> Permission list \<Rightarrow> Cache \<times> 'w \<Rightarrow> (Cache \<times> 'w) result"
where
  "evictTokens fl filedes [] cw = Inr cw"
| "evictTokens fl filedes (p # ps) cw =
     bindR (evictRange fl evictFuel filedes (blockStart (pstart p)) (pend p) cw)
       (evictTokens fl filedes ps)"

definition closeFile :: "'w Stubs \<Rightarrow> uint32 \<Rightarrow> PFSClient \<Rightarrow> 'w \<Rightarrow> (int \<times> PFSClient \<times> 'w) result" where
  "closeFile S filedes cl w =
    (if \<not> stubReady cl then Inr (- 1, cl, w)
     else
       let foundAt = foundAtBool filedes (openedFiles cl)
       in if foundAt \<ge> length (openedFiles cl) then Inl OutOfRange
          else
            let f = openedFiles cl ! foundAt
            in bindR (evictTokens (flush S (openedFiles cl)) (descriptor f) (permissions f) (cache cl, w))
                 (\<lambda>(c, w1).
               bindR (rpc_CloseFile S
                       \<lparr>cl_name = requestName filedes (openedFiles cl), cl_hasModified = hasModified f,
                        cl_size = getSize f\<rparr> w1) (\<lambda>(status, w2).
                 if status_ok status
                 then Inr (0, cl\<lparr>openedFiles := verase foundAt (foundAt + 1) (openedFiles cl), cache := c\<rparr>, w2)
                 else Inr (errorOf status, cl\<lparr>cache := c\<rparr>, w2))))"

text \<open>The result holds creation time, modification time and size when the call succeeds.\<close>

definition getFileStat ::
  "'w Stubs \<Rightarrow> uint32 \<Rightarrow> PFSClient \<Rightarrow> 'w \<Rightarrow> (int \<times> (int \<times> int \<times> uint64) option \<times> 'w) result" where
  "getFileStat S filedes cl w =
    (if \<not> stubReady cl then Inr (- 1, None, w)
     else bindR (rpc_GetFileDesc S (requestName filedes (openedFiles cl)) w) (\<lambda>(status, reply, w').
       if status_ok status
       then Inr (0, Some (st_creationTime reply, st_lastModified reply, st_fileSize reply), w')
       else Inr (errorOf status, None, w')))"

section \<open>Tokens\<close>

definition acquirePermission ::
  "'w Stubs \<Rightarrow> uint32 \<Rightarrow> uint32 \<Rightarrow> uint32 \<Rightarrow> bool \<Rightarrow> PFSClient \<Rightarrow> 'w \<Rightarrow> (int \<times> PFSClient \<times> 'w) result" where
  "acquirePermission S filedes start en iswrite cl w =
    (case findDescriptor filedes (openedFiles cl) of
       None \<Rightarrow> Inr (ERROR_CLOSE_UNOPENED_FILE, cl, w)
     | Some foundAt \<Rightarrow>
         let f = openedFiles cl ! foundAt
         in if hasPermission start en iswrite (permissions f) then Inr (int foundAt, cl, w)
            else
              bindR (rpc_GetPermission S
                      \<lparr>pr_name = fname f, pr_start = start, pr_end = en, pr_isWrite = iswrite\<rparr> w)
                (\<lambda>(status, reply, w').
                  if status_ok status
                  then bindR (addPermission (pp_start reply) (pp_end reply) iswrite (permissions f) True)
                         (\<lambda>ps. Inr (int foundAt,
                                    cl\<lparr>openedFiles := (openedFiles cl)[foundAt := f\<lparr>permissions := ps\<rparr>]\<rparr>, w'))
                  else Inr (errorOf status, cl, w')))"

text \<open>
  A revocation that arrives between two calls of the library. \<^verbatim>\<open>File::revokePermission\<close> registers a
  semaphore, number 0, with the locked tokens of the range, releases the mutex of the file and waits
  for a post from each of them. A later call of the client that unlocks them posts it, and the
  revocation goes on with \<open>client_revokeFinish\<close>; until then it is \<open>Waiting\<close>.
\<close>

definition client_revokeBegin :: "nat \<Rightarrow> uint32 \<Rightarrow> uint32 \<Rightarrow> PFSClient \<Rightarrow> nat \<times> PFSClient" where
  "client_revokeBegin foundAt start en cl =
    (let f = openedFiles cl ! foundAt;
         (count, ps) = registerWaiting 0 start en (permissions f)
     in (count, cl\<lparr>openedFiles := (openedFiles cl)[foundAt := f\<lparr>permissions := ps\<rparr>]\<rparr>))"

definition client_revokeFinish ::
  "'w Stubs \<Rightarrow> nat \<Rightarrow> uint32 \<Rightarrow> uint32 \<Rightarrow> PFSClient \<Rightarrow> 'w \<Rightarrow> (PFSClient \<times> 'w) result" where
  "client_revokeFinish S foundAt start en cl w =
    (let f = openedFiles cl ! foundAt;
         fs = (openedFiles cl)[foundAt := f\<lparr>permissions := revokePermission start en (permissions f)\<rparr>]
     in bindR (evictRange (flush S fs) evictFuel (descriptor f) (blockStart start) en (cache cl, w))
          (\<lambda>(c, w'). Inr (cl\<lparr>openedFiles := fs, cache := c\<rparr>, w')))"

definition client_revokePermission ::
  "'w Stubs \<Rightarrow> string \<Rightarrow> uint32 \<Rightarrow> uint32 \<Rightarrow> bool \<Rightarrow> PFSClient \<Rightarrow> 'w \<Rightarrow> (PFSClient \<times> 'w) result" where
  "client_revokePermission S filename start en iswrite cl w =
    (case first_index (\<lambda>f. fname f = filename) (openedFiles cl) of
       None \<Rightarrow> Inr (cl, w)
     | Some foundAt \<Rightarrow>
         let (count, cl1) = client_revokeBegin foundAt start en cl
         in if count > 0 then Inl Waiting else client_revokeFinish S foundAt start en cl1 w)"

definition RevokePermission ::
  "'w Stubs \<Rightarrow> RevokePermissionRequest \<Rightarrow> PFSClient \<Rightarrow> 'w \<Rightarrow> (Status \<times> PFSClient \<times> 'w) result" where
  "RevokePermission S request cl w =
    bindR (client_revokePermission S (rv_name request) (rv_start request) (rv_end request)
             (rv_isWrite request) cl w) (\<lambda>(cl', w'). Inr (Status_OK, cl', w'))"

section \<open>Reading and writing\<close>

text \<open>
  The loops over the blocks of a request. \<open>actualSize\<close> is what the request has of the block at
  \<open>offset\<close>; \<^verbatim>\<open>%\<close> on \<^verbatim>\<open>off_t\<close> is signed. The bytes read so far and the flag \<^verbatim>\<open>*cache_hit\<close> are
  arguments. A call that returns before the loop writes neither the buffer nor the flag; its
  result has \<open>[]\<close> and \<open>False\<close> in their places.
\<close>

definition actualSize :: "int \<Rightarrow> int \<Rightarrow> int" where
  "actualSize offset nbyte = min (int pfsBlockSizeInBytes - offset smod int pfsBlockSizeInBytes) nbyte"

definition blockOf :: "int \<Rightarrow> uint32" where
  "blockOf offset = word_of_int (offset sdiv int pfsBlockSizeInBytes) * word_of_nat pfsBlockSizeInBytes"

lemma actualSize_pos: "0 < nbyte \<Longrightarrow> 0 < actualSize offset nbyte"
proof -
  have "\<bar>offset\<bar> mod 1024 < 1024" by simp
  moreover have "sgn offset * (\<bar>offset\<bar> mod 1024) \<le> \<bar>offset\<bar> mod 1024"
    by (cases "offset < 0") (auto simp: sgn_if)
  ultimately show "0 < nbyte \<Longrightarrow> 0 < actualSize offset nbyte"
    by (simp add: actualSize_def signed_modulo_int_def)
qed

text \<open>One round of the loop of \<^verbatim>\<open>readFile\<close>: the bytes of this block, and whether it was cached.\<close>

definition readOne ::
  "'w Stubs \<Rightarrow> ClientFile \<Rightarrow> uint32 \<Rightarrow> int \<Rightarrow> int \<Rightarrow> Cache \<times> 'w \<Rightarrow> (uint8 list \<times> bool \<times> Cache \<times> 'w) result" where
  "readOne S f filedes offset sz = (\<lambda>(c, w).
    bindR (readBlock filedes (blockOf offset) c) (\<lambda>(r, c1).
    bindR (case r of
             Some cacheData \<Rightarrow> Inr (cacheData, True, c1, w)
           | None \<Rightarrow>
               bindR (getBlockFromFileServer S f (blockOf offset) w) (\<lambda>(cacheData, w').
               bindR (addBlock filedes (blockOf offset) cacheData c1) (\<lambda>c2.
                 Inr (cacheData, False, c2, w')))) (\<lambda>(cacheData, hit, c2, w').
      let off = offset smod int pfsBlockSizeInBytes
      in if off < 0 \<or> off + sz > int (length cacheData) then Inl OutOfRange
         else Inr (take (nat sz) (drop (nat off) cacheData), hit, c2, w'))))"

function readLoop ::
  "'w Stubs \<Rightarrow> ClientFile \<Rightarrow> uint32 \<Rightarrow> int \<Rightarrow> int \<Rightarrow> uint8 list \<Rightarrow> bool \<Rightarrow> Cache \<times> 'w \<Rightarrow>
   (uint8 list \<times> bool \<times> Cache \<times> 'w) result"
where
  "readLoop S f filedes offset nbyte out hit cw =
     (if nbyte > 0
      then bindR (readOne S f filedes offset (actualSize offset nbyte) cw) (\<lambda>(bytes, h, cw').
             readLoop S f filedes (offset + actualSize offset nbyte)
               (nbyte - actualSize offset nbyte) (out @ bytes) (hit \<and> h) cw')
      else Inr (out, hit, cw))"
  by pat_completeness auto
termination
  by (relation "measure (\<lambda>(S, f, filedes, offset, nbyte, out, hit, cw). nat nbyte)")
     (auto dest: actualSize_pos)

declare readLoop.simps [simp del]

definition readFile ::
  "'w Stubs \<Rightarrow> uint32 \<Rightarrow> int \<Rightarrow> int \<Rightarrow> PFSClient \<Rightarrow> 'w \<Rightarrow>
   (int \<times> uint8 list \<times> bool \<times> PFSClient \<times> 'w) result" where
  "readFile S filedes nbyte offset cl w =
    (if \<not> stubReady cl then Inr (- 1, [], False, cl, w)
     else
       bindR (acquirePermission S filedes (word_of_int offset) (word_of_int (offset + nbyte)) False cl w)
         (\<lambda>(foundAt, cl1, w1).
       if foundAt < 0 then Inr (foundAt, [], False, cl1, w1)
       else
         let f = openedFiles cl1 ! nat foundAt
         in bindR (readLoop S f filedes offset nbyte [] True (cache cl1, w1)) (\<lambda>(out, hit, c, w2).
              let f' = fst (unlockPermission (word_of_int offset) (word_of_int (offset + nbyte)) f)
              in Inr (nbyte, out, hit,
                      cl1\<lparr>openedFiles := (openedFiles cl1)[nat foundAt := f'], cache := c\<rparr>, w2))))"

text \<open>One round of the loop of \<^verbatim>\<open>writeFile\<close>; the result of the second \<^verbatim>\<open>write\<close> is not looked at.\<close>

definition writeOne ::
  "'w Stubs \<Rightarrow> ClientFile \<Rightarrow> uint32 \<Rightarrow> int \<Rightarrow> int \<Rightarrow> uint8 list \<Rightarrow> Cache \<times> 'w \<Rightarrow> (bool \<times> Cache \<times> 'w) result" where
  "writeOne S f filedes offset sz src = (\<lambda>(c, w).
    bindR (cache_write filedes (word_of_int offset) (word_of_int sz) src c) (\<lambda>(hit, c1).
      if hit then Inr (True, c1, w)
      else
        bindR (getBlockFromFileServer S f (blockOf offset) w) (\<lambda>(cacheData, w').
        bindR (addBlock filedes (blockOf offset) cacheData c1) (\<lambda>c2.
        bindR (cache_write filedes (word_of_int offset) (word_of_int sz) src c2) (\<lambda>(_, c3).
          Inr (False, c3, w'))))))"

function writeLoop ::
  "'w Stubs \<Rightarrow> ClientFile \<Rightarrow> uint32 \<Rightarrow> int \<Rightarrow> int \<Rightarrow> uint8 list \<Rightarrow> bool \<Rightarrow> Cache \<times> 'w \<Rightarrow>
   (bool \<times> Cache \<times> 'w) result"
where
  "writeLoop S f filedes offset nbyte src hit cw =
     (if nbyte > 0
      then bindR (writeOne S f filedes offset (actualSize offset nbyte) src cw) (\<lambda>(h, cw').
             writeLoop S f filedes (offset + actualSize offset nbyte)
               (nbyte - actualSize offset nbyte) (drop (nat (actualSize offset nbyte)) src)
               (hit \<and> h) cw')
      else Inr (hit, cw))"
  by pat_completeness auto
termination
  by (relation "measure (\<lambda>(S, f, filedes, offset, nbyte, src, hit, cw). nat nbyte)")
     (auto dest: actualSize_pos)

declare writeLoop.simps [simp del]

definition writeFile ::
  "'w Stubs \<Rightarrow> uint32 \<Rightarrow> uint8 list \<Rightarrow> int \<Rightarrow> int \<Rightarrow> PFSClient \<Rightarrow> 'w \<Rightarrow>
   (int \<times> bool \<times> PFSClient \<times> 'w) result" where
  "writeFile S filedes buf nbyte offset cl w =
    (if \<not> stubReady cl then Inr (- 1, False, cl, w)
     else
       bindR (acquirePermission S filedes (word_of_int offset) (word_of_int (offset + nbyte)) True cl w)
         (\<lambda>(foundAt, cl1, w1).
       if foundAt < 0 then Inr (foundAt, False, cl1, w1)
       else
         let f = openedFiles cl1 ! nat foundAt;
             f1 = setSize (max (getSize f) (word_of_int (offset + nbyte))) (f\<lparr>hasModified := True\<rparr>);
             fs = (openedFiles cl1)[nat foundAt := f1]
         in bindR (writeLoop S f1 filedes offset nbyte buf True (cache cl1, w1)) (\<lambda>(hit, c, w2).
              let f2 = fst (unlockPermission (word_of_int offset) (word_of_int (offset + nbyte)) f1)
              in Inr (nbyte, hit, cl1\<lparr>openedFiles := fs[nat foundAt := f2], cache := c\<rparr>, w2))))"

section \<open>finalize\<close>

definition finalize :: "'w Stubs \<Rightarrow> PFSClient \<Rightarrow> 'w \<Rightarrow> 'w result" where
  "finalize S cl w = delete_Cache (flush S (openedFiles cl)) (cache cl, w)"

section \<open>The C interface\<close>

text \<open>
  The functions of \<^verbatim>\<open>client/pfs.cpp\<close>, where C++ \<^verbatim>\<open>int\<close> arguments become the \<^verbatim>\<open>uint32\<close> fields of
  messages and the descriptors of files.
\<close>

definition pfs_create :: "'w Stubs \<Rightarrow> string \<Rightarrow> int \<Rightarrow> PFSClient \<Rightarrow> 'w \<Rightarrow> (int \<times> 'w) result" where
  "pfs_create S filename stripe_width = createFile S filename (word_of_int stripe_width)"

definition pfs_open :: "'w Stubs \<Rightarrow> string \<Rightarrow> PFSClient \<Rightarrow> 'w \<Rightarrow> (int \<times> PFSClient \<times> 'w) result" where
  "pfs_open S filename = openFile S filename"

definition pfs_read ::
  "'w Stubs \<Rightarrow> int \<Rightarrow> int \<Rightarrow> int \<Rightarrow> PFSClient \<Rightarrow> 'w \<Rightarrow> (int \<times> uint8 list \<times> bool \<times> PFSClient \<times> 'w) result" where
  "pfs_read S filedes nbyte offset = readFile S (word_of_int filedes) nbyte offset"

definition pfs_write ::
  "'w Stubs \<Rightarrow> int \<Rightarrow> uint8 list \<Rightarrow> int \<Rightarrow> int \<Rightarrow> PFSClient \<Rightarrow> 'w \<Rightarrow> (int \<times> bool \<times> PFSClient \<times> 'w) result" where
  "pfs_write S filedes buf nbyte offset = writeFile S (word_of_int filedes) buf nbyte offset"

definition pfs_close :: "'w Stubs \<Rightarrow> int \<Rightarrow> PFSClient \<Rightarrow> 'w \<Rightarrow> (int \<times> PFSClient \<times> 'w) result" where
  "pfs_close S filedes = closeFile S (word_of_int filedes)"

definition pfs_delete :: "'w Stubs \<Rightarrow> string \<Rightarrow> PFSClient \<Rightarrow> 'w \<Rightarrow> (int \<times> 'w) result" where
  "pfs_delete S filename = deleteFile S filename"

definition pfs_fstat ::
  "'w Stubs \<Rightarrow> int \<Rightarrow> PFSClient \<Rightarrow> 'w \<Rightarrow> (int \<times> (int \<times> int \<times> uint64) option \<times> 'w) result" where
  "pfs_fstat S filedes = getFileStat S (word_of_int filedes)"

end
