(* ===== verification/File_Server.thy ===== *)
theory File_Server
  imports File Message "HOL-Library.Signed_Division"
begin

text \<open>
  A file server: classes \<^verbatim>\<open>FSFile\<close> (\<^verbatim>\<open>file_server/fs_file.cpp\<close>) and \<^verbatim>\<open>FileServerServiceImpl\<close>
  (\<^verbatim>\<open>file_server/file_server.cpp\<close>). \<open>disk\<close> is the native file system below the server's
  directory: a map from path to content. \<open>lockHeld\<close> is the state of the mutex \<^verbatim>\<open>lock\<close>
  between two handlers; a handler that finds it held waits for ever.
\<close>

section \<open>The native file system\<close>

text \<open>
  Bytes written behind the end of a file leave a gap of zero bytes. \<open>fread\<close> into a fresh
  buffer leaves the bytes behind the end of the file as they were in the uninitialised
  buffer, whose content is the argument \<open>junk\<close>.
\<close>

definition fwrite_at :: "nat \<Rightarrow> uint8 list \<Rightarrow> uint8 list \<Rightarrow> uint8 list" where
  "fwrite_at pos bs content =
    (if bs = [] then content
     else take pos (content @ replicate (pos - length content) 0) @ bs @
          drop (pos + length bs) content)"

definition fread_at :: "nat \<Rightarrow> nat \<Rightarrow> uint8 list \<Rightarrow> (nat \<Rightarrow> uint8) \<Rightarrow> uint8 list" where
  "fread_at pos n content junk =
    map (\<lambda>i. if pos + i < length content then content ! (pos + i) else junk i) [0..<n]"

text \<open>\<^verbatim>\<open>s[i]\<close> and \<^verbatim>\<open>s.c_str()[i]\<close> of a \<^verbatim>\<open>std::string\<close>: the byte behind the end is 0.\<close>

definition str_at :: "uint8 list \<Rightarrow> nat \<Rightarrow> uint8 result" where
  "str_at s i = (if i < length s then Inr (s ! i) else if i = length s then Inr 0 else Inl OutOfRange)"

section \<open>FSFile\<close>

record FSFile = File +
  stripPaths :: "int \<rightharpoonup> string"

definition new_FSFile :: "string \<Rightarrow> uint32 \<Rightarrow> FSFile" where
  "new_FSFile name stripeWidth =
    \<lparr>fname = name, pst_mtime = 0, pst_ctime = 0, pst_size = 0, stripWidth = stripeWidth,
     permissions = [], hasModified = False, stripPaths = Map.empty\<rparr>"

text \<open>
  \<^verbatim>\<open>fopen(path, "w")\<close> creates or truncates the file. Its result is not looked at: where it fails,
  as for a name with a slash whose directory does not exist, \<^verbatim>\<open>fclose\<close> gets a null pointer. The
  model has the calls that succeed, and paths that name the same native file by other strings
  (\<^verbatim>\<open>d/f_0\<close> and \<^verbatim>\<open>d/./f_0\<close>) as different files.
\<close>

definition addStrip ::
  "string \<Rightarrow> int \<Rightarrow> FSFile \<Rightarrow> (string \<rightharpoonup> uint8 list) \<Rightarrow> FSFile \<times> (string \<rightharpoonup> uint8 list)" where
  "addStrip path index f d = (f\<lparr>stripPaths := (stripPaths f)(index \<mapsto> path)\<rparr>, d(path \<mapsto> []))"

definition getStripPath :: "int \<Rightarrow> FSFile \<Rightarrow> string" where
  "getStripPath index f = (case stripPaths f index of None \<Rightarrow> '''' | Some p \<Rightarrow> p)"

section \<open>The server\<close>

record FileServer =
  address :: string
  filesDirectory :: string
  fs_files :: "string \<rightharpoonup> FSFile"
  lockHeld :: bool
  disk :: "string \<rightharpoonup> uint8 list"

text \<open>The constructor empties the server's directory (\<^verbatim>\<open>rm -r\<close>, \<^verbatim>\<open>mkdir -p\<close>).\<close>

definition new_FileServer :: "string \<Rightarrow> FileServer" where
  "new_FileServer addr =
    \<lparr>address = addr, filesDirectory = ''pfs_'' @ addr @ ''/'', fs_files = Map.empty,
     lockHeld = False, disk = Map.empty\<rparr>"

text \<open>\<^verbatim>\<open>std::to_string\<close> of an unsigned number.\<close>

fun to_string :: "nat \<Rightarrow> string" where
  "to_string n = (if n < 10 then [char_of (48 + n)] else to_string (n div 10) @ [char_of (48 + n mod 10)])"

declare to_string.simps [simp del]

definition stripeAddress :: "string \<Rightarrow> string \<Rightarrow> uint32 \<Rightarrow> string" where
  "stripeAddress dir name sid = dir @ name @ ''_'' @ to_string (unat sid)"

definition FS_CreateFile :: "CreateStripeRequest \<Rightarrow> FileServer \<Rightarrow> (Status \<times> FileServer) result" where
  "FS_CreateFile request s =
    (if lockHeld s then Inl Blocked
     else
       let file = (case fs_files s (cs_name request) of
                     None \<Rightarrow> new_FSFile (cs_name request) (cs_stripeWidth request)
                   | Some f \<Rightarrow> f);
           path = stripeAddress (filesDirectory s) (cs_name request) (cs_id request);
           (file', d) = addStrip path (sint (cs_id request)) file (disk s)
       in Inr (Status_OK, s\<lparr>fs_files := (fs_files s)(cs_name request \<mapsto> file'), disk := d\<rparr>))"

section \<open>Locating a byte\<close>

text \<open>
  The computations every block handler repeats. \<open>stripOf\<close> is the local \<^verbatim>\<open>strip\<close>, in signed
  arithmetic; \<open>maxSizeOf\<close> is \<^verbatim>\<open>maxSize\<close>, whose sum may overflow; \<open>seekOf\<close> is the argument of
  \<^verbatim>\<open>fseek\<close>, the address less \<^verbatim>\<open>fileOffset\<close>, in \<^verbatim>\<open>uint32_t\<close> arithmetic.
\<close>

definition stripBytes :: int where
  "stripBytes = int (STRIP_SIZE * pfsBlockSizeInBytes)"

definition stripOf :: "uint32 \<Rightarrow> FSFile \<Rightarrow> int result" where
  "stripOf addr f =
    (if stripWidth f = 0 then Inl DivByZero
     else Inr ((sint addr sdiv stripBytes) smod sint (stripWidth f)))"

definition maxSizeOf :: "uint32 \<Rightarrow> int result" where
  "maxSizeOf addr =
    (if sint addr + stripBytes > 2147483647 then Inl SignedOverflow
     else Inr ((sint addr + stripBytes) sdiv stripBytes * stripBytes))"

definition fileOffset :: "uint32 \<Rightarrow> FSFile \<Rightarrow> uint32" where
  "fileOffset addr f =
    (let stripeIndex = word_of_int (sint addr sdiv stripBytes) :: uint32;
         width = stripWidth f;
         off = ((stripeIndex - stripeIndex mod width) div width) * (width - 1) * word_of_int stripBytes
     in off + (stripeIndex mod width) * word_of_int stripBytes)"

definition seekOf :: "uint32 \<Rightarrow> FSFile \<Rightarrow> nat" where
  "seekOf addr f = unat (addr - fileOffset addr f)"

section \<open>The block handlers\<close>

text \<open>
  The reply's data is the second component. On the path for an unknown name the code returns
  without unlocking the mutex.
\<close>

definition ReadBlock ::
  "(nat \<Rightarrow> uint8) \<Rightarrow> ReadBlockRequest \<Rightarrow> FileServer \<Rightarrow> (Status \<times> uint8 list \<times> FileServer) result" where
  "ReadBlock junk request s =
    (if lockHeld s then Inl Blocked
     else case fs_files s (rb_name request) of
       None \<Rightarrow> Inr (Status_CANCELLED, [], s\<lparr>lockHeld := True\<rparr>)
     | Some file \<Rightarrow>
         bindR (stripOf (rb_addr request) file) (\<lambda>strip.
         bindR (maxSizeOf (rb_addr request)) (\<lambda>maxSize.
           let stripPath = getStripPath strip file
           in if stripPath = [] then Inr (Status_CANCELLED, [], s)
              else if sint (rb_addr request) + int pfsBlockSizeInBytes > maxSize
                   then Inr (Status_CANCELLED, [], s)
              else case disk s stripPath of
                     None \<Rightarrow> Inr (Status_CANCELLED, [], s)
                   | Some content \<Rightarrow>
                       Inr (Status_OK,
                            fread_at (seekOf (rb_addr request) file) pfsBlockSizeInBytes content junk,
                            s))))"

fun writeDirty ::
  "uint8 list \<Rightarrow> uint8 list \<Rightarrow> nat list \<Rightarrow> nat \<Rightarrow> uint8 list \<Rightarrow> uint8 list result"
where
  "writeDirty data dirty [] pos content = Inr content"
| "writeDirty data dirty (i # is) pos content =
     bindR (str_at dirty i) (\<lambda>d.
       if d \<noteq> 0
       then bindR (str_at data i) (\<lambda>b.
              writeDirty data dirty is (pos + 1) (fwrite_at pos [b] content))
       else writeDirty data dirty is (pos + 1) content)"

definition WriteBlock :: "WriteBlockRequest \<Rightarrow> FileServer \<Rightarrow> (Status \<times> FileServer) result" where
  "WriteBlock request s =
    (if lockHeld s then Inl Blocked
     else case fs_files s (wb_name request) of
       None \<Rightarrow> Inr (Status_CANCELLED, s\<lparr>lockHeld := True\<rparr>)
     | Some file \<Rightarrow>
         bindR (stripOf (wb_addr request) file) (\<lambda>strip.
         bindR (maxSizeOf (wb_addr request)) (\<lambda>maxSize.
           let stripPath = getStripPath strip file
           in if stripPath = [] then Inr (Status_CANCELLED, s)
              else if sint (wb_addr request) + int pfsBlockSizeInBytes > maxSize
                   then Inr (Status_CANCELLED, s)
              else case disk s stripPath of
                     None \<Rightarrow> Inl NullDeref
                   | Some content \<Rightarrow>
                       bindR (writeDirty (wb_data request) (wb_dirty request)
                                [0..<pfsBlockSizeInBytes] (seekOf (wb_addr request) file) content)
                         (\<lambda>content'.
                           Inr (Status_OK, s\<lparr>disk := (disk s)(stripPath \<mapsto> content')\<rparr>)))))"

section \<open>The byte-range handlers\<close>

text \<open>
  \<^verbatim>\<open>ReadFile\<close> and \<^verbatim>\<open>WriteFile\<close>, which the client library no longer calls. \<^verbatim>\<open>start + size\<close> is
  an \<^verbatim>\<open>int\<close> sum in the first and an unsigned 64-bit sum in the second; a negative size makes
  \<^verbatim>\<open>new char[]\<close> throw.
\<close>

definition ReadFile ::
  "(nat \<Rightarrow> uint8) \<Rightarrow> ReadFileRequest \<Rightarrow> FileServer \<Rightarrow> (Status \<times> uint8 list \<times> FileServer) result" where
  "ReadFile junk request s =
    (if lockHeld s then Inl Blocked
     else case fs_files s (rf_name request) of
       None \<Rightarrow> Inr (Status_CANCELLED, [], s\<lparr>lockHeld := True\<rparr>)
     | Some file \<Rightarrow>
         bindR (stripOf (rf_start request) file) (\<lambda>strip.
         bindR (maxSizeOf (rf_start request)) (\<lambda>maxSize.
           let stripPath = getStripPath strip file;
               top = sint (rf_start request) + sint (rf_size request)
           in if top > 2147483647 \<or> top < -2147483648 then Inl SignedOverflow
              else if stripPath = [] then Inr (Status_CANCELLED, [], s)
              else if top > maxSize then Inr (Status_CANCELLED, [], s)
              else case disk s stripPath of
                     None \<Rightarrow> Inr (Status_CANCELLED, [], s)
                   | Some content \<Rightarrow>
                       if sint (rf_size request) < 0 then Inl UncaughtException
                       else Inr (Status_OK,
                            fread_at (seekOf (rf_start request) file) (unat (rf_size request))
                              content junk, s))))"

definition WriteFile :: "WriteFileRequest \<Rightarrow> FileServer \<Rightarrow> (Status \<times> FileServer) result" where
  "WriteFile request s =
    (if lockHeld s then Inl Blocked
     else case fs_files s (wf_name request) of
       None \<Rightarrow> Inr (Status_CANCELLED, s\<lparr>lockHeld := True\<rparr>)
     | Some file \<Rightarrow>
         bindR (stripOf (wf_start request) file) (\<lambda>strip.
         bindR (maxSizeOf (wf_start request)) (\<lambda>maxSize.
           let stripPath = getStripPath strip file
           in if sint (wf_start request) + int (length (wf_data request)) > 2147483647
              then Inl SignedOverflow
              else if stripPath = [] then Inr (Status_CANCELLED, s)
              else if (scast (wf_start request) :: uint64) + word_of_nat (length (wf_data request))
                        > word_of_int maxSize
                   then Inr (Status_CANCELLED, s)
              else case disk s stripPath of
                     None \<Rightarrow> Inl NullDeref
                   | Some content \<Rightarrow>
                       Inr (Status_OK, s\<lparr>disk := (disk s)(stripPath \<mapsto>
                         fwrite_at (seekOf (wf_start request) file) (wf_data request) content)\<rparr>))))"

end
