(* ===== verification/FS_Locate.thy ===== *)
theory FS_Locate
  imports File_Server
begin

text \<open>
  Where a file server keeps a byte. The machine arithmetic of \<^verbatim>\<open>strip\<close>, \<^verbatim>\<open>maxSize\<close> and
  \<^verbatim>\<open>fileOffset\<close> is related to division on natural numbers, stripe paths are shown to be
  distinct, and the loop of \<^verbatim>\<open>WriteBlock\<close> is described byte by byte.
\<close>

section \<open>Strip, offset and limit as natural numbers\<close>

lemma stripBytes [simp]: "stripBytes = 1024"
  by (simp add: stripBytes_def STRIP_SIZE_def)

lemma sdiv_nonneg: "0 \<le> a \<Longrightarrow> 0 < b \<Longrightarrow> a sdiv b = a div (b::int)"
  by (cases "a = 0") (auto simp: signed_divide_int_def sgn_mult)

lemma smod_nonneg: "0 \<le> a \<Longrightarrow> 0 < b \<Longrightarrow> a smod b = a mod (b::int)"
  by (cases "a = 0") (auto simp: signed_modulo_int_def sgn_mult)

lemma sint_unat: "x \<le> INT_MAX \<Longrightarrow> sint (x::uint32) = int (unat x)"
  by (simp add: sint_small)

lemma INT_MAX_unat: "x \<le> INT_MAX \<longleftrightarrow> unat (x::uint32) \<le> 2147483647"
  by (simp add: word_le_nat_alt INT_MAX_def)

lemma sdiv_block: "x \<le> INT_MAX \<Longrightarrow> sint (x::uint32) sdiv stripBytes = int (unat x div 1024)"
  by (simp only: sint_unat sdiv_nonneg stripBytes of_nat_0_le_iff zdiv_int of_nat_numeral)

lemma stripOf_eq:
  assumes "addr \<le> INT_MAX" "stripWidth f \<le> INT_MAX" "stripWidth f \<noteq> 0"
  shows "stripOf addr f = Inr (int (unat addr div 1024 mod unat (stripWidth f)))"
proof -
  have "0 < int (unat (stripWidth f))"
    using assms(3) by (metis unat_gt_0 of_nat_0_less_iff)
  then have "int (unat addr div 1024) smod int (unat (stripWidth f)) =
      int (unat addr div 1024 mod unat (stripWidth f))"
    by (simp only: smod_nonneg of_nat_0_le_iff zmod_int)
  then show ?thesis
    using assms(3) by (simp only: stripOf_def sdiv_block [OF assms(1)] sint_unat [OF assms(2)] if_False)
qed

lemma seekOf_eq:
  assumes "addr \<le> INT_MAX" "stripWidth f \<noteq> 0"
  shows "seekOf addr f = unat addr div 1024 div unat (stripWidth f) * 1024 + unat addr mod 1024"
proof -
  define A where "A = unat addr"
  define W where "W = unat (stripWidth f)"
  define si where "si = A div 1024"
  define q where "q = si div W"
  define r where "r = si mod W"
  have W: "0 < W" using assms(2) by (simp add: W_def unat_gt_0)
  have A: "A < 2 ^ 32" unfolding A_def using unsigned_less [where 'a = nat and w = addr] by simp
  have si: "si = q * W + r" unfolding q_def r_def by simp
  have Asi: "A = si * 1024 + A mod 1024" unfolding si_def by simp
  have addr: "addr = word_of_nat A" "stripWidth f = word_of_nat W" by (simp_all add: A_def W_def)
  have siw: "word_of_int (sint addr sdiv stripBytes) = (word_of_nat si :: uint32)"
    by (simp only: sdiv_block [OF assms(1)] si_def A_def of_int_of_nat_eq)
  have sil: "si < 2 ^ 32" using A unfolding si_def by simp
  have usi: "unat (word_of_nat si :: uint32) = si" using sil by (simp add: unat_of_nat)
  have ur: "unat (word_of_nat r :: uint32) = r" using sil si by (simp add: unat_of_nat)
  have uq: "unat (word_of_nat q :: uint32) = q"
    using le_less_trans [OF div_le_dividend sil] unfolding q_def by (simp add: unat_of_nat)
  have rw: "(word_of_nat si :: uint32) mod stripWidth f = word_of_nat r"
    by (rule word_unat_eq_iff [THEN iffD2]) (simp only: unat_mod_distrib usi ur, simp add: r_def W_def)
  have rs: "(word_of_nat r :: uint32) \<le> word_of_nat si"
    unfolding word_le_nat_alt usi ur by (simp add: r_def)
  have "unat ((word_of_nat si :: uint32) - word_of_nat r) = q * W"
    unfolding unat_sub [OF rs] usi ur by (simp add: si)
  then have qw: "((word_of_nat si :: uint32) - word_of_nat r) div stripWidth f = word_of_nat q"
    using W by (intro word_unat_eq_iff [THEN iffD2]) (simp add: unat_div_distrib uq flip: W_def)
  have "addr - fileOffset addr f = word_of_nat (q * 1024 + A mod 1024)"
  proof -
    have "addr = (word_of_nat q * word_of_nat W + word_of_nat r) * 1024 + word_of_nat (A mod 1024)"
      using addr(1) Asi si by (metis of_nat_add of_nat_mult of_nat_numeral)
    then show ?thesis
      unfolding fileOffset_def Let_def siw rw qw unfolding addr(2) by (simp add: algebra_simps)
  qed
  then have "seekOf addr f = (q * 1024 + A mod 1024) mod 2 ^ LENGTH(32)"
    by (simp only: seekOf_def unat_of_nat)
  moreover have "q * 1024 + A mod 1024 < 2 ^ 32"
  proof -
    have "q \<le> si" unfolding q_def by simp
    then show ?thesis using Asi A by linarith
  qed
  ultimately show ?thesis
    by (simp add: q_def si_def A_def W_def)
qed

lemma maxSizeOf_eq:
  assumes "unat addr + 1024 \<le> 2147483647"
  shows "maxSizeOf addr = Inr (int (unat addr div 1024 * 1024 + 1024))"
proof -
  have s: "sint addr = int (unat addr)" using assms by (intro sint_unat) (simp add: INT_MAX_unat)
  have sum: "int (unat addr) + 1024 = int (unat addr + 1024)" by simp
  have "int (unat addr + 1024) sdiv 1024 = int ((unat addr + 1024) div 1024)"
    by (simp only: sdiv_nonneg zdiv_int of_nat_0_le_iff of_nat_numeral)
  moreover have "(unat addr + 1024) div 1024 = unat addr div 1024 + 1" by (rule div_add_self2) simp
  moreover have "\<not> int (unat addr + 1024) > 2147483647" using assms by linarith
  ultimately show ?thesis unfolding maxSizeOf_def s stripBytes sum by simp
qed

section \<open>Stripe paths\<close>

lemma to_string_digits: "\<forall>c\<in>set (to_string n). c \<noteq> CHR ''_''"
proof (induction n rule: to_string.induct)
  case (1 n)
  have "(char_of (48 + k) :: char) \<noteq> CHR ''_''" if "k < 10" for k :: nat
  proof
    assume "(char_of (48 + k) :: char) = CHR ''_''"
    then have "of_char (char_of (48 + k) :: char) = (of_char (CHR ''_'') :: nat)" by simp
    then show False using that by simp
  qed
  then show ?case using 1 by (subst to_string.simps) auto
qed

definition parse_nat :: "string \<Rightarrow> nat" where
  "parse_nat ds = foldl (\<lambda>a c. a * 10 + (of_char c - 48)) 0 ds"

lemma parse_to_string: "parse_nat (to_string n) = n"
proof (induction n rule: to_string.induct)
  case (1 n)
  then show ?case by (subst to_string.simps) (auto simp: parse_nat_def)
qed

lemma to_string_inj: "to_string m = to_string n \<Longrightarrow> m = n"
  by (metis parse_to_string)

lemma split_last_sep:
  assumes "a @ x # b = a' @ x # b'" "x \<notin> set b" "x \<notin> set b'"
  shows "a = a' \<and> b = b'"
proof -
  have "takeWhile (\<lambda>c. c \<noteq> x) (rev (a @ x # b)) = takeWhile (\<lambda>c. c \<noteq> x) (rev (a' @ x # b'))"
    using assms(1) by simp
  moreover have "takeWhile (\<lambda>c. c \<noteq> x) (rev b @ x # r) = rev b" if "x \<notin> set b" for b r
    using that by (subst takeWhile_append2) auto
  ultimately have "b = b'" using assms(2,3) by simp
  with assms(1) show ?thesis by simp
qed

lemma stripeAddress_inj:
  assumes "stripeAddress d n i = stripeAddress d n' i'"
  shows "n = n' \<and> i = i'"
proof -
  have "n @ CHR ''_'' # to_string (unat i) = n' @ CHR ''_'' # to_string (unat i')"
    using assms by (simp add: stripeAddress_def)
  then have "n = n' \<and> to_string (unat i) = to_string (unat i')"
    by (rule split_last_sep) (use to_string_digits in blast)+
  then show ?thesis using to_string_inj [of "unat i" "unat i'"] by (simp add: word_unat_eq_iff)
qed

section \<open>Strip contents\<close>

definition byte_at :: "uint8 list \<Rightarrow> nat \<Rightarrow> uint8" where
  "byte_at content pos = (if pos < length content then content ! pos else 0)"

lemma fwrite_at_byte:
  "byte_at (fwrite_at p bs c) i = (if p \<le> i \<and> i < p + length bs then bs ! (i - p) else byte_at c i)"
  by (cases "p \<le> length c") (auto simp: byte_at_def fwrite_at_def nth_append)

lemma fwrite_at_length: "length (fwrite_at p bs c) = (if bs = [] then length c else max (length c) (p + length bs))"
  by (auto simp: fwrite_at_def)

definition dirtyAt :: "uint8 list \<Rightarrow> nat \<Rightarrow> bool" where
  "dirtyAt dirty i \<longleftrightarrow> i < length dirty \<and> dirty ! i \<noteq> 0"

lemma writeDirty_returns:
  assumes "length dirty = n" "length data = n" "set is \<subseteq> {..<n}"
  shows "\<exists>c'. writeDirty data dirty is pos c = Inr c'"
  using assms(3)
proof (induction "is" arbitrary: pos c)
  case (Cons i "is")
  then show ?case using assms by (auto simp: str_at_def)
qed simp

lemma writeDirty_byte:
  assumes "writeDirty data dirty [a..<b] (base + a) c = Inr c'" "a \<le> b" "b \<le> length dirty" "b \<le> length data"
  shows "byte_at c' k = (if base + a \<le> k \<and> k < base + b \<and> dirtyAt dirty (k - base) then data ! (k - base) else byte_at c k)"
    and "length c \<le> length c'"
    and "\<And>i. a \<le> i \<Longrightarrow> i < b \<Longrightarrow> dirtyAt dirty i \<Longrightarrow> base + i < length c'"
proof -
  have "(byte_at c' k = (if base + a \<le> k \<and> k < base + b \<and> dirtyAt dirty (k - base) then data ! (k - base) else byte_at c k))
    \<and> length c \<le> length c' \<and> (\<forall>i. a \<le> i \<longrightarrow> i < b \<longrightarrow> dirtyAt dirty i \<longrightarrow> base + i < length c')"
    using assms
  proof (induction "b - a" arbitrary: a c)
    case 0
    then show ?case by auto
  next
    case (Suc n)
    then have ab: "a < b" by simp
    define c1 where "c1 = (if dirtyAt dirty a then fwrite_at (base + a) [data ! a] c else c)"
    have r: "writeDirty data dirty [Suc a..<b] (base + Suc a) c1 = Inr c'"
      using Suc.prems ab by (auto simp: upt_rec [of a] str_at_def dirtyAt_def c1_def split: if_splits)
    have IH: "byte_at c' k = (if base + Suc a \<le> k \<and> k < base + b \<and> dirtyAt dirty (k - base)
        then data ! (k - base) else byte_at c1 k)" "length c1 \<le> length c'"
      "\<And>i. Suc a \<le> i \<Longrightarrow> i < b \<Longrightarrow> dirtyAt dirty i \<Longrightarrow> base + i < length c'"
      using Suc.hyps(1) [OF _ r] Suc.hyps(2) Suc.prems ab by auto
    have c1: "byte_at c1 k = (if k = base + a \<and> dirtyAt dirty a then data ! a else byte_at c k)"
      "length c \<le> length c1" "dirtyAt dirty a \<Longrightarrow> base + a < length c1"
      by (auto simp: c1_def fwrite_at_byte fwrite_at_length)
    have "base + i < length c'" if "a \<le> i" "i < b" "dirtyAt dirty i" for i
      using that c1(3) IH(2) IH(3) [of i] by (cases "i = a") auto
    moreover have "byte_at c' k = (if base + a \<le> k \<and> k < base + b \<and> dirtyAt dirty (k - base) then data ! (k - base) else byte_at c k)"
      using IH(1) c1(1) ab by (cases "k = base + a") auto
    ultimately show ?case using c1(2) IH(2) by auto
  qed
  then show "byte_at c' k = (if base + a \<le> k \<and> k < base + b \<and> dirtyAt dirty (k - base) then data ! (k - base) else byte_at c k)"
    and "length c \<le> length c'"
    and "\<And>i. a \<le> i \<Longrightarrow> i < b \<Longrightarrow> dirtyAt dirty i \<Longrightarrow> base + i < length c'" by auto
qed

end
