(* ===== verification/FS_Store.thy ===== *)
theory FS_Store
  imports FS_Locate
begin

text \<open>
  What a file server stores, as a function from file name and byte address to byte, and the
  effect of the block handlers on it. \<open>fs_has\<close> tells that the byte lies inside its strip
  file: only then does \<^verbatim>\<open>ReadBlock\<close> return it. The theory ends with the contract of a block store
  as a locale, interpreted on \<^verbatim>\<open>WriteBlock\<close>.
\<close>

section \<open>What a server stores\<close>

definition fs_inv :: "FileServer \<Rightarrow> bool" where
  "fs_inv s \<longleftrightarrow> (\<forall>n f i p. fs_files s n = Some f \<longrightarrow> stripPaths f i = Some p \<longrightarrow>
     (\<exists>sid. i = sint sid \<and> p = stripeAddress (filesDirectory s) n sid) \<and> disk s p \<noteq> None)"

definition stripAt :: "nat \<Rightarrow> FSFile \<Rightarrow> int" where
  "stripAt a f = int (a div 1024 mod unat (stripWidth f))"

definition posAt :: "nat \<Rightarrow> FSFile \<Rightarrow> nat" where
  "posAt a f = a div 1024 div unat (stripWidth f) * 1024 + a mod 1024"

definition fs_content :: "FileServer \<Rightarrow> string \<Rightarrow> nat \<Rightarrow> uint8 list" where
  "fs_content s n a =
    (case fs_files s n of None \<Rightarrow> []
     | Some f \<Rightarrow> (case stripPaths f (stripAt a f) of None \<Rightarrow> []
        | Some p \<Rightarrow> (case disk s p of None \<Rightarrow> [] | Some c \<Rightarrow> c)))"

definition fs_pos :: "FileServer \<Rightarrow> string \<Rightarrow> nat \<Rightarrow> nat" where
  "fs_pos s n a = (case fs_files s n of None \<Rightarrow> 0 | Some f \<Rightarrow> posAt a f)"

definition fs_byte :: "FileServer \<Rightarrow> string \<Rightarrow> nat \<Rightarrow> uint8" where
  "fs_byte s n a = byte_at (fs_content s n a) (fs_pos s n a)"

definition fs_has :: "FileServer \<Rightarrow> string \<Rightarrow> nat \<Rightarrow> bool" where
  "fs_has s n a \<longleftrightarrow> fs_pos s n a < length (fs_content s n a)"

definition serves :: "FileServer \<Rightarrow> string \<Rightarrow> nat \<Rightarrow> bool" where
  "serves s n a \<longleftrightarrow> \<not> lockHeld s \<and>
    (case fs_files s n of None \<Rightarrow> False
     | Some f \<Rightarrow> stripWidth f \<noteq> 0 \<and> stripWidth f \<le> INT_MAX \<and> stripPaths f (stripAt a f) \<noteq> None)"

definition block_addr :: "uint32 \<Rightarrow> bool" where
  "block_addr addr \<longleftrightarrow> unat addr mod 1024 = 0 \<and> unat addr + 1024 \<le> 2147483647"

lemma stripeAddress_nonempty [simp]: "stripeAddress d n i \<noteq> []"
  by (simp add: stripeAddress_def)

lemma serves_locate:
  assumes "serves s n (unat addr)" "fs_inv s" "unat addr + 1024 \<le> 2147483647"
  obtains f p c where "fs_files s n = Some f" "stripPaths f (stripAt (unat addr) f) = Some p"
    "disk s p = Some c" "stripOf addr f = Inr (stripAt (unat addr) f)"
    "getStripPath (stripAt (unat addr) f) f = p" "p \<noteq> []"
    "seekOf addr f = posAt (unat addr) f" "stripWidth f \<noteq> 0" "\<not> lockHeld s"
proof -
  from assms(1) obtain f p where f: "fs_files s n = Some f" "stripPaths f (stripAt (unat addr) f) = Some p"
    "stripWidth f \<noteq> 0" "stripWidth f \<le> INT_MAX" "\<not> lockHeld s"
    by (auto simp: serves_def split: option.splits)
  then obtain sid c where "p = stripeAddress (filesDirectory s) n sid" "disk s p = Some c"
    using assms(2) unfolding fs_inv_def by blast
  moreover have "addr \<le> INT_MAX" using assms(3) by (simp add: INT_MAX_unat)
  ultimately show thesis
    using that [of f p c] f stripOf_eq [of addr f] seekOf_eq [of addr f]
    by (simp add: stripAt_def posAt_def getStripPath_def)
qed

lemma posAt_block: "i < 1024 \<Longrightarrow> a mod 1024 = 0 \<Longrightarrow> posAt (a + i) f = posAt a f + i"
  and stripAt_block: "i < 1024 \<Longrightarrow> a mod 1024 = 0 \<Longrightarrow> stripAt (a + i) f = stripAt a f"
  by (auto simp: posAt_def stripAt_def elim!: dvdE simp flip: dvd_eq_mod_eq_0)

lemma ReadBlock_serves:
  assumes "serves s n (unat addr)" "fs_inv s" "block_addr addr"
  shows "ReadBlock junk \<lparr>rb_name = n, rb_addr = addr\<rparr> s =
    Inr (Status_OK, map (\<lambda>i. if fs_has s n (unat addr + i) then fs_byte s n (unat addr + i) else junk i) [0..<1024], s)"
proof -
  have b: "unat addr + 1024 \<le> 2147483647" "unat addr mod 1024 = 0"
    using assms(3) by (simp_all add: block_addr_def)
  from assms(1,2) b(1) obtain f p c where l: "fs_files s n = Some f" "stripPaths f (stripAt (unat addr) f) = Some p"
    "disk s p = Some c" "stripOf addr f = Inr (stripAt (unat addr) f)"
    "getStripPath (stripAt (unat addr) f) f = p" "p \<noteq> []"
    "seekOf addr f = posAt (unat addr) f" "\<not> lockHeld s" by (rule serves_locate)
  have "unat addr div 1024 * 1024 = unat addr" using b(2) by auto
  then have m: "maxSizeOf addr = Inr (int (unat addr + 1024))" using maxSizeOf_eq [OF b(1)] by simp
  have sa: "sint addr = int (unat addr)" using b by (intro sint_unat) (simp add: INT_MAX_unat)
  have "fs_has s n (unat addr + i) \<longleftrightarrow> posAt (unat addr) f + i < length c"
    "fs_byte s n (unat addr + i) = byte_at c (posAt (unat addr) f + i)" if "i < 1024" for i
    using that b(2) l by (simp_all add: fs_has_def fs_byte_def fs_pos_def fs_content_def posAt_block stripAt_block)
  then have "fread_at (seekOf addr f) 1024 c junk =
      map (\<lambda>i. if fs_has s n (unat addr + i) then fs_byte s n (unat addr + i) else junk i) [0..<1024]"
    unfolding fread_at_def l(7) by (auto simp: byte_at_def)
  then show ?thesis
    unfolding ReadBlock_def using l m by (simp add: sa)
qed

lemma WriteBlock_serves:
  assumes "serves s n (unat addr)" "fs_inv s" "block_addr addr"
    and len: "length data = 1024" "length dirty = 1024"
  obtains f p c c' where "fs_files s n = Some f" "stripPaths f (stripAt (unat addr) f) = Some p"
    "disk s p = Some c" 
    "writeDirty data dirty [0..<1024] (posAt (unat addr) f) c = Inr c'" "stripWidth f \<noteq> 0"
    "WriteBlock \<lparr>wb_name = n, wb_addr = addr, wb_data = data, wb_dirty = dirty\<rparr> s =
      Inr (Status_OK, s\<lparr>disk := (disk s)(p \<mapsto> c')\<rparr>)"
proof -
  have b: "unat addr + 1024 \<le> 2147483647" "unat addr mod 1024 = 0"
    using assms(3) by (simp_all add: block_addr_def)
  from assms(1,2) b(1) obtain f p c where l: "fs_files s n = Some f" "stripPaths f (stripAt (unat addr) f) = Some p"
    "disk s p = Some c" "stripOf addr f = Inr (stripAt (unat addr) f)"
    "getStripPath (stripAt (unat addr) f) f = p" "p \<noteq> []"
    "seekOf addr f = posAt (unat addr) f" "stripWidth f \<noteq> 0" "\<not> lockHeld s" by (rule serves_locate)
  have "unat addr div 1024 * 1024 = unat addr" using b(2) by auto
  then have m: "maxSizeOf addr = Inr (int (unat addr + 1024))" using maxSizeOf_eq [OF b(1)] by simp
  have sa: "sint addr = int (unat addr)" using b by (intro sint_unat) (simp add: INT_MAX_unat)
  obtain c' where c': "writeDirty data dirty [0..<1024] (posAt (unat addr) f) c = Inr c'"
    using writeDirty_returns [OF len(2,1), of "[0..<1024]"] by (auto simp: atLeast0LessThan)
  show thesis
    by (rule that [OF l(1-3) c' l(8)]) (use l m c' in \<open>simp add: WriteBlock_def sa\<close>)
qed

lemma strip_path_inj:
  assumes "fs_inv s" "fs_files s n = Some f" "fs_files s n' = Some f'"
    "stripPaths f i = Some p" "stripPaths f' i' = Some p"
  shows "n = n' \<and> i = i'"
  using assms stripeAddress_inj unfolding fs_inv_def by metis

lemma posAt_range:
  assumes "stripAt a f = stripAt b f" "b mod 1024 = 0" "stripWidth f \<noteq> 0"
  shows "posAt b f \<le> posAt a f \<and> posAt a f < posAt b f + 1024 \<longleftrightarrow> a div 1024 = b div 1024"
proof
  assume p: "posAt b f \<le> posAt a f \<and> posAt a f < posAt b f + 1024"
  have q: "q = q'" if "q' * 1024 \<le> q * 1024 + m" "q * 1024 + m < q' * 1024 + 1024" "m < 1024"
    for q q' m :: nat using that by linarith
  have "a div 1024 div unat (stripWidth f) = b div 1024 div unat (stripWidth f)"
    by (rule q [of _ _ "a mod 1024"]) (use p assms(2) in \<open>simp_all add: posAt_def\<close>)
  moreover have "a div 1024 mod unat (stripWidth f) = b div 1024 mod unat (stripWidth f)"
    using assms(1) by (simp add: stripAt_def)
  ultimately show "a div 1024 = b div 1024" by (metis div_mult_mod_eq)
next
  assume "a div 1024 = b div 1024"
  then show "posAt b f \<le> posAt a f \<and> posAt a f < posAt b f + 1024"
    using assms(2) by (simp add: posAt_def)
qed

definition setBytes :: "WriteBlockRequest \<Rightarrow> string \<times> nat \<Rightarrow> uint8 option" where
  "setBytes r na =
    (if fst na = wb_name r \<and> snd na div 1024 = unat (wb_addr r) div 1024 \<and>
        dirtyAt (wb_dirty r) (snd na mod 1024)
     then Some (wb_data r ! (snd na mod 1024)) else None)"

definition good_write :: "WriteBlockRequest \<Rightarrow> FileServer \<Rightarrow> bool" where
  "good_write r s \<longleftrightarrow> fs_inv s \<and> serves s (wb_name r) (unat (wb_addr r)) \<and> block_addr (wb_addr r) \<and>
     length (wb_data r) = 1024 \<and> length (wb_dirty r) = 1024"

lemma good_write_disk:
  assumes "good_write r s"
  obtains f p c c' where "fs_files s (wb_name r) = Some f"
    "stripPaths f (stripAt (unat (wb_addr r)) f) = Some p" "disk s p = Some c"
    "writeDirty (wb_data r) (wb_dirty r) [0..<1024] (posAt (unat (wb_addr r)) f) c = Inr c'"
    "stripWidth f \<noteq> 0" "WriteBlock r s = Inr (Status_OK, s\<lparr>disk := (disk s)(p \<mapsto> c')\<rparr>)"
proof -
  have g: "serves s (wb_name r) (unat (wb_addr r))" "fs_inv s" "block_addr (wb_addr r)"
    "length (wb_data r) = 1024" "length (wb_dirty r) = 1024"
    using assms by (simp_all add: good_write_def)
  have r: "\<lparr>wb_name = wb_name r, wb_addr = wb_addr r, wb_data = wb_data r, wb_dirty = wb_dirty r\<rparr> = r"
    by (cases r) simp
  show thesis using that by (rule WriteBlock_serves [OF g, unfolded r])
qed

lemma fs_inv_disk:
  assumes "fs_inv s" "disk s p \<noteq> None"
  shows "fs_inv (s\<lparr>disk := (disk s)(p \<mapsto> c)\<rparr>)"
  using assms unfolding fs_inv_def by auto

lemma serves_disk [simp]: "serves (s\<lparr>disk := d\<rparr>) n a = serves s n a"
  by (simp add: serves_def)

lemma WriteBlock_view:
  assumes g: "good_write r s" and w: "WriteBlock r s = Inr (st, s')"
  shows "fs_byte s' n a = (case setBytes r (n, a) of Some v \<Rightarrow> v | None \<Rightarrow> fs_byte s n a)"
proof -
  obtain f p c c' where l: "fs_files s (wb_name r) = Some f"
    "stripPaths f (stripAt (unat (wb_addr r)) f) = Some p" "disk s p = Some c"
    and wd: "writeDirty (wb_data r) (wb_dirty r) [0..<1024] (posAt (unat (wb_addr r)) f) c = Inr c'"
    and W: "stripWidth f \<noteq> 0" and s': "WriteBlock r s = Inr (Status_OK, s\<lparr>disk := (disk s)(p \<mapsto> c')\<rparr>)"
    using g by (rule good_write_disk)
  have sd: "s' = s\<lparr>disk := (disk s)(p \<mapsto> c')\<rparr>" using w s' by simp
  have b: "unat (wb_addr r) mod 1024 = 0" "length (wb_data r) = 1024" "length (wb_dirty r) = 1024"
    and inv: "fs_inv s"
    using g by (simp_all add: good_write_def block_addr_def)
  show ?thesis
  proof (cases "\<exists>g. fs_files s n = Some g \<and> stripPaths g (stripAt a g) = Some p")
    case True
    then have n: "n = wb_name r" "stripAt a f = stripAt (unat (wb_addr r)) f"
      using strip_path_inj [OF inv _ l(1) _ l(2)] l(1) by auto
    have v: "fs_byte s n a = byte_at c (posAt a f)" "fs_byte s' n a = byte_at c' (posAt a f)"
      using l n by (simp_all add: fs_byte_def fs_content_def fs_pos_def sd)
    have "posAt a f - posAt (unat (wb_addr r)) f = a mod 1024" if "a div 1024 = unat (wb_addr r) div 1024"
      using that b(1) by (simp add: posAt_def)
    then show ?thesis
      using writeDirty_byte(1) [of "wb_data r" "wb_dirty r" 0 1024 "posAt (unat (wb_addr r)) f" c c' "posAt a f"]
        posAt_range [OF n(2) b(1) W] b wd n(1)
      unfolding v by (auto simp: setBytes_def)
  next
    case False
    have "fs_content s' n a = fs_content s n a" "fs_pos s' n a = fs_pos s n a"
      using False by (auto simp: fs_content_def fs_pos_def sd split: option.splits)
    moreover have "setBytes r (n, a) = None"
      using False l(1,2) b(1) by (auto simp: setBytes_def stripAt_def)
    ultimately show ?thesis by (simp add: fs_byte_def)
  qed
qed

lemma WriteBlock_present:
  assumes g: "good_write r s" and w: "WriteBlock r s = Inr (st, s')"
  shows "setBytes r (n, a) \<noteq> None \<Longrightarrow> fs_has s' n a" "fs_has s n a \<Longrightarrow> fs_has s' n a"
proof -
  obtain f p c c' where l: "fs_files s (wb_name r) = Some f"
    "stripPaths f (stripAt (unat (wb_addr r)) f) = Some p" "disk s p = Some c"
    and wd: "writeDirty (wb_data r) (wb_dirty r) [0..<1024] (posAt (unat (wb_addr r)) f) c = Inr c'"
    and W: "stripWidth f \<noteq> 0" and s': "WriteBlock r s = Inr (Status_OK, s\<lparr>disk := (disk s)(p \<mapsto> c')\<rparr>)"
    using g by (rule good_write_disk)
  have sd: "s' = s\<lparr>disk := (disk s)(p \<mapsto> c')\<rparr>" using w s' by simp
  have b: "unat (wb_addr r) mod 1024 = 0" "length (wb_data r) = 1024" "length (wb_dirty r) = 1024"
    using g by (simp_all add: good_write_def block_addr_def)
  note wb = writeDirty_byte(2,3) [of "wb_data r" "wb_dirty r" 0 1024 "posAt (unat (wb_addr r)) f" c c']
  show "fs_has s' n a" if "setBytes r (n, a) \<noteq> None"
  proof -
    from that have n: "n = wb_name r" "a div 1024 = unat (wb_addr r) div 1024" "dirtyAt (wb_dirty r) (a mod 1024)"
      by (auto simp: setBytes_def split: if_splits)
    have "posAt a f = posAt (unat (wb_addr r)) f + a mod 1024" "stripAt a f = stripAt (unat (wb_addr r)) f"
      using n(2) b(1) by (simp_all add: posAt_def stripAt_def)
    then show ?thesis using wb(2) [of "a mod 1024"] wd b n(1,3) l
      by (simp add: fs_has_def fs_content_def fs_pos_def sd)
  qed
  show "fs_has s' n a" if "fs_has s n a"
    using that wb(1) wd b l by (auto simp: fs_has_def fs_content_def fs_pos_def sd split: option.splits)
qed

lemma WriteBlock_frame:
  assumes g: "good_write r s" and w: "WriteBlock r s = Inr (st, s')"
  shows "st = Status_OK" "fs_files s' = fs_files s" "lockHeld s' = lockHeld s" "fs_inv s'"
    "good_write q s \<Longrightarrow> good_write q s'" "serves s' n a = serves s n a"
proof -
  obtain f p c c' where l: "disk s p = Some c"
    and s': "WriteBlock r s = Inr (Status_OK, s\<lparr>disk := (disk s)(p \<mapsto> c')\<rparr>)"
    using g by (rule good_write_disk)
  have i: "fs_inv s'" using g w s' l by (auto simp: good_write_def intro: fs_inv_disk)
  then show "st = Status_OK" "fs_files s' = fs_files s" "lockHeld s' = lockHeld s" "fs_inv s'"
     "good_write q s \<Longrightarrow> good_write q s'" "serves s' n a = serves s n a"
    using w s' by (auto simp: good_write_def)
qed

section \<open>The block store contract\<close>

locale block_store =
  fixes put :: "'b \<Rightarrow> 's \<Rightarrow> 's result"
    and view :: "'s \<Rightarrow> 'a \<Rightarrow> 'v"
    and ok :: "'b \<Rightarrow> 's \<Rightarrow> bool"
    and sets :: "'b \<Rightarrow> 'a \<Rightarrow> 'v option"
  assumes put_ok: "ok b s \<Longrightarrow> \<exists>s'. put b s = Inr s'"
    and put_view: "ok b s \<Longrightarrow> put b s = Inr s' \<Longrightarrow>
      view s' a = (case sets b a of Some v \<Rightarrow> v | None \<Rightarrow> view s a)"
    and put_keeps: "ok b s \<Longrightarrow> put b s = Inr s' \<Longrightarrow> ok c s \<Longrightarrow> ok c s'"
begin

lemma runAll_view:
  assumes "\<forall>b\<in>set bs. ok b s"
  shows "\<exists>s'. runAll put bs s = Inr s' \<and>
    (\<forall>a. view s' a = fold (\<lambda>b v. case sets b a of Some x \<Rightarrow> x | None \<Rightarrow> v) bs (view s a)) \<and>
    (\<forall>c. ok c s \<longrightarrow> ok c s')"
  using assms
proof (induction bs arbitrary: s)
  case (Cons b bs)
  then obtain s1 where s1: "put b s = Inr s1" using put_ok by force
  have "\<forall>c\<in>set bs. ok c s1" using Cons.prems put_keeps [OF _ s1] by simp
  from Cons.IH [OF this] obtain s' where s': "runAll put bs s1 = Inr s'"
    "\<forall>a. view s' a = fold (\<lambda>b v. case sets b a of Some x \<Rightarrow> x | None \<Rightarrow> v) bs (view s1 a)"
    "\<forall>c. ok c s1 \<longrightarrow> ok c s'" by blast
  then show ?case using s1 put_view [OF _ s1] put_keeps [OF _ s1] Cons.prems by simp
qed simp

text \<open>A value that no later write sets is the value read.\<close>

lemma last_write_read:
  assumes "\<forall>b\<in>set (bs @ b # cs). ok b s" "sets b a = Some v" "\<forall>c\<in>set cs. sets c a = None"
  shows "\<exists>s'. runAll put (bs @ b # cs) s = Inr s' \<and> view s' a = v"
proof -
  obtain s' where s': "runAll put (bs @ b # cs) s = Inr s'"
    "view s' a = fold (\<lambda>b v. case sets b a of Some x \<Rightarrow> x | None \<Rightarrow> v) (bs @ b # cs) (view s a)"
    using runAll_view [OF assms(1)] by blast
  have "fold (\<lambda>b v. case sets b a of Some x \<Rightarrow> x | None \<Rightarrow> v) cs v = v"
    using assms(3) by (induction cs) auto
  then show ?thesis using s' assms(2) by simp
qed

end

definition putBlock :: "WriteBlockRequest \<Rightarrow> FileServer \<Rightarrow> FileServer result" where
  "putBlock r s = bindR (WriteBlock r s) (\<lambda>(st, s'). if status_ok st then Inr s' else Inl AssertFail)"

interpretation server: block_store putBlock "\<lambda>s na. fs_byte s (fst na) (snd na)" good_write setBytes
proof unfold_locales
  fix r s s' q and na :: "string \<times> nat"
  assume g: "good_write r s"
  then obtain st s1 where w: "WriteBlock r s = Inr (st, s1)" by (blast elim: good_write_disk)
  then have p: "putBlock r s = Inr s1" using WriteBlock_frame(1) [OF g w] by (simp add: putBlock_def)
  then show "\<exists>s'. putBlock r s = Inr s'" by blast
  assume "putBlock r s = Inr s'"
  then have s': "s' = s1" using p by simp
  show "fs_byte s' (fst na) (snd na) =
      (case setBytes r na of None \<Rightarrow> fs_byte s (fst na) (snd na) | Some v \<Rightarrow> v)"
    using WriteBlock_view [OF g w] unfolding s' by simp
  assume "good_write q s"
  then show "good_write q s'" using WriteBlock_frame(5) [OF g w] s' by simp
qed

end
