(* ===== verification/Client_Address.thy ===== *)
theory Client_Address
  imports PFS_Client FS_Store Cache_Runs
begin

text \<open>
  Byte positions of a file below \<open>LIMIT\<close>, the last position for which the block arithmetic of
  client and file server stays inside 31 bits: the block of a position, the server it is on, and
  the conversions of \<^verbatim>\<open>off_t\<close> values in \<^verbatim>\<open>readFile\<close> and \<^verbatim>\<open>writeFile\<close>.
\<close>

section \<open>Addresses\<close>

definition LIMIT :: nat where
  "LIMIT = 2147482624"

definition blk :: "nat \<Rightarrow> uint32" where
  "blk x = word_of_nat (x div 1024 * 1024)"

lemma unat_blk: "x < LIMIT \<Longrightarrow> unat (blk x) = x div 1024 * 1024"
proof -
  assume "x < LIMIT"
  moreover have "x div 1024 * 1024 \<le> x" by simp
  ultimately have "x div 1024 * 1024 < 2 ^ 32" by (simp add: LIMIT_def)
  then show ?thesis unfolding blk_def unat_of_nat by simp
qed

lemma blk_block: "x < LIMIT \<Longrightarrow> block_addr (blk x)"
proof -
  assume x: "x < LIMIT"
  have "x div 1024 < 2097151" using x unfolding LIMIT_def by (simp add: div_less_iff_less_mult)
  then show ?thesis unfolding block_addr_def unat_blk [OF x] by simp
qed

lemma blk_aligned: "blk x AND 1023 = 0"
  unfolding blk_def by (rule aligned_block)

lemma blk_same: "i < 1024 \<Longrightarrow> block_addr a \<Longrightarrow> blk (unat a + i) = a" "i < 1024 \<Longrightarrow> block_addr a \<Longrightarrow> (unat a + i) mod 1024 = i"
proof -
  assume i: "i < 1024" and a: "block_addr a"
  then have m: "unat a mod 1024 = 0" by (simp add: block_addr_def)
  show "(unat a + i) mod 1024 = i" using m i by (simp add: mod_add_left_eq [symmetric])
  have "(unat a + i) div 1024 * 1024 = unat a" using m i by (auto elim!: dvdE simp flip: dvd_eq_mod_eq_0)
  then show "blk (unat a + i) = a" by (simp add: blk_def)
qed

lemma blk_split: "x < LIMIT \<Longrightarrow> unat (blk x) + x mod 1024 = x"
  by (simp add: unat_blk)

lemma nat_word: "word_of_nat (unat a) = (a::uint32)"
  by simp

lemma block_of_word: "(a::uint32) div 1024 = word_of_nat (unat a div 1024)"
proof -
  have "unat (a div 1024) = unat a div 1024" by (simp add: unat_div_distrib)
  then show ?thesis by (metis nat_word)
qed

lemma within_block: "x mod 1024 + i < 1024 \<Longrightarrow> blk (x + i) = blk x \<and> (x + i) mod 1024 = x mod 1024 + i"
proof -
  assume i: "x mod 1024 + i < 1024"
  have e: "x + i = x mod 1024 + i + x div 1024 * 1024" by simp
  have "(x + i) div 1024 = x div 1024" using i unfolding e by (simp only: div_mult_self3 div_less)
  moreover have "(x + i) mod 1024 = x mod 1024 + i" using i unfolding e by (simp only: mod_mult_self1 mod_less)
  ultimately show ?thesis by (simp add: blk_def)
qed

lemma blockOf_nat: "blockOf (int x) = blk x"
proof -
  have "int x sdiv 1024 = int (x div 1024)" by (simp add: sdiv_nonneg zdiv_int)
  then show ?thesis by (simp add: blockOf_def blk_def)
qed

lemma smod_nat: "int x smod 1024 = int (x mod 1024)"
  by (simp add: smod_nonneg zmod_int)

lemma actualSize_nat: "actualSize (int x) (int n) = int (min (1024 - x mod 1024) n)"
proof -
  have "1024 - int (x mod 1024) = int (1024 - x mod 1024)" by (simp add: of_nat_diff)
  then show ?thesis unfolding actualSize_def block_size of_nat_numeral smod_nat by (simp only: of_nat_min)
qed

lemma word_offset:
  assumes "x < LIMIT"
  shows "(word_of_int (int x) :: uint32) div 1024 * 1024 = blk x"
    "unat ((word_of_int (int x) :: uint32) mod 1024) = x mod 1024"
proof -
  have u: "unat (word_of_nat x :: uint32) = x" using assms unfolding unat_of_nat LIMIT_def by simp
  have "unat ((word_of_nat x :: uint32) div 1024) = x div 1024" by (simp add: unat_div_distrib u)
  moreover have "word_of_nat (unat v) = v" for v :: uint32 by simp
  ultimately have "(word_of_nat x :: uint32) div 1024 = word_of_nat (x div 1024)" by metis
  then show "(word_of_int (int x) :: uint32) div 1024 * 1024 = blk x" by (simp add: blk_def)
  show "unat ((word_of_int (int x) :: uint32) mod 1024) = x mod 1024" by (simp add: unat_mod_distrib u)
qed

lemma fileServerIndex_blk:
  assumes "x < LIMIT" "stripWidth f \<noteq> 0"
  shows "fileServerIndex (blk x) f = Inr (x div 1024 mod unat (stripWidth f) mod 5)"
proof -
  have "unat (blk x div 1024) = x div 1024" by (simp add: unat_div_distrib unat_blk [OF assms(1)])
  then show ?thesis
    using assms(2) by (simp add: fileServerIndex_def NUM_FILE_SERVERS_def STRIP_SIZE_def unat_mod_distrib)
qed

end
