(* ===== verification/Client_Store.thy ===== *)
theory Client_Store
  imports Client_Address
begin

text \<open>
  The data path of a client: cache in front of the file servers. The servers are used through a
  locale with the laws of their block handlers. \<open>coherent\<close> is the refinement relation between
  a cache with its servers and a partial map from file and position to byte: a known byte is in
  the cache, or the cache does not have its block and the servers have it. Reading, writing,
  flushing and evicting are proved against that map once, inside the locale.
\<close>

section \<open>The refinement relation\<close>

text \<open>
  \<open>holds w n W\<close>: the servers have all strips of file \<open>n\<close>, of width \<open>W\<close>. \<open>content w n W x\<close>: the
  byte they store at position \<open>x\<close> of it. The two are parameters here and fixed by the locale below.
\<close>

definition files_ok :: "('w \<Rightarrow> string \<Rightarrow> uint32 \<Rightarrow> bool) \<Rightarrow> 'w \<Rightarrow> ClientFile list \<Rightarrow> bool" where
  "files_ok holds w fs \<longleftrightarrow> (\<forall>f\<in>set fs. holds w (fname f) (stripWidth f)) \<and>
     distinct (map descriptor fs) \<and> distinct (map fname fs)"

definition keys_ok :: "ClientFile list \<Rightarrow> Cache \<Rightarrow> bool" where
  "keys_ok fs c \<longleftrightarrow> (\<forall>k v. cmap c k = Some v \<longrightarrow>
     (\<exists>x<LIMIT. snd k = blk x) \<and> fst k \<in> descriptor ` set fs \<and> length (fst v) = 1024 \<and> length (snd v) = 1024)"

text \<open>The client and the servers agree that byte \<open>x\<close> of file \<open>f\<close> is \<open>b\<close>; \<open>stored\<close> is the servers' byte.\<close>

definition knows :: "ClientFile \<Rightarrow> Cache \<Rightarrow> uint8 option \<Rightarrow> nat \<Rightarrow> uint8 \<Rightarrow> bool" where
  "knows f c stored x b \<longleftrightarrow>
    (case cmap c (descriptor f, blk x) of
       None \<Rightarrow> stored = Some b
     | Some (d, m) \<Rightarrow> d ! (x mod 1024) = b \<and> (m ! (x mod 1024) \<or> stored = Some b))"

definition coherent ::
  "('w \<Rightarrow> string \<Rightarrow> uint32 \<Rightarrow> bool) \<Rightarrow> ('w \<Rightarrow> string \<Rightarrow> uint32 \<Rightarrow> nat \<Rightarrow> uint8 option) \<Rightarrow>
   ClientFile list \<Rightarrow> Cache \<Rightarrow> 'w \<Rightarrow> (string \<Rightarrow> nat \<Rightarrow> uint8 option) \<Rightarrow> bool" where
  "coherent holds content fs c w v \<longleftrightarrow> files_ok holds w fs \<and> keys_ok fs c \<and>
     (\<forall>f\<in>set fs. \<forall>x b. v (fname f) x = Some b \<longrightarrow>
        x < LIMIT \<and> knows f c (content w (fname f) (stripWidth f) x) x b)"

text \<open>The known bytes of one block are all stored on the servers.\<close>

definition settled ::
  "('w \<Rightarrow> string \<Rightarrow> uint32 \<Rightarrow> nat \<Rightarrow> uint8 option) \<Rightarrow> ClientFile list \<Rightarrow>
   (string \<Rightarrow> nat \<Rightarrow> uint8 option) \<Rightarrow> uint32 \<times> uint32 \<Rightarrow> 'w \<Rightarrow> bool" where
  "settled content fs v k w \<longleftrightarrow> (\<forall>f\<in>set fs. descriptor f = fst k \<longrightarrow>
     (\<forall>x b. v (fname f) x = Some b \<longrightarrow> blk x = snd k \<longrightarrow> content w (fname f) (stripWidth f) x = Some b))"

text \<open>The abstract write.\<close>

definition vwrite ::
  "(string \<Rightarrow> nat \<Rightarrow> uint8 option) \<Rightarrow> string \<Rightarrow> nat \<Rightarrow> uint8 list \<Rightarrow> string \<Rightarrow> nat \<Rightarrow> uint8 option" where
  "vwrite v n x bs = (\<lambda>m y. if m = n \<and> x \<le> y \<and> y < x + length bs then Some (bs ! (y - x)) else v m y)"

lemma vwrite_Nil [simp]: "vwrite v n x [] = v"
  by (intro ext) (auto simp: vwrite_def)

lemma vwrite_append: "vwrite (vwrite v n x as) n (x + length as) bs = vwrite v n x (as @ bs)"
  by (intro ext) (auto simp: vwrite_def nth_append)

text \<open>The number of blocks a request touches.\<close>

definition rounds :: "nat \<Rightarrow> nat \<Rightarrow> nat" where
  "rounds x n = (if n = 0 then 0 else (x mod 1024 + n + 1023) div 1024)"

lemma rounds_step:
  assumes "0 < n"
  shows "Suc (rounds (x + min (1024 - x mod 1024) n) (n - min (1024 - x mod 1024) n)) = rounds x n"
proof (cases "n \<le> 1024 - x mod 1024")
  case True
  then have "x mod 1024 + n \<le> 1024" using mod_less_divisor [of 1024 x] by linarith
  then have "(x mod 1024 + n + 1023) div 1024 = 1" using assms by (intro div_nat_eqI) simp_all
  then show ?thesis using True assms by (simp add: rounds_def)
next
  case False
  let ?s = "1024 - x mod 1024"
  have s: "?s + x mod 1024 = 1024" "?s < n" using mod_less_divisor [of 1024 x] False by linarith+
  have "(x + ?s) mod 1024 = (x mod 1024 + ?s) mod 1024" by (simp only: mod_add_left_eq)
  then have "(x + ?s) mod 1024 = 0" using s(1) by (simp add: add.commute)
  moreover have "x mod 1024 + n + 1023 = (n - ?s + 1023) + 1024" using s by linarith
  then have "(x mod 1024 + n + 1023) div 1024 = Suc ((n - ?s + 1023) div 1024)" by (simp only: div_add_self2)
  moreover have "\<not> n + x mod 1024 \<le> 1024" using s by linarith
  ultimately show ?thesis using s(2) assms by (simp add: rounds_def min_def)
qed

section \<open>The servers\<close>

locale data_servers =
  fixes S :: "'w Stubs"
    and holds :: "'w \<Rightarrow> string \<Rightarrow> uint32 \<Rightarrow> bool"
    and content :: "'w \<Rightarrow> string \<Rightarrow> uint32 \<Rightarrow> nat \<Rightarrow> uint8 option"
    and frame :: "'w \<Rightarrow> 'f"
  assumes width: "holds w n W \<Longrightarrow> W \<noteq> 0"
    and read_ok: "holds w n W \<Longrightarrow> x < LIMIT \<Longrightarrow>
      \<exists>bytes w'. rpc_ReadBlock S (x div 1024 mod unat W mod 5) \<lparr>rb_name = n, rb_addr = blk x\<rparr> w =
          Inr (Status_OK, bytes, w') \<and> length bytes = 1024 \<and> holds w' = holds w \<and> content w' = content w \<and>
        frame w' = frame w \<and>
        (\<forall>i<1024. \<forall>b. content w n W (unat (blk x) + i) = Some b \<longrightarrow> bytes ! i = b)"
    and write_ok: "holds w n W \<Longrightarrow> x < LIMIT \<Longrightarrow> length bytes = 1024 \<Longrightarrow> length ds = 1024 \<Longrightarrow>
      \<exists>w'. rpc_WriteBlock S (x div 1024 mod unat W mod 5)
          \<lparr>wb_name = n, wb_addr = blk x, wb_data = bytes, wb_dirty = map (\<lambda>d. if d then 1 else 0) ds\<rparr> w =
          Inr (Status_OK, w') \<and> holds w' = holds w \<and> frame w' = frame w \<and>
        (\<forall>y<LIMIT. blk y = blk x \<longrightarrow> ds ! (y mod 1024) \<longrightarrow> content w' n W y = Some (bytes ! (y mod 1024))) \<and>
        (\<forall>n' W' y b. content w n' W' y = Some b \<longrightarrow>
          n' \<noteq> n \<or> W' = W \<and> y < LIMIT \<and> (blk y \<noteq> blk x \<or> \<not> ds ! (y mod 1024)) \<longrightarrow>
          content w' n' W' y = Some b)"
begin

abbreviation fcontent where
  "fcontent w f \<equiv> content w (fname f) (stripWidth f)"

abbreviation coh where
  "coh \<equiv> coherent holds content"

lemma coherentD:
  assumes "coh fs c w v" "f \<in> set fs"
  shows "holds w (fname f) (stripWidth f)" "stripWidth f \<noteq> 0"
    "v (fname f) x = Some b \<Longrightarrow> x < LIMIT" "v (fname f) x = Some b \<Longrightarrow> knows f c (fcontent w f x) x b"
  using assms width by (auto simp: coherent_def files_ok_def)

lemma same_file:
  assumes "files_ok holds w fs" "f \<in> set fs" "g \<in> set fs"
  shows "descriptor f = descriptor g \<longleftrightarrow> f = g" "fname f = fname g \<longleftrightarrow> f = g"
  using assms by (auto simp: files_ok_def distinct_map inj_on_def)

lemma coherent_cong:
  assumes "coh fs c w v" "cmap c' = cmap c" "holds w' = holds w" "content w' = content w"
  shows "coh fs c' w' v"
  using assms by (simp add: coherent_def files_ok_def keys_ok_def knows_def)

section \<open>Reading\<close>

lemma getBlock_ok:
  assumes "coh fs c w v" "f \<in> set fs" "x < LIMIT"
  obtains bytes w' where "getBlockFromFileServer S f (blk x) w = Inr (bytes, w')" "length bytes = 1024"
    "holds w' = holds w" "content w' = content w" "frame w' = frame w"
    "\<And>i b. i < 1024 \<Longrightarrow> fcontent w f (unat (blk x) + i) = Some b \<Longrightarrow> bytes ! i = b"
proof -
  obtain bytes w' where r: "rpc_ReadBlock S (x div 1024 mod unat (stripWidth f) mod 5)
      \<lparr>rb_name = fname f, rb_addr = blk x\<rparr> w = Inr (Status_OK, bytes, w')" "length bytes = 1024"
    "holds w' = holds w" "content w' = content w" "frame w' = frame w"
    "\<forall>i<1024. \<forall>b. content w (fname f) (stripWidth f) (unat (blk x) + i) = Some b \<longrightarrow> bytes ! i = b"
    using read_ok [OF coherentD(1) [OF assms(1,2)] assms(3)] by blast
  show thesis
    by (rule that [of bytes w'])
       (use r coherentD(2) [OF assms(1,2)] assms(3) in
         \<open>simp_all add: getBlockFromFileServer_def fileServerIndex_blk\<close>)
qed

lemma add_coherent:
  assumes co: "coh fs c w v" and f: "f \<in> set fs" and x: "x < LIMIT"
    and new: "cmap c (descriptor f, blk x) = None"
    and bytes: "length bytes = 1024" "\<And>i b. i < 1024 \<Longrightarrow> fcontent w f (unat (blk x) + i) = Some b \<Longrightarrow> bytes ! i = b"
    and c': "cmap c' = (cmap c)((descriptor f, blk x) \<mapsto> (bytes, replicate 1024 False))"
  shows "coh fs c' w v"
proof -
  have "knows g c' (fcontent w g y) y b" if g: "g \<in> set fs" "v (fname g) y = Some b" for g y b
  proof (cases "g = f \<and> blk y = blk x")
    case True
    have y: "y < LIMIT" "knows f c (fcontent w f y) y b" using coherentD(3,4) [OF co f] that True by auto
    then have "fcontent w f y = Some b" using new True by (simp add: knows_def)
    moreover have "unat (blk x) + y mod 1024 = y" using blk_split [OF y(1)] True by simp
    ultimately show ?thesis using bytes(2) [of "y mod 1024" b] True by (simp add: knows_def c')
  next
    case False
    then have "(descriptor g, blk y) \<noteq> (descriptor f, blk x)"
      using same_file [OF _ g(1) f] co by (auto simp: coherent_def)
    then show ?thesis using coherentD(4) [OF co g(1)] g(2) by (auto simp: knows_def c')
  qed
  moreover have "keys_ok fs c'" using co f x bytes(1) by (auto simp: coherent_def keys_ok_def c')
  ultimately show ?thesis using co by (auto simp: coherent_def)
qed

lemma load_block:
  assumes co: "coh fs c w v" and f: "f \<in> set fs" and x: "x < LIMIT"
    and new: "cmap c (descriptor f, blk x) = None" and k: "cache_books k c" "k < 1024"
  obtains bytes c' w' where "getBlockFromFileServer S f (blk x) w = Inr (bytes, w')"
    "addBlock (descriptor f) (blk x) bytes c = Inr c'" "coh fs c' w' v" "cache_books (Suc k) c'"
    "cmap c' = (cmap c)((descriptor f, blk x) \<mapsto> (bytes, replicate 1024 False))" "length bytes = 1024"
    "frame w' = frame w" "content w' = content w"
proof -
  obtain bytes w' where g: "getBlockFromFileServer S f (blk x) w = Inr (bytes, w')" "length bytes = 1024"
    "holds w' = holds w" "content w' = content w" "frame w' = frame w"
    "\<And>i b. i < 1024 \<Longrightarrow> fcontent w f (unat (blk x) + i) = Some b \<Longrightarrow> bytes ! i = b"
    using getBlock_ok [OF co f x] by metis
  have inv: "cache_inv c" and sem: "2 \<le> freeBlockSemaphore c" and cnt: "2 \<le> freeBlockCount c"
    using k by (simp_all add: cache_books_def word_le_nat_alt)
  obtain c' where c': "addBlock (descriptor f) (blk x) bytes c = Inr c'"
    "cmap c' = (cmap c)((descriptor f, blk x) \<mapsto> (take 1024 bytes, replicate 1024 False))"
    using addBlock_spec [OF inv blk_aligned _ new sem cnt, of bytes] g(2) by (metis le_refl)
  have "\<exists>r. lookup (descriptor f) (blk x) c = Inr r"
    using inv lookup_rel(3) unfolding cache_inv_def by blast
  then have "lookup (descriptor f) (blk x) c = Inr None"
    using new by (auto simp: cmap_def split: option.splits)
  then have "cache_books (Suc k) c'" using add_books [OF k(1)] c'(1) by blast
  moreover have "coh fs c' w v"
    by (rule add_coherent [OF co f x new g(2,6)]) (use c'(2) g(2) in simp_all)
  then have "coh fs c' w' v" using coherent_cong g(3,4) by blast
  ultimately show thesis using that g(1,2,4,5) c' by simp
qed

text \<open>One round: the block comes from the cache or is loaded into it.\<close>

lemma readOne_ok:
  assumes co: "coh fs c w v" and f: "f \<in> set fs" and x: "x < LIMIT" and n: "n + x mod 1024 \<le> 1024"
    and k: "cache_books k c" "k < 1024"
  obtains bytes hit c' w' k' where
    "readOne S f (descriptor f) (int x) (int n) (c, w) = Inr (bytes, hit, c', w')" "length bytes = n"
    "\<And>i b. i < n \<Longrightarrow> v (fname f) (x + i) = Some b \<Longrightarrow> bytes ! i = b"
    "coh fs c' w' v" "cache_books k' c'" "k' \<le> Suc k"
    "cmap c \<subseteq>\<^sub>m cmap c'" "cmap c' (descriptor f, blk x) \<noteq> None" "frame w' = frame w" "content w' = content w"
proof -
  have inv: "cache_inv c" using k(1) by (simp add: cache_books_def)
  obtain c1 where c1: "readBlock (descriptor f) (blk x) c = Inr (map_option fst (cmap c (descriptor f, blk x)), c1)"
    "cache_inv c1" "cmap c1 = cmap c" "freeBlockSemaphore c1 = freeBlockSemaphore c" "freeBlockCount c1 = freeBlockCount c"
    using readBlock_spec [OF inv] by metis
  have co1: "coh fs c1 w v" and k1: "cache_books k c1"
    using coherent_cong [OF co c1(3)] k(1) c1 by (simp_all add: cache_books_def)
  have same: "blk (x + i) = blk x" "(x + i) mod 1024 = x mod 1024 + i" if "i < n" for i
    using within_block [of x i] that n by simp_all
  have known: "take n (drop (x mod 1024) d) ! i = b"
    if "cmap c2 (descriptor f, blk x) = Some (d, m)" "coh fs c2 w2 v" "i < n" "v (fname f) (x + i) = Some b" "length d = 1024"
    for c2 w2 d m i b
    using coherentD(4) [OF that(2) f that(4)] same [OF that(3)] that(1,3,5) n by (simp add: knows_def)
  show thesis
  proof (cases "cmap c (descriptor f, blk x)")
    case (Some dm)
    then obtain d m where dm: "cmap c (descriptor f, blk x) = Some (d, m)" by (cases dm) auto
    then have "length d = 1024" using co by (fastforce simp: coherent_def keys_ok_def)
    show thesis
      by (rule that [OF _ _ known [OF dm co] co1 k1])
         (use dm c1(1,3) n \<open>length d = 1024\<close> in \<open>simp_all add: readOne_def blockOf_nat smod_nat\<close>)
  next
    case None
    then have "cmap c1 (descriptor f, blk x) = None" using c1(3) by simp
    from load_block [OF co1 f x this k1 k(2)] obtain bytes c' w' where l:
      "getBlockFromFileServer S f (blk x) w = Inr (bytes, w')"
      "addBlock (descriptor f) (blk x) bytes c1 = Inr c'" "coh fs c' w' v" "cache_books (Suc k) c'"
      "cmap c' = (cmap c1)((descriptor f, blk x) \<mapsto> (bytes, replicate 1024 False))" "length bytes = 1024"
      "frame w' = frame w" "content w' = content w" by metis
    then have new: "cmap c' (descriptor f, blk x) = Some (bytes, replicate 1024 False)" by simp
    have sub: "cmap c \<subseteq>\<^sub>m cmap c'" using None l(5) c1(3) by (auto simp: map_le_def)
    show thesis
      by (rule that [of _ False, OF _ _ known [OF new l(3)] l(3,4)])
         (use None c1(1) n l(1,2,6-8) new sub in \<open>simp_all add: readOne_def blockOf_nat smod_nat\<close>)
  qed
qed

lemma readLoop_ok:
  assumes "coh fs c w v" "f \<in> set fs" "x + n \<le> LIMIT" "cache_books k c" "k + rounds x n \<le> 1024"
  shows "\<exists>bytes hit' c' w' k'. readLoop S f (descriptor f) (int x) (int n) out hit (c, w) =
      Inr (out @ bytes, hit', c', w') \<and> length bytes = n \<and>
    (\<forall>i<n. \<forall>b. v (fname f) (x + i) = Some b \<longrightarrow> bytes ! i = b) \<and>
    coh fs c' w' v \<and> cache_books k' c' \<and> k' \<le> k + rounds x n \<and>
    cmap c \<subseteq>\<^sub>m cmap c' \<and> (0 < n \<longrightarrow> cmap c' (descriptor f, blk x) \<noteq> None) \<and> frame w' = frame w \<and> content w' = content w"
  using assms
proof (induction n arbitrary: x c w k out hit rule: less_induct)
  case (less n)
  show ?case
  proof (cases "n = 0")
    case True
    then show ?thesis using less.prems by (subst readLoop.simps) auto
  next
    case False
    define s where "s = min (1024 - x mod 1024) n"
    have sz: "actualSize (int x) (int n) = int s" unfolding s_def by (rule actualSize_nat)
    have s: "0 < s" "s \<le> n" "s + x mod 1024 \<le> 1024" "x < LIMIT" "x + s + (n - s) \<le> LIMIT"
      using False less.prems(3) mod_less_divisor [of 1024 x] by (auto simp: s_def)
    have r: "Suc (rounds (x + s) (n - s)) = rounds x n" using rounds_step [of n x] False by (simp add: s_def)
    then have k: "k < 1024" using less.prems(5) by simp
    obtain b1 h1 c1 w1 k1 where o: "readOne S f (descriptor f) (int x) (int s) (c, w) = Inr (b1, h1, c1, w1)"
      "length b1 = s" "\<And>i b. i < s \<Longrightarrow> v (fname f) (x + i) = Some b \<Longrightarrow> b1 ! i = b"
      "coh fs c1 w1 v" "cache_books k1 c1" "k1 \<le> Suc k" "cmap c \<subseteq>\<^sub>m cmap c1"
      "cmap c1 (descriptor f, blk x) \<noteq> None" "frame w1 = frame w" "content w1 = content w"
      by (rule readOne_ok [OF less.prems(1,2) s(4,3) less.prems(4) k]) (rule that)
    have "n - s < n" "k1 + rounds (x + s) (n - s) \<le> 1024" using s(1) False r o(6) less.prems(5) by linarith+
    from less.IH [OF this(1) o(4) less.prems(2) s(5) o(5) this(2), of "out @ b1" "hit \<and> h1"]
    obtain b2 h2 c2 w2 k2 where l: "readLoop S f (descriptor f) (int (x + s)) (int (n - s)) (out @ b1) (hit \<and> h1) (c1, w1) =
        Inr ((out @ b1) @ b2, h2, c2, w2)" "length b2 = n - s"
      "\<forall>i<n - s. \<forall>b. v (fname f) (x + s + i) = Some b \<longrightarrow> b2 ! i = b"
      "coh fs c2 w2 v" "cache_books k2 c2" "k2 \<le> k1 + rounds (x + s) (n - s)" "cmap c1 \<subseteq>\<^sub>m cmap c2"
      "frame w2 = frame w1" "content w2 = content w1" by blast
    have e: "int x + int s = int (x + s)" "int n - int s = int (n - s)" "0 < int n"
      using s(1,2) by (simp_all add: of_nat_diff)
    have "readLoop S f (descriptor f) (int x) (int n) out hit (c, w) =
        bindR (readOne S f (descriptor f) (int x) (int s) (c, w)) (\<lambda>(bytes, h, cw').
          readLoop S f (descriptor f) (int (x + s)) (int (n - s)) (out @ bytes) (hit \<and> h) cw')"
      by (subst readLoop.simps) (simp only: sz e if_True)
    then have eq: "readLoop S f (descriptor f) (int x) (int n) out hit (c, w) = Inr (out @ b1 @ b2, h2, c2, w2)"
      by (simp only: o(1) l(1) bindR_simps prod.case append_assoc)
    have "(b1 @ b2) ! i = b" if "i < n" "v (fname f) (x + i) = Some b" for i b
    proof (cases "i < s")
      case True
      then show ?thesis using o(2,3) that by (simp add: nth_append)
    next
      case False
      then have "x + s + (i - s) = x + i" "i - s < n - s" using that(1) s(2) by linarith+
      then show ?thesis using l(3) that(2) False o(2) by (simp add: nth_append)
    qed
    moreover have "length (b1 @ b2) = n" "k2 \<le> k + rounds x n" using o(2,6) l(2,6) s(2) r by simp_all
    moreover have "cmap c2 (descriptor f, blk x) \<noteq> None" using map_le_implies_dom_le [OF l(7)] o(8) by blast
    moreover have "cmap c \<subseteq>\<^sub>m cmap c2" by (rule map_le_trans [OF o(7) l(7)])
    moreover have "frame w2 = frame w" "content w2 = content w" using l(8,9) o(9,10) by simp_all
    ultimately show ?thesis using eq l(4,5) by blast
  qed
qed

section \<open>Writing\<close>

lemma splice_nth:
  assumes "p + n \<le> length d" "n \<le> length s" "j < length d"
  shows "(take p d @ take n s @ drop (p + n) d) ! j = (if p \<le> j \<and> j < p + n then s ! (j - p) else d ! j)"
  using assms by (auto simp: nth_append min_def)

text \<open>A write to a block that is in the cache.\<close>

lemma cache_write_coherent:
  assumes co: "coh fs c w v" and f: "f \<in> set fs" and x: "x < LIMIT" and n: "n + x mod 1024 \<le> 1024" "n \<le> length src"
    and lim: "x + n \<le> LIMIT" and hit: "cmap c (descriptor f, blk x) = Some (d, m)" and k: "cache_books k c"
  obtains c' where
    "cache_write (descriptor f) (word_of_int (int x)) (word_of_int (int n)) src c = Inr (True, c')"
    "coh fs c' w (vwrite v (fname f) x (take n src))" "cache_books k c'"
proof -
  let ?p = "x mod 1024"
  have len: "length d = 1024" "length m = 1024" using co hit by (fastforce simp: coherent_def keys_ok_def)+
  have un: "unat (word_of_int (int n) :: uint32) = n" using n(1) by (simp add: unat_of_nat)
  have inv: "cache_inv c" using k by (simp add: cache_books_def)
  obtain c' where c': "cache_write (descriptor f) (word_of_int (int x)) (word_of_int (int n)) src c = Inr (True, c')"
    "cache_inv c'" "cmap c' = (cmap c)((descriptor f, blk x) \<mapsto>
       (take ?p d @ take n src @ drop (?p + n) d, take ?p m @ replicate n True @ drop (?p + n) m))"
    "freeBlockSemaphore c' = freeBlockSemaphore c" "freeBlockCount c' = freeBlockCount c"
    by (rule cache_write_spec [OF inv, of "word_of_int (int x)" "word_of_int (int n)" src "descriptor f",
          unfolded word_offset [OF x] un]) (use n hit in \<open>simp_all add: add.commute\<close>)
  let ?v = "vwrite v (fname f) x (take n src)"
  have mask: "(take ?p m @ replicate n True @ drop (?p + n) m) ! j = (?p \<le> j \<and> j < ?p + n \<or> m ! j)" if "j < 1024" for j
    using splice_nth [of ?p n m "replicate n True" j] n len that by auto
  have "y < LIMIT \<and> knows g c' (fcontent w g y) y b" if g: "g \<in> set fs" "?v (fname g) y = Some b" for g y b
  proof (cases "g = f \<and> x \<le> y \<and> y < x + n")
    case True
    then obtain i where i: "y = x + i" "i < n" using le_Suc_ex [of x y] by auto
    have "blk y = blk x" "y mod 1024 = ?p + i" using within_block [of x i] i n(1) by simp_all
    moreover have "b = src ! i" using g(2) True i n(2) by (simp add: vwrite_def)
    ultimately show ?thesis
      using True i n len lim by (simp add: knows_def c'(3) splice_nth mask)
  next
    case False
    have files: "files_ok holds w fs" using co by (simp add: coherent_def)
    have v: "v (fname g) y = Some b"
      using g(2) False n(2) same_file(2) [OF files g(1) f] by (auto simp: vwrite_def split: if_splits)
    note y = coherentD(3,4) [OF co g(1) v]
    show ?thesis
    proof (cases "g = f \<and> blk y = blk x")
      case True
      have "y div 1024 = x div 1024"
        using True unat_blk [OF y(1)] unat_blk [OF x] by simp
      then have "y + ?p = x + y mod 1024"
        using div_mult_mod_eq [of x 1024] div_mult_mod_eq [of y 1024] by linarith
      then have "\<not> (?p \<le> y mod 1024 \<and> y mod 1024 < ?p + n)" using False True by auto
      then show ?thesis
        using y True n len hit by (auto simp: knows_def c'(3) splice_nth mask)
    next
      case other: False
      then have "(descriptor g, blk y) \<noteq> (descriptor f, blk x)" using same_file(1) [OF files g(1) f] by auto
      then show ?thesis using y by (auto simp: knows_def c'(3))
    qed
  qed
  moreover have "keys_ok fs c'" using co f x len n by (auto simp: coherent_def keys_ok_def c'(3))
  ultimately have "coh fs c' w ?v" using co by (auto simp: coherent_def)
  moreover have "cache_books k c'" using k c' by (simp add: cache_books_def)
  ultimately show thesis using that c'(1) by blast
qed

lemma writeOne_ok:
  assumes co: "coh fs c w v" and f: "f \<in> set fs" and x: "x < LIMIT" and n: "n + x mod 1024 \<le> 1024" "n \<le> length src"
    and lim: "x + n \<le> LIMIT" and k: "cache_books k c" "k < 1024"
  obtains hit c' w' k' where
    "writeOne S f (descriptor f) (int x) (int n) src (c, w) = Inr (hit, c', w')"
    "coh fs c' w' (vwrite v (fname f) x (take n src))" "cache_books k' c'" "k' \<le> Suc k"
    "frame w' = frame w" "content w' = content w"
proof (cases "cmap c (descriptor f, blk x)")
  case (Some dm)
  then obtain d m where "cmap c (descriptor f, blk x) = Some (d, m)" by (cases dm) auto
  from cache_write_coherent [OF co f x n lim this k(1)] obtain c' where
    "cache_write (descriptor f) (word_of_int (int x)) (word_of_int (int n)) src c = Inr (True, c')"
    "coh fs c' w (vwrite v (fname f) x (take n src))" "cache_books k c'" .
  then show thesis using that [of True c' w k] by (simp add: writeOne_def)
next
  case None
  have un: "unat (word_of_int (int n) :: uint32) = n" using n(1) by (simp add: unat_of_nat)
  have inv: "cache_inv c" using k(1) by (simp add: cache_books_def)
  obtain c1 where c1: "cache_write (descriptor f) (word_of_int (int x)) (word_of_int (int n)) src c = Inr (False, c1)"
    "cache_inv c1" "cmap c1 = cmap c" "freeBlockSemaphore c1 = freeBlockSemaphore c" "freeBlockCount c1 = freeBlockCount c"
    by (rule cache_write_spec [OF inv, of "word_of_int (int x)" "word_of_int (int n)" src "descriptor f",
          unfolded word_offset [OF x] un]) (use n None in \<open>simp_all add: add.commute\<close>)
  have co1: "coh fs c1 w v" and k1: "cache_books k c1"
    using coherent_cong [OF co c1(3)] k(1) c1 by (simp_all add: cache_books_def)
  have "cmap c1 (descriptor f, blk x) = None" using c1(3) None by simp
  from load_block [OF co1 f x this k1 k(2)] obtain bytes c2 w2 where l:
    "getBlockFromFileServer S f (blk x) w = Inr (bytes, w2)"
    "addBlock (descriptor f) (blk x) bytes c1 = Inr c2" "coh fs c2 w2 v" "cache_books (Suc k) c2"
    "cmap c2 = (cmap c1)((descriptor f, blk x) \<mapsto> (bytes, replicate 1024 False))"
    "frame w2 = frame w" "content w2 = content w" by metis
  then have new: "cmap c2 (descriptor f, blk x) = Some (bytes, replicate 1024 False)" by simp
  from cache_write_coherent [OF l(3) f x n lim new l(4)] obtain c3 where
    "cache_write (descriptor f) (word_of_int (int x)) (word_of_int (int n)) src c2 = Inr (True, c3)"
    "coh fs c3 w2 (vwrite v (fname f) x (take n src))" "cache_books (Suc k) c3" .
  then show thesis using that [of False c3 w2 "Suc k"] c1(1) l(1,2,6,7) by (simp add: writeOne_def blockOf_nat)
qed

lemma writeLoop_ok:
  assumes "coh fs c w v" "f \<in> set fs" "x + n \<le> LIMIT" "n \<le> length src" "cache_books k c" "k + rounds x n \<le> 1024"
  shows "\<exists>hit' c' w' k'. writeLoop S f (descriptor f) (int x) (int n) src hit (c, w) = Inr (hit', c', w') \<and>
    coh fs c' w' (vwrite v (fname f) x (take n src)) \<and> cache_books k' c' \<and> k' \<le> k + rounds x n \<and>
    frame w' = frame w \<and> content w' = content w"
  using assms
proof (induction n arbitrary: x c w v k src hit rule: less_induct)
  case (less n)
  show ?case
  proof (cases "n = 0")
    case True
    then show ?thesis using less.prems by (subst writeLoop.simps) auto
  next
    case False
    define s where "s = min (1024 - x mod 1024) n"
    have sz: "actualSize (int x) (int n) = int s" unfolding s_def by (rule actualSize_nat)
    have s: "0 < s" "s \<le> n" "s + x mod 1024 \<le> 1024" "x < LIMIT" "x + s + (n - s) \<le> LIMIT" "s \<le> length src" "x + s \<le> LIMIT"
      using False less.prems(3,4) mod_less_divisor [of 1024 x] by (auto simp: s_def)
    have r: "Suc (rounds (x + s) (n - s)) = rounds x n" using rounds_step [of n x] False by (simp add: s_def)
    then have k: "k < 1024" using less.prems(6) by simp
    obtain h1 c1 w1 k1 where o: "writeOne S f (descriptor f) (int x) (int s) src (c, w) = Inr (h1, c1, w1)"
      "coh fs c1 w1 (vwrite v (fname f) x (take s src))" "cache_books k1 c1" "k1 \<le> Suc k"
      "frame w1 = frame w" "content w1 = content w"
      by (rule writeOne_ok [OF less.prems(1,2) s(4,3,6,7) less.prems(5) k]) (rule that)
    have "n - s < n" "n - s \<le> length (drop s src)" "k1 + rounds (x + s) (n - s) \<le> 1024"
      using s(1) False r o(4) less.prems(4,6) by simp_all
    from less.IH [OF this(1) o(2) less.prems(2) s(5) this(2) o(3) this(3), of "hit \<and> h1"]
    obtain h2 c2 w2 k2 where l: "writeLoop S f (descriptor f) (int (x + s)) (int (n - s)) (drop s src) (hit \<and> h1) (c1, w1) =
        Inr (h2, c2, w2)"
      "coh fs c2 w2 (vwrite (vwrite v (fname f) x (take s src)) (fname f) (x + s) (take (n - s) (drop s src)))"
      "cache_books k2 c2" "k2 \<le> k1 + rounds (x + s) (n - s)" "frame w2 = frame w1" "content w2 = content w1" by blast
    have e: "int x + int s = int (x + s)" "int n - int s = int (n - s)" "0 < int n" "nat (int s) = s"
      using s(1,2) by (simp_all add: of_nat_diff)
    have "writeLoop S f (descriptor f) (int x) (int n) src hit (c, w) =
        bindR (writeOne S f (descriptor f) (int x) (int s) src (c, w)) (\<lambda>(h, cw').
          writeLoop S f (descriptor f) (int (x + s)) (int (n - s)) (drop s src) (hit \<and> h) cw')"
      by (subst writeLoop.simps) (simp only: sz e if_True)
    then have "writeLoop S f (descriptor f) (int x) (int n) src hit (c, w) = Inr (h2, c2, w2)"
      by (simp only: o(1) l(1) bindR_simps prod.case)
    moreover have "take s src @ take (n - s) (drop s src) = take n src"
      using s(2) by (simp flip: take_add)
    then have "coh fs c2 w2 (vwrite v (fname f) x (take n src))"
      using l(2) vwrite_append [of v "fname f" x "take s src"] s(6) by simp
    moreover have "k2 \<le> k + rounds x n" using l(4) o(4) r by linarith
    moreover have "frame w2 = frame w" "content w2 = content w" using l(5,6) o(5,6) by simp_all
    ultimately show ?thesis using l(3) by blast
  qed
qed

end

end
