(* ===== verification/Client_Flush.thy ===== *)
theory Client_Flush
  imports Client_Store
begin

text \<open>
  Writing back and dropping blocks: \<^verbatim>\<open>PFSClient::flush\<close>, eviction and the two threads of the
  cache leave the bytes a client knows as they are, and what they drop from the cache is on the
  servers.
\<close>

lemma findDescriptor_file:
  assumes "distinct (map descriptor fs)" "f \<in> set fs"
  obtains i where "findDescriptor (descriptor f) fs = Some i" "fs ! i = f" "i < length fs"
proof -
  from assms(2) obtain i where i: "i < length fs" "fs ! i = f" by (auto simp: in_set_conv_nth)
  have "descriptor (fs ! j) \<noteq> descriptor f" if "j < i" for j
    using assms(1) i that nth_eq_iff_index_eq [of "map descriptor fs" j i] by auto
  then have "findDescriptor (descriptor f) fs = Some i"
    using i by (auto simp: findDescriptor_def first_index_Some)
  then show thesis using that i by blast
qed

lemma block_le:
  assumes "y < 4294966272" "q \<le> y div 1024 + 1"
  shows "(word_of_nat (q * 1024) :: uint32) \<le> word_of_nat y \<longleftrightarrow> q \<le> y div 1024"
proof -
  have "q * 1024 < 2 ^ 32" "y < 2 ^ 32" using assms by auto
  then show ?thesis
    by (simp add: word_le_nat_alt unat_of_nat less_eq_div_iff_mult_less_eq del: of_nat_mult)
qed

context data_servers
begin

section \<open>One block\<close>

abbreviation sett where
  "sett \<equiv> settled content"

text \<open>
  A write-back keeps the relation for the same cache, settles its block and unsettles none.
\<close>

lemma flush_ok:
  assumes co: "coh fs c w v" and b: "cmap c (ckey b) = Some (data b, dirty b)" "wf_block b" "\<not> clean b"
  obtains w' where "flush S fs b w = Inr w'" "coh fs c w' v" "sett fs v (ckey b) w'"
    "\<And>k. sett fs v k w \<Longrightarrow> sett fs v k w'" "holds w' = holds w" "frame w' = frame w"
proof -
  have keys: "(\<exists>x<LIMIT. addr b = blk x) \<and> fdes b \<in> descriptor ` set fs"
    using co b(1) unfolding coherent_def keys_ok_def ckey_def by fastforce
  then obtain x f where x: "x < LIMIT" "addr b = blk x" and f: "f \<in> set fs" "descriptor f = fdes b" by auto
  have files: "files_ok holds w fs" using co by (simp add: coherent_def)
  then obtain i where i: "findDescriptor (fdes b) fs = Some i" "fs ! i = f"
    using findDescriptor_file [OF _ f(1)] f(2) by (metis files_ok_def)
  have len: "length (data b) = 1024" "length (dirty b) = 1024" using b(2) by (simp_all add: wf_block_def)
  obtain w' where w': "rpc_WriteBlock S (x div 1024 mod unat (stripWidth f) mod 5)
      \<lparr>wb_name = fname f, wb_addr = blk x, wb_data = data b, wb_dirty = map (\<lambda>d. if d then 1 else 0) (dirty b)\<rparr> w =
      Inr (Status_OK, w')" "holds w' = holds w" "frame w' = frame w"
    and new: "\<And>y. y < LIMIT \<Longrightarrow> blk y = blk x \<Longrightarrow> dirty b ! (y mod 1024) \<Longrightarrow> fcontent w' f y = Some (data b ! (y mod 1024))"
    and old: "\<And>n W y b'. content w n W y = Some b' \<Longrightarrow>
      n \<noteq> fname f \<or> W = stripWidth f \<and> y < LIMIT \<and> (blk y \<noteq> blk x \<or> \<not> dirty b ! (y mod 1024)) \<Longrightarrow>
      content w' n W y = Some b'"
    using write_ok [OF coherentD(1) [OF co f(1)] x(1) len] by blast
  have fl: "flush S fs b w = Inr w'"
    using b(3) i coherentD(2) [OF co f(1)] x w'(1) by (simp add: flush_def fileServerIndex_blk)
  have kf: "cmap c (descriptor f, blk x) = Some (data b, dirty b)" using b(1) f(2) x(2) by (simp add: ckey_def)
  have stored: "fcontent w' g y = Some b'"
    if "g \<in> set fs" "v (fname g) y = Some b'" "fcontent w g y = Some b' \<or> g = f \<and> blk y = blk x" for g y b'
  proof (cases "g = f \<and> blk y = blk x \<and> dirty b ! (y mod 1024)")
    case True
    then show ?thesis using coherentD(3,4) [OF co that(1,2)] kf new [of y] by (simp add: knows_def)
  next
    case False
    have "fcontent w g y = Some b'"
      using coherentD(4) [OF co that(1,2)] that(3) kf False by (auto simp: knows_def)
    moreover have "fname g \<noteq> fname f \<or> stripWidth g = stripWidth f \<and> y < LIMIT \<and> (blk y \<noteq> blk x \<or> \<not> dirty b ! (y mod 1024))"
      using same_file(2) [OF files that(1) f(1)] coherentD(3) [OF co that(1,2)] False by blast
    ultimately show ?thesis by (rule old)
  qed
  have "knows g c (fcontent w' g y) y b'" if g: "g \<in> set fs" "v (fname g) y = Some b'" for g y b'
    using coherentD(4) [OF co g] stored [OF g] by (auto simp: knows_def split: option.splits)
  then have "coh fs c w' v" using co w'(2) by (auto simp: coherent_def files_ok_def)
  moreover have "sett fs v (ckey b) w'"
    using stored same_file(1) [OF files _ f(1)] f(2) x(2) by (auto simp: settled_def ckey_def)
  moreover have "sett fs v k w'" if "sett fs v k w" for k
    using that stored by (auto simp: settled_def)
  ultimately show thesis using that fl w'(2,3) by blast
qed

lemma runAll_flush:
  assumes "coh fs c w v" "\<forall>b\<in>set bs. cmap c (ckey b) = Some (data b, dirty b) \<and> wf_block b \<and> \<not> clean b"
  shows "\<exists>w'. runAll (flush S fs) bs w = Inr w' \<and> coh fs c w' v \<and> (\<forall>k\<in>ckey ` set bs. sett fs v k w') \<and>
    (\<forall>k. sett fs v k w \<longrightarrow> sett fs v k w') \<and> holds w' = holds w \<and> frame w' = frame w"
  using assms
proof (induction bs arbitrary: w)
  case (Cons b bs)
  have b: "cmap c (ckey b) = Some (data b, dirty b)" "wf_block b" "\<not> clean b" using Cons.prems(2) by simp_all
  from flush_ok [OF Cons.prems(1) b] obtain w1 where w1: "flush S fs b w = Inr w1" "coh fs c w1 v"
    "sett fs v (ckey b) w1" "\<And>k. sett fs v k w \<Longrightarrow> sett fs v k w1" "holds w1 = holds w"
    "frame w1 = frame w" by metis
  from Cons.IH [OF w1(2)] Cons.prems obtain w' where "runAll (flush S fs) bs w1 = Inr w'" "coh fs c w' v"
    "\<forall>k\<in>ckey ` set bs. sett fs v k w'" "\<forall>k. sett fs v k w1 \<longrightarrow> sett fs v k w'" "holds w' = holds w1" "frame w' = frame w1" by auto
  then show ?case using w1 by (simp del: split_paired_All)
qed simp

text \<open>A block without dirty bytes is settled.\<close>

lemma clean_settled:
  assumes "coh fs c w v" "cmap c k = Some (d, m)" "True \<notin> set m"
  shows "sett fs v k w"
proof -
  have "length m = 1024" using assms(1,2) unfolding coherent_def keys_ok_def by fastforce
  then have "\<not> m ! (x mod 1024)" for x using assms(3) by (metis mod_less_divisor nth_mem zero_less_numeral)
  then show ?thesis
    using coherentD(4) [OF assms(1)] assms(2) by (fastforce simp: settled_def knows_def)
qed

text \<open>Dropping or cleaning settled blocks keeps the relation.\<close>

lemma coherent_shrink:
  assumes co: "coh fs c w v"
    and c': "\<And>k. cmap c' k = None \<Longrightarrow> cmap c k = None \<or> sett fs v k w"
      "\<And>k d m. cmap c' k = Some (d, m) \<Longrightarrow> \<exists>m0. cmap c k = Some (d, m0) \<and> length m = 1024 \<and> (m = m0 \<or> sett fs v k w)"
  shows "coh fs c' w v"
proof -
  have "knows g c' (fcontent w g y) y b" if g: "g \<in> set fs" "v (fname g) y = Some b" for g y b
  proof (cases "sett fs v (descriptor g, blk y) w")
    case True
    then have "fcontent w g y = Some b" using g by (auto simp: settled_def)
    then show ?thesis
      using coherentD(4) [OF co g] c'(2) [of "(descriptor g, blk y)"]
      by (fastforce simp: knows_def split: option.splits)
  next
    case False
    then show ?thesis
      using coherentD(4) [OF co g] c' [of "(descriptor g, blk y)"]
      by (fastforce simp: knows_def split: option.splits)
  qed
  moreover have "keys_ok fs c'"
    unfolding keys_ok_def
  proof (intro allI impI)
    fix k dm assume "cmap c' k = Some dm"
    then obtain m0 where "cmap c k = Some (fst dm, m0)" "length (snd dm) = 1024" using c'(2) [of k "fst dm" "snd dm"] by auto
    then show "(\<exists>x<LIMIT. snd k = blk x) \<and> fst k \<in> descriptor ` set fs \<and> length (fst dm) = 1024 \<and> length (snd dm) = 1024"
      using co unfolding coherent_def keys_ok_def by fastforce
  qed
  ultimately show ?thesis using co by (auto simp: coherent_def)
qed

section \<open>Eviction and the threads of the cache\<close>

lemma evictBlock_ok:
  assumes co: "coh fs c w v" and k: "cache_books k c"
  obtains c' w' where "evictBlock (flush S fs) d a (c, w) = Inr (c', w')" "coh fs c' w' v" "cache_books k c'"
    "cmap c' = (cmap c)((d, a) := None)" "sett fs v (d, a) w' \<or> cmap c (d, a) = None"
    "\<And>j. sett fs v j w \<Longrightarrow> sett fs v j w'" "holds w' = holds w" "frame w' = frame w"
proof -
  have inv: "cache_inv c" using k by (simp add: cache_books_def)
  show thesis
  proof (cases rule: evictBlock_spec [OF inv, of d a, where 'a = 'w and 'b = 'w])
    case 1
    then show thesis using that [of c w] co k by (auto simp: fun_upd_idem)
  next
    case (2 b c')
    have "\<exists>w'. (if clean b then Inr w else flush S fs b w) = Inr w' \<and> coh fs c w' v \<and> sett fs v (d, a) w' \<and>
        (\<forall>j. sett fs v j w \<longrightarrow> sett fs v j w') \<and> holds w' = holds w \<and> frame w' = frame w"
    proof (cases "clean b")
      case True
      then have "True \<notin> set (dirty b)" using 2(3) by (auto simp: wf_block_def)
      then show ?thesis using True co clean_settled [OF co 2(1)] by auto
    next
      case False
      then show ?thesis using flush_ok [OF co, of b] 2(1,2,3) by (metis (full_types))
    qed
    then obtain w' where w': "(if clean b then Inr w else flush S fs b w) = Inr w'" "coh fs c w' v" "sett fs v (d, a) w'"
      "\<And>j. sett fs v j w \<Longrightarrow> sett fs v j w'" "holds w' = holds w" "frame w' = frame w" by blast
    have "coh fs c' w' v"
    proof (rule coherent_shrink [OF w'(2)])
      show "cmap c j = None \<or> sett fs v j w'" if "cmap c' j = None" for j
        using that w'(3) 2(6) by (cases "j = (d, a)") auto
      show "\<exists>m0. cmap c j = Some (e, m0) \<and> length m = 1024 \<and> (m = m0 \<or> sett fs v j w')"
        if "cmap c' j = Some (e, m)" for j e m
      proof -
        have "cmap c j = Some (e, m)" using that 2(6) by (cases "j = (d, a)") auto
        moreover from this have "length m = 1024" using co unfolding coherent_def keys_ok_def by fastforce
        ultimately show ?thesis by blast
      qed
    qed
    moreover have "cache_books k c'"
      using k 2(5,7) freed_count [OF 2(5,8) _ inv] by (simp add: cache_books_def)
    moreover have "evictBlock (flush S fs) d a (c, w) = Inr (c', w')" using 2(4) w'(1) by simp
    ultimately show thesis using that [of c' w'] w'(3-6) 2(6) by blast
  qed
qed

lemma cacheFlusher_ok:
  assumes co: "coh fs c w v" and k: "cache_books k c"
  obtains c' w' where "cacheFlusher (flush S fs) (c, w) = Inr (c', w')" "coh fs c' w' v" "cache_books k c'"
    "\<And>j. sett fs v j w' \<or> cmap c j = None" "frame w' = frame w"
proof -
  have inv: "cache_inv c" using k by (simp add: cache_books_def)
  obtain bs c' where c': "\<And>fl u. cacheFlusher fl (c, u::'w) = bindR (runAll fl bs u) (\<lambda>w'. Inr (c', w'))"
    "cache_inv c'" "cmap c' = (\<lambda>k. map_option (\<lambda>v. (fst v, replicate 1024 False)) (cmap c k))"
    "\<forall>b\<in>set bs. cmap c (ckey b) = Some (data b, dirty b) \<and> wf_block b \<and> \<not> clean b"
    "\<forall>k d m. cmap c k = Some (d, m) \<and> True \<in> set m \<longrightarrow> k \<in> ckey ` set bs"
    "freeBlockSemaphore c' = freeBlockSemaphore c" "freeBlockCount c' = freeBlockCount c"
    by (rule cacheFlusher_spec [OF inv, where 'a = 'w]) blast
  from runAll_flush [OF co c'(4)] obtain w' where w': "runAll (flush S fs) bs w = Inr w'" "coh fs c w' v"
    "\<forall>k\<in>ckey ` set bs. sett fs v k w'" "frame w' = frame w" by blast
  have s: "sett fs v j w' \<or> cmap c j = None" for j
  proof (cases "cmap c j")
    case (Some dm)
    then have "cmap c j = Some (fst dm, snd dm)" by simp
    then show ?thesis using c'(5) w'(3) clean_settled [OF w'(2)] by blast
  qed simp
  have "coh fs c' w' v"
  proof (rule coherent_shrink [OF w'(2)])
    show "cmap c j = None \<or> sett fs v j w'" if "cmap c' j = None" for j using that c'(3) by simp
    show "\<exists>m0. cmap c j = Some (e, m0) \<and> length m = 1024 \<and> (m = m0 \<or> sett fs v j w')"
      if "cmap c' j = Some (e, m)" for j e m
      using that s [of j] c'(3) by (cases "cmap c j") auto
  qed
  then show thesis using that [of c' w'] s c' w'(1,4) k by (simp add: cache_books_def)
qed

text \<open>An uncached block is settled as well.\<close>

lemma uncached_settled: "coh fs c w v \<Longrightarrow> cmap c k = None \<Longrightarrow> sett fs v k w"
  using coherentD(4) [of fs c w v] by (cases k) (fastforce simp: settled_def knows_def)

lemma cacheHarvester_ok:
  assumes co: "coh fs c w v" and k: "cache_books k c" and woken: "0 < harvesterSemaphore c"
  obtains c' w' where "cacheHarvester (flush S fs) (c, w) = Inr (c', w')" "coh fs c' w' v" "cache_books k c'"
    "frame w' = frame w"
proof -
  let ?c = "c\<lparr>harvesterSemaphore := harvesterSemaphore c - 1\<rparr>"
  have rel: "cache_rel ?c R D F B = cache_rel c R D F B" for R D F B by (simp add: rel_defs hash_rel_def)
  have k0: "cache_books k ?c" using k rel by (simp add: cache_books_def cache_inv_def)
  then have inv: "cache_inv ?c" by (simp add: cache_books_def)
  obtain R D F B where "cache_rel c R D F B" using inv rel by (auto simp: cache_inv_def)
  then have cm: "cmap ?c = cmap c" using cmap_same [of c R D F B ?c R D F B] rel by simp
  have co0: "coh fs ?c w v" using coherent_cong [OF co cm] by simp
  show thesis
  proof (cases "freeBlockCount c < 2020")
    case False
    then show thesis using that [of ?c w] woken co0 k0 by (simp add: cacheHarvester_def)
  next
    case True
    obtain bs c' where c': "\<And>fl u. harvestLoop fl 2020 True (?c, u::'w) = bindR (runAll fl bs u) (\<lambda>w'. Inr (c', w'))"
      "cache_inv c'" "cmap c' \<subseteq>\<^sub>m cmap ?c" "freeBlockCount c' = 2020"
      "\<forall>b\<in>set bs. cmap ?c (ckey b) = Some (data b, dirty b) \<and> wf_block b \<and> \<not> clean b"
      "\<forall>k d m. cmap ?c k = Some (d, m) \<and> True \<in> set m \<longrightarrow> cmap c' k = Some (d, m) \<or> k \<in> ckey ` set bs"
      "freeBlockSemaphore c' = freeBlockSemaphore ?c"
      by (rule harvestLoop_spec [OF inv, of 2020, where 'a = 'w]) (use True in simp_all)
    from runAll_flush [OF co0 c'(5)] obtain w' where w': "runAll (flush S fs) bs w = Inr w'" "coh fs ?c w' v"
      "\<forall>k\<in>ckey ` set bs. sett fs v k w'" "frame w' = frame w" by blast
    have "coh fs c' w' v"
    proof (rule coherent_shrink [OF w'(2)])
      show "cmap ?c j = None \<or> sett fs v j w'" if "cmap c' j = None" for j
        using that c'(6) w'(3) clean_settled [OF w'(2), of j] by (cases "cmap ?c j") fastforce+
      show "\<exists>m0. cmap ?c j = Some (e, m0) \<and> length m = 1024 \<and> (m = m0 \<or> sett fs v j w')"
        if "cmap c' j = Some (e, m)" for j e m
      proof -
        have "cmap ?c j = Some (e, m)" using that c'(3) by (metis domI map_le_def)
        moreover from this have "length m = 1024" using co0 unfolding coherent_def keys_ok_def by fastforce
        ultimately show ?thesis by blast
      qed
    qed
    moreover have "unat (freeBlockCount c) < 2020" using True by (simp add: word_less_nat_alt)
    then have "cache_books k c'" using k c'(2,4,7) by (simp add: cache_books_def)
    moreover have "cacheHarvester (flush S fs) (c, w) = Inr (c', w')"
      using woken True c'(1) w'(1) by (simp add: cacheHarvester_def)
    ultimately show thesis using that [of c' w'] w'(4) by blast
  qed
qed

lemma delete_Cache_ok:
  assumes co: "coh fs c w v" and k: "cache_books k c"
  obtains w' where "delete_Cache (flush S fs) (c, w) = Inr w'" "coh fs c w' v" "\<And>j. sett fs v j w'"
    "frame w' = frame w" "holds w' = holds w"
proof -
  have inv: "cache_inv c" using k by (simp add: cache_books_def)
  obtain bs where bs: "\<And>fl u. delete_Cache fl (c, u::'w) = runAll fl bs u"
    "\<forall>b\<in>set bs. cmap c (ckey b) = Some (data b, dirty b) \<and> wf_block b \<and> \<not> clean b"
    "\<forall>k d m. cmap c k = Some (d, m) \<and> True \<in> set m \<longrightarrow> k \<in> ckey ` set bs"
    by (rule delete_Cache_spec [OF inv, where 'a = 'w]) blast
  from runAll_flush [OF co bs(2)] obtain w' where w': "runAll (flush S fs) bs w = Inr w'" "coh fs c w' v"
    "\<forall>k\<in>ckey ` set bs. sett fs v k w'" "frame w' = frame w" "holds w' = holds w" by blast
  have "sett fs v j w'" for j
  proof (cases "cmap c j")
    case None
    then show ?thesis using uncached_settled [OF w'(2)] by blast
  next
    case (Some dm)
    then have "cmap c j = Some (fst dm, snd dm)" by simp
    then show ?thesis using bs(3) w'(3) clean_settled [OF w'(2)] by blast
  qed
  then show thesis using that w' bs(1) by simp
qed

section \<open>Ranges of blocks\<close>

text \<open>
  The loop over the blocks of a range ends when the block behind the end of the range has an
  address below \<open>2\<^sup>3\<^sup>2\<close>.
\<close>

lemma evictRange_ok:
  assumes "coh fs c w v" "cache_books k c" "y < 4294966272" "q \<le> y div 1024 + 1" "y div 1024 + 1 \<le> q + n"
  shows "\<exists>c' w'. evictRange (flush S fs) n d (word_of_nat (q * 1024)) (word_of_nat y) (c, w) = Inr (c', w') \<and>
    coh fs c' w' v \<and> cache_books k c' \<and> cmap c' \<subseteq>\<^sub>m cmap c \<and> (\<forall>j. sett fs v j w \<longrightarrow> sett fs v j w') \<and>
    (\<forall>z. q \<le> z div 1024 \<and> z div 1024 \<le> y div 1024 \<longrightarrow> cmap c' (d, blk z) = None \<and> sett fs v (d, blk z) w') \<and>
    holds w' = holds w \<and> frame w' = frame w"
  using assms
proof (induction n arbitrary: q c w)
  case (Suc n)
  note le = block_le [OF Suc.prems(3,4)]
  show ?case
  proof (cases "q \<le> y div 1024")
    case False
    then show ?thesis using Suc.prems(1,2) le by auto
  next
    case True
    let ?a = "word_of_nat (q * 1024) :: uint32"
    obtain c1 w1 where e: "evictBlock (flush S fs) d ?a (c, w) = Inr (c1, w1)" "coh fs c1 w1 v" "cache_books k c1"
      "cmap c1 = (cmap c)((d, ?a) := None)" "\<And>j. sett fs v j w \<Longrightarrow> sett fs v j w1" "holds w1 = holds w"
      "frame w1 = frame w" using evictBlock_ok [OF Suc.prems(1,2), of d ?a] by metis
    have "Suc q \<le> y div 1024 + 1" "y div 1024 + 1 \<le> Suc q + n" using True Suc.prems(5) by simp_all
    from Suc.IH [OF e(2,3) Suc.prems(3) this] obtain c' w' where r:
      "evictRange (flush S fs) n d (word_of_nat (Suc q * 1024)) (word_of_nat y) (c1, w1) = Inr (c', w')"
      "coh fs c' w' v" "cache_books k c'" "cmap c' \<subseteq>\<^sub>m cmap c1" "\<forall>j. sett fs v j w1 \<longrightarrow> sett fs v j w'"
      "\<forall>z. Suc q \<le> z div 1024 \<and> z div 1024 \<le> y div 1024 \<longrightarrow> cmap c' (d, blk z) = None \<and> sett fs v (d, blk z) w'"
      "holds w' = holds w1" "frame w' = frame w1" by blast
    have "?a + 1024 = word_of_nat (Suc q * 1024)" by simp
    then have "evictRange (flush S fs) (Suc n) d ?a (word_of_nat y) (c, w) = Inr (c', w')"
      using e(1) r(1) True le by (simp del: of_nat_mult of_nat_Suc mult_Suc)
    moreover have sub: "cmap c1 \<subseteq>\<^sub>m cmap c" unfolding e(4) by (auto simp: map_le_def)
    moreover have "cmap c' (d, blk z) = None \<and> sett fs v (d, blk z) w'"
      if z: "q \<le> z div 1024" "z div 1024 \<le> y div 1024" for z
    proof (cases "q = z div 1024")
      case True
      then have "cmap c1 (d, blk z) = None" unfolding e(4) by (simp add: blk_def)
      then show ?thesis using r(4,5) uncached_settled [OF e(2)] by (metis domIff map_le_implies_dom_le subsetD)
    qed (use z r(6) in auto)
    ultimately show ?thesis using r e(5-7) map_le_trans [OF r(4) sub] by metis
  qed
next
  case 0
  then have "\<not> q \<le> y div 1024" by simp
  then show ?case using 0 block_le [OF 0(3,4)] by auto
qed

lemma evictTokens_ok:
  assumes "coh fs c w v" "cache_books k c" "\<forall>p\<in>set ps. pend p < 4294966272 \<and> pstart p \<le> pend p"
  shows "\<exists>c' w'. evictTokens (flush S fs) d ps (c, w) = Inr (c', w') \<and>
    coh fs c' w' v \<and> cache_books k c' \<and> cmap c' \<subseteq>\<^sub>m cmap c \<and> (\<forall>j. sett fs v j w \<longrightarrow> sett fs v j w') \<and>
    (\<forall>p\<in>set ps. \<forall>z. unat (pstart p) div 1024 \<le> z div 1024 \<and> z div 1024 \<le> unat (pend p) div 1024 \<longrightarrow>
       cmap c' (d, blk z) = None \<and> sett fs v (d, blk z) w') \<and> holds w' = holds w \<and> frame w' = frame w"
  using assms
proof (induction ps arbitrary: c w)
  case (Cons p ps)
  let ?x = "unat (pstart p)" and ?y = "unat (pend p)"
  have b: "?y < 4294966272" "?x \<le> ?y" using Cons.prems(3) by (simp_all add: word_less_nat_alt word_le_nat_alt)
  have start: "blockStart (pstart p) = word_of_nat (?x div 1024 * 1024)"
    by (simp add: blockStart_def block_of_word)
  have fuel: "?x div 1024 \<le> ?y div 1024 + 1" "?y div 1024 + 1 \<le> ?x div 1024 + evictFuel"
    using b by (auto simp: evictFuel_def div_le_mono le_SucI)
  obtain c1 w1 where r: "evictRange (flush S fs) evictFuel d (blockStart (pstart p)) (pend p) (c, w) = Inr (c1, w1)"
    "coh fs c1 w1 v" "cache_books k c1" "cmap c1 \<subseteq>\<^sub>m cmap c" "\<forall>j. sett fs v j w \<longrightarrow> sett fs v j w1"
    "\<forall>z. ?x div 1024 \<le> z div 1024 \<and> z div 1024 \<le> ?y div 1024 \<longrightarrow> cmap c1 (d, blk z) = None \<and> sett fs v (d, blk z) w1"
    "holds w1 = holds w" "frame w1 = frame w"
    using evictRange_ok [OF Cons.prems(1,2) b(1) fuel, of d] unfolding start nat_word by blast
  have "\<forall>p\<in>set ps. pend p < 4294966272 \<and> pstart p \<le> pend p" using Cons.prems(3) by simp
  from Cons.IH [OF r(2,3) this] obtain c' w' where i: "evictTokens (flush S fs) d ps (c1, w1) = Inr (c', w')"
    "coh fs c' w' v" "cache_books k c'" "cmap c' \<subseteq>\<^sub>m cmap c1" "\<forall>j. sett fs v j w1 \<longrightarrow> sett fs v j w'"
    "\<forall>p\<in>set ps. \<forall>z. unat (pstart p) div 1024 \<le> z div 1024 \<and> z div 1024 \<le> unat (pend p) div 1024 \<longrightarrow>
       cmap c' (d, blk z) = None \<and> sett fs v (d, blk z) w'" "holds w' = holds w1" "frame w' = frame w1" by blast
  have "cmap c' (d, blk z) = None \<and> sett fs v (d, blk z) w'"
    if "?x div 1024 \<le> z div 1024" "z div 1024 \<le> ?y div 1024" for z
    using r(6) i(5) that map_le_implies_dom_le [OF i(4)] by blast
  moreover have "cmap c' \<subseteq>\<^sub>m cmap c" by (rule map_le_trans [OF i(4) r(4)])
  moreover have "evictTokens (flush S fs) d (p # ps) (c, w) = Inr (c', w')" using r(1) i(1) by simp
  moreover have "\<forall>j. sett fs v j w \<longrightarrow> sett fs v j w'" using r(5) i(5) by blast
  moreover have "holds w' = holds w" "frame w' = frame w" using r(7,8) i(7,8) by simp_all
  ultimately show ?case using i(2,3,6) by (intro exI [of _ c'] exI [of _ w']) auto
qed auto

end

end
