(* ===== verification/File_Add.thy ===== *)
theory File_Add
  imports File
begin

text \<open>
  What \<^verbatim>\<open>File::addPermission\<close> does to the bytes a token vector covers. Each branch of the code
  is brought into the shape: tokens before the run, the replaced run, tokens after it.
\<close>

section \<open>Adding tokens: the bytes covered\<close>

lemma lock_if_False [simp]: "lock_if False p = Inr p"
  by (simp add: lock_if_def)

lemma lock_if_keeps:
  assumes "lock_if b p = Inr q"
  shows "isWrite q = isWrite p" "pstart q = pstart p" "pend q = pend p" "pbytes q = pbytes p"
  using assms by (auto simp: lock_if_def dest: lock_keeps split: if_splits)

definition write_left :: "Permission \<Rightarrow> uint32 \<Rightarrow> Permission list" where
  "write_left ps start =
    (if \<not> isWrite ps \<and> pstart ps < start then [new_Permission (pstart ps) start False] else [])"

definition write_right :: "Permission \<Rightarrow> Permission \<Rightarrow> uint32 \<Rightarrow> Permission list" where
  "write_right ps pe en =
    (if \<not> isWrite pe \<and> pend pe > en then [new_Permission en (pend ps) False] else [])"

lemma addPermission_write_eq:
  assumes "length A = s" "s + length M = e + 1" "M \<noteq> []"
  shows "addPermission_write start en (A @ M @ B) lk s e =
    bindR (lock_if lk (new_Permission (if isWrite (hd M) then min (pstart (hd M)) start else start)
                                      (if isWrite (last M) then max (pend (last M)) en else en) True))
      (\<lambda>permit. Inr (A @ write_left (hd M) start @ permit # write_right (hd M) (last M) en @ B))"
proof -
  have v: "verase s (Suc e) (A @ M @ B) = A @ B"
    using assms by (intro verase_mid) auto
  show ?thesis
    unfolding addPermission_write_def Let_def nth_middle_ends [OF assms] write_left_def
      write_right_def
    using assms by (auto simp: v vinsert_at intro!: arg_cong2 [where f = bindR])
qed

lemma fillReads_shape:
  assumes "length A = s" "fillReads lk s ws newEnd (A @ B) = Inr (newEnd', v)"
    "\<forall>p\<in>set ws. isWrite p"
  shows "newEnd' = (if ws = [] then newEnd else pstart (last ws)) \<and>
    (\<exists>G. v = A @ G @ B \<and> wbytes G = wbytes ws \<and>
         {newEnd'..<newEnd} \<subseteq> rbytes G \<and>
         (\<forall>lo hi. (\<forall>p\<in>set ws. lo \<le> pend p \<and> pstart p \<le> hi) \<longrightarrow> newEnd \<le> hi \<longrightarrow>
            rbytes G \<subseteq> rbytes ws \<union> {lo..<hi}))"
  using assms(2,3)
proof (induction ws arbitrary: newEnd B)
  case Nil
  then show ?case by (auto intro: exI [of _ "[]"])
next
  case (Cons wp ws)
  from Cons.prems(1) obtain permit wp' where
    p: "lock_if lk (new_Permission (pend wp) newEnd False) = Inr permit"
    and w: "lock_if lk wp = Inr wp'"
    and r: "fillReads lk s ws (pstart wp) (A @ wp' # permit # B) = Inr (newEnd', v)"
    using assms(1) by (auto simp: vinsert_at)
  note kp = lock_if_keeps [OF p] and kw = lock_if_keeps [OF w]
  from Cons.IH [OF r] Cons.prems(2) obtain G where
    n: "newEnd' = (if ws = [] then pstart wp else pstart (last ws))" and
    G: "v = A @ G @ wp' # permit # B" "wbytes G = wbytes ws" "{newEnd'..<pstart wp} \<subseteq> rbytes G"
    "\<forall>lo hi. (\<forall>p\<in>set ws. lo \<le> pend p \<and> pstart p \<le> hi) \<longrightarrow> pstart wp \<le> hi \<longrightarrow>
            rbytes G \<subseteq> rbytes ws \<union> {lo..<hi}"
    by auto
  have "rbytes (G @ [wp', permit]) \<subseteq> rbytes (wp # ws) \<union> {lo..<hi}"
    if "\<forall>p\<in>set (wp # ws). lo \<le> pend p \<and> pstart p \<le> hi" "newEnd \<le> hi" for lo hi
  proof -
    have "rbytes G \<subseteq> rbytes ws \<union> {lo..<hi}" using that G(4) by simp
    moreover have "pbytes permit \<subseteq> {lo..<hi}" using that kp by (auto simp: pbytes_def)
    ultimately show ?thesis using kw by auto
  qed
  moreover have "{newEnd'..<newEnd} \<subseteq> rbytes (G @ [wp', permit])"
    using G(3) kp kw by (force simp: pbytes_def)
  moreover have "wbytes (G @ [wp', permit]) = wbytes (wp # ws)"
    using G(2) kp kw Cons.prems(2) by auto
  ultimately show ?case
    using n G(1) by (intro conjI exI [of _ "G @ [wp', permit]"]) auto
qed

lemma keepLastWrite_shape:
  assumes "length A = s" "wps \<noteq> []" "\<forall>p\<in>set wps. isWrite p"
    and k: "keepLastWrite lk s wps ne (A @ B) = Inr (n1, v, ps)"
  shows "\<exists>B1. v = A @ B1 @ B \<and> set ps \<subseteq> set wps \<and> (ps = [] \<longrightarrow> n1 = pstart (last wps)) \<and>
    wbytes ps \<union> wbytes B1 = wbytes wps \<and> rbytes B1 = wbytes B1 \<and> {n1..<ne} \<subseteq> rbytes B1 \<and> n1 \<le> ne"
proof -
  obtain us wl where us: "wps = us @ [wl]" using assms(2) by (metis append_butlast_last_id)
  show ?thesis
  proof (cases "pstart wl \<le> ne \<and> ne \<le> pend wl")
    case True
    with k us assms(1) obtain wl' where wl: "lock_if lk wl = Inr wl'"
      and r: "n1 = pstart wl" "v = A @ wl' # B" "ps = us"
      by (auto simp: keepLastWrite_def vinsert_at)
    with True us assms(3) lock_if_keeps [OF wl] show ?thesis
      by (intro exI [of _ "[wl']"]) (auto simp: pbytes_def)
  next
    case False
    with k us have "n1 = ne" "v = A @ B" "ps = wps"
      by (auto simp: keepLastWrite_def Let_def)
    with assms(2) show ?thesis by (intro exI [of _ "[]"]) simp
  qed
qed

lemma fillFront_shape:
  assumes "length A = s" "fillFront lk s ns n2 (A @ G) = Inr v"
  shows "\<exists>F. v = A @ F @ G \<and> wbytes F = {} \<and> rbytes F \<subseteq> {ns..<n2} \<and>
    (ns \<le> INT_MAX \<and> n2 \<le> INT_MAX \<longrightarrow> {ns..<n2} \<subseteq> rbytes F)"
proof (cases "sint ns < sint n2")
  case True
  with assms obtain permit where p: "lock_if lk (new_Permission ns n2 False) = Inr permit"
    and v: "v = A @ permit # G" by (auto simp: fillFront_def vinsert_at)
  from v lock_if_keeps [OF p] show ?thesis
    by (intro exI [of _ "[permit]"]) (auto simp: pbytes_def)
next
  case False
  then have "{ns..<n2} = {}" if "ns \<le> INT_MAX" "n2 \<le> INT_MAX"
    using that by (simp add: sless_small not_less)
  with False assms(2) show ?thesis
    by (intro exI [of _ "[]"]) (auto simp: fillFront_def)
qed

definition read_start :: "Permission \<Rightarrow> uint32 \<Rightarrow> uint32" where
  "read_start ps start = (if \<not> isWrite ps \<and> pstart ps < start then pstart ps else start)"

definition read_end :: "Permission \<Rightarrow> uint32 \<Rightarrow> uint32" where
  "read_end pe en = (if \<not> isWrite pe \<and> pend pe > en then pend pe else en)"

lemma read_bounds: "read_start ps start \<le> start" "en \<le> read_end pe en"
  by (auto simp: read_start_def read_end_def)

lemma inclusive_iff: "isInclusiveShared p start en \<longleftrightarrow> pstart p \<le> en \<and> start \<le> pend p"
  by (auto simp: isInclusiveShared_def)

lemma addPermission_read_shape:
  assumes cut: "length A = s" "s + length M = e + 1" "M \<noteq> []"
    and shared: "\<forall>p\<in>set M. isInclusiveShared p start en"
    and r: "addPermission_read start en (A @ M @ B) lk s e = Inr v"
  defines "ns \<equiv> read_start (hd M) start" and "ne \<equiv> read_end (last M) en"
  shows "\<exists>G. v = A @ G @ B \<and> wbytes G = wbytes M \<and> rbytes G \<subseteq> wbytes M \<union> {ns..<ne} \<and>
    (start \<le> INT_MAX \<and> (\<forall>p\<in>set M. pstart p \<le> INT_MAX) \<longrightarrow> {ns..<ne} \<subseteq> rbytes G)"
proof -
  have v: "verase s (e + 1) (A @ M @ B) = A @ B"
    using cut by (intro verase_mid) auto
  have m: "take (e + 1 - s) (drop s (A @ M @ B)) = M" using cut by auto
  let ?ws = "filter isWrite M"
  have ws: "\<forall>p\<in>set ?ws. isWrite p" "wbytes ?ws = wbytes M"
    by (auto simp: wbytes_def)
  have lohi: "\<forall>p\<in>set M. ns \<le> pend p \<and> pstart p \<le> ne"
    using shared read_bounds(1) [of "hd M" start] read_bounds(2) [of en "last M"]
    unfolding ns_def ne_def inclusive_iff by (meson order_trans)
  note r' = r [unfolded addPermission_read_def Let_def nth_middle_ends [OF cut] v m,
      folded read_start_def read_end_def, folded ns_def ne_def]
  show ?thesis
  proof (cases "?ws = []")
    case True
    with r' obtain permit where p: "lock_if lk (new_Permission ns ne False) = Inr permit"
      and v': "v = A @ permit # B" using cut(1) by (auto simp: vinsert_at)
    have "wbytes M = {}" using True ws(2) by (metis bytes_Nil(2))
    with v' lock_if_keeps [OF p] show ?thesis
      by (intro exI [of _ "[permit]"]) (auto simp: pbytes_def)
  next
    case False
    with r' obtain n1 v1 ps n2 v2 where k: "keepLastWrite lk s ?ws ne (A @ B) = Inr (n1, v1, ps)"
      and l: "fillReads lk s (rev ps) n1 v1 = Inr (n2, v2)"
      and f: "fillFront lk s ns n2 v2 = Inr v"
      by auto
    from keepLastWrite_shape [OF cut(1) False ws(1) k] obtain B1 where
      v1: "v1 = A @ B1 @ B" and ps: "set ps \<subseteq> set ?ws" "ps = [] \<longrightarrow> n1 = pstart (last ?ws)"
      and B1: "wbytes ps \<union> wbytes B1 = wbytes ?ws" "rbytes B1 = wbytes B1"
        "{n1..<ne} \<subseteq> rbytes B1" and n1: "n1 \<le> ne" by blast
    have psw: "\<forall>p\<in>set (rev ps). isWrite p" using ps(1) by auto
    from fillReads_shape [OF cut(1) l [unfolded v1] psw] obtain G where
      n2: "n2 = (if rev ps = [] then n1 else pstart (last (rev ps)))" and
      G: "v2 = A @ G @ B1 @ B" "wbytes G = wbytes (rev ps)" "{n2..<n1} \<subseteq> rbytes G"
      "\<forall>lo hi. (\<forall>p\<in>set (rev ps). lo \<le> pend p \<and> pstart p \<le> hi) \<longrightarrow> n1 \<le> hi \<longrightarrow>
            rbytes G \<subseteq> rbytes (rev ps) \<union> {lo..<hi}" by blast
    have n2M: "\<exists>p\<in>set M. n2 = pstart p"
      using n2 ps last_in_set [OF False] by (cases ps) auto
    from fillFront_shape [OF cut(1) f [unfolded G(1)]] obtain F where
      F: "v = A @ F @ G @ B1 @ B" "wbytes F = {}" "rbytes F \<subseteq> {ns..<n2}"
      "ns \<le> INT_MAX \<and> n2 \<le> INT_MAX \<longrightarrow> {ns..<n2} \<subseteq> rbytes F" by blast
    have rps: "rbytes (rev ps) = wbytes ps" "wbytes (rev ps) = wbytes ps"
      using psw by (auto simp: rbytes_def wbytes_def)
    have "rbytes G \<subseteq> wbytes ps \<union> {ns..<ne}"
      using G(4) n1 lohi ps(1) rps(1) by (metis filter_is_subset set_rev subset_iff)
    moreover have "rbytes F \<subseteq> {ns..<ne}"
    proof -
      have "n2 \<le> ne" using n2M lohi by blast
      then have "{ns..<n2} \<subseteq> {ns..<ne}" by auto
      with F(3) show ?thesis by (rule subset_trans)
    qed
    moreover have "{ns..<ne} \<subseteq> rbytes (F @ G @ B1)"
      if i: "start \<le> INT_MAX" "\<forall>p\<in>set M. pstart p \<le> INT_MAX"
    proof -
      have "ns \<le> INT_MAX" using i(1) read_bounds(1) unfolding ns_def by (meson order_trans)
      moreover have "n2 \<le> INT_MAX" using i(2) n2M by blast
      ultimately show ?thesis using ivl_cover [of ns ne n2 n1] G(3) B1(3) F(4) by auto
    qed
    ultimately show ?thesis
      using F(1,2) G(2) B1(1,2) rps(2) ws(2) by (intro exI [of _ "F @ G @ B1"]) auto
  qed
qed

text \<open>The ranges a run of touching tokens is widened to stay inside run and request.\<close>

lemma read_range:
  assumes "M \<noteq> []" "\<forall>p\<in>set M. isInclusiveShared p start en" 
  shows "{read_start (hd M) start..<read_end (last M) en} \<subseteq> rbytes M \<union> {start..<en}"
proof -
  have h: "pbytes (hd M) \<subseteq> rbytes M" "pbytes (last M) \<subseteq> rbytes M"
    using hd_in_set [OF assms(1)] last_in_set [OF assms(1)] by (auto simp: rbytes_def)
  have i: "pstart (hd M) \<le> en" "start \<le> pend (hd M)" "pstart (last M) \<le> en" "start \<le> pend (last M)"
    using assms hd_in_set last_in_set unfolding inclusive_iff by blast+
  have "{read_start (hd M) start..<start} \<subseteq> pbytes (hd M)"
    using i by (auto simp: read_start_def pbytes_def)
  moreover have "{en..<read_end (last M) en} \<subseteq> pbytes (last M)"
    using i by (auto simp: read_end_def pbytes_def)
  ultimately show ?thesis
    using h ivl_cover [of "read_start (hd M) start" "read_end (last M) en" start en] by blast
qed

lemma addPermission_new_shape:
  assumes "addPermission_new start en w perms lk = Inr v"
  shows "\<exists>A B q. perms = A @ B \<and> v = A @ q # B \<and> pstart q = start \<and> pend q = en \<and> isWrite q = w"
proof -
  have v: "\<exists>q. lock_if lk (new_Permission start en w) = Inr q \<and>
      (v = q # perms \<or> (\<exists>i. v = vinsert i q perms))"
    using assms unfolding addPermission_new_def
    by (auto split: if_splits option.splits)
  then obtain q where q: "lock_if lk (new_Permission start en w) = Inr q"
    and v: "v = q # perms \<or> (\<exists>i. v = vinsert i q perms)" by blast
  note k = lock_if_keeps [OF q]
  from v show ?thesis
  proof
    assume "v = q # perms"
    then show ?thesis using k by (intro exI [of _ "[]"] exI [of _ perms] exI [of _ q]) simp
  next
    assume "\<exists>i. v = vinsert i q perms"
    then obtain i where "v = take i perms @ q # drop i perms" by (auto simp: vinsert_def)
    then show ?thesis using k
      by (intro exI [of _ "take i perms"] exI [of _ "drop i perms"] exI [of _ q]) simp
  qed
qed

lemma write_range:
  assumes "M \<noteq> []" "\<forall>p\<in>set M. isInclusiveShared p start en" 
  defines "ns \<equiv> if isWrite (hd M) then min (pstart (hd M)) start else start"
    and "ne \<equiv> if isWrite (last M) then max (pend (last M)) en else en"
  shows "{ns..<ne} \<subseteq> wbytes M \<union> {start..<en}" "{start..<en} \<subseteq> {ns..<ne}"
    "rbytes (write_left (hd M) start) \<subseteq> rbytes M" "rbytes (write_right (hd M) (last M) en) \<subseteq> rbytes M"
    "wbytes (write_left (hd M) start) = {}" "wbytes (write_right (hd M) (last M) en) = {}"
proof -
  have m: "hd M \<in> set M" "last M \<in> set M" using assms(1) by simp_all
  then have h: "pbytes (hd M) \<subseteq> rbytes M" "pbytes (last M) \<subseteq> rbytes M"
    "isWrite (hd M) \<longrightarrow> pbytes (hd M) \<subseteq> wbytes M" "isWrite (last M) \<longrightarrow> pbytes (last M) \<subseteq> wbytes M"
    by (auto simp: rbytes_def wbytes_def)
  have i: "pstart (hd M) \<le> en" "start \<le> pend (hd M)" "pstart (last M) \<le> en" "start \<le> pend (last M)"
    using m assms(2) unfolding inclusive_iff by blast+
  have "{ns..<start} \<subseteq> (if isWrite (hd M) then pbytes (hd M) else {})"
    using i by (auto simp: ns_def pbytes_def min_def)
  then have "{ns..<start} \<subseteq> wbytes M" using h(3) by (auto split: if_splits)
  moreover have "{en..<ne} \<subseteq> (if isWrite (last M) then pbytes (last M) else {})"
    using i by (auto simp: ne_def pbytes_def max_def)
  then have "{en..<ne} \<subseteq> wbytes M" using h(4) by (auto split: if_splits)
  ultimately show "{ns..<ne} \<subseteq> wbytes M \<union> {start..<en}"
    using ivl_cover [of ns ne start en] by blast
  show "{start..<en} \<subseteq> {ns..<ne}" by (auto simp: ns_def ne_def)
  show "rbytes (write_left (hd M) start) \<subseteq> rbytes M"
    by (rule subset_trans [OF _ h(1)]) (use i in \<open>auto simp: write_left_def pbytes_def\<close>)
  show "rbytes (write_right (hd M) (last M) en) \<subseteq> rbytes M"
    by (rule subset_trans [OF _ h(1)]) (use i in \<open>auto simp: write_right_def pbytes_def\<close>)
qed (simp_all add: write_left_def write_right_def)

lemma addPermission_cases:
  assumes "addPermission start en w perms lk = Inr perms'"
  obtains
    (New) A B q where "perms = A @ B" "perms' = A @ q # B" "pstart q = start" "pend q = en"
      "isWrite q = w"
  | (Write) A M B permit where "w" "perms = A @ M @ B" "M \<noteq> []"
      "\<forall>p\<in>set M. isInclusiveShared p start en"
      "perms' = A @ write_left (hd M) start @ permit # write_right (hd M) (last M) en @ B"
      "isWrite permit"
      "pstart permit = (if isWrite (hd M) then min (pstart (hd M)) start else start)"
      "pend permit = (if isWrite (last M) then max (pend (last M)) en else en)"
  | (Read) A M B G where "\<not> w" "perms = A @ M @ B" "M \<noteq> []"
      "\<forall>p\<in>set M. isInclusiveShared p start en" "perms' = A @ G @ B" "wbytes G = wbytes M"
      "rbytes G \<subseteq> wbytes M \<union> {read_start (hd M) start..<read_end (last M) en}"
      "start \<le> INT_MAX \<Longrightarrow> (\<forall>p\<in>set perms. pstart p \<le> INT_MAX) \<Longrightarrow>
       {read_start (hd M) start..<read_end (last M) en} \<subseteq> rbytes G"
proof (cases "first_index (\<lambda>p. isInclusiveShared p start en) perms")
  case None
  with assms have "addPermission_new start en w perms lk = Inr perms'"
    by (simp add: addPermission_def)
  from addPermission_new_shape [OF this] New show thesis by blast
next
  case (Some s)
  define e where "e = (case first_index (\<lambda>p. \<not> isInclusiveShared p start en) (drop (s + 1) perms) of
     Some j \<Rightarrow> s + 1 + j - 1 | None \<Rightarrow> s)"
  obtain A M B where cut: "perms = A @ M @ B" "length A = s"
    "s + length M = e + 1" "M \<noteq> []" and sh: "\<forall>p\<in>set M. isInclusiveShared p start en"
    "\<forall>p\<in>set A. \<not> isInclusiveShared p start en"
    by (rule run_cut [OF Some e_def])
  show thesis
  proof (cases w)
    case True
    with assms Some e_def cut(1) have "addPermission_write start en (A @ M @ B) lk s e = Inr perms'"
      by (simp add: addPermission_def)
    with addPermission_write_eq [OF cut(2-4)] obtain permit where
      "lock_if lk (new_Permission (if isWrite (hd M) then min (pstart (hd M)) start else start)
                                  (if isWrite (last M) then max (pend (last M)) en else en) True) = Inr permit"
      and p': "perms' = A @ write_left (hd M) start @ permit # write_right (hd M) (last M) en @ B"
      by auto
    with Write [OF True cut(1,4) sh(1) p'] lock_if_keeps [OF this(1)] show thesis
      by simp
  next
    case False
    with assms Some e_def cut(1) have "addPermission_read start en (A @ M @ B) lk s e = Inr perms'"
      by (simp add: addPermission_def)
    from addPermission_read_shape [OF cut(2-4) sh(1) this] obtain G where
      G: "perms' = A @ G @ B" "wbytes G = wbytes M"
      "rbytes G \<subseteq> wbytes M \<union> {read_start (hd M) start..<read_end (last M) en}"
      "start \<le> INT_MAX \<and> (\<forall>p\<in>set M. pstart p \<le> INT_MAX) \<longrightarrow>
       {read_start (hd M) start..<read_end (last M) en} \<subseteq> rbytes G" by blast
    show thesis
      by (rule Read [OF False cut(1,4) sh(1) G(1-3)]) (use G(4) cut(1) in auto)
  qed
qed

lemma addPermission_bytes:
  assumes "addPermission start en w perms lk = Inr perms'"
  shows "rbytes perms' \<subseteq> rbytes perms \<union> {start..<en} \<and>
    wbytes perms' \<subseteq> wbytes perms \<union> (if w then {start..<en} else {})"
  using assms
proof (cases rule: addPermission_cases)
  case (New A B q)
  then show ?thesis by (auto simp: pbytes_def)
next
  case (Write A M B permit)
  note wr = write_range [OF Write(3,4)]
  from wr(1) Write(7,8) have "pbytes permit \<subseteq> wbytes M \<union> {start..<en}" by (simp add: pbytes_def)
  then show ?thesis using wr(3-6) Write wbytes_subset_rbytes [of M] by auto
next
  case (Read A M B G)
  then show ?thesis using read_range [OF Read(3,4)] wbytes_subset_rbytes [of M] by auto
qed

lemma addPermission_covers:
  assumes "addPermission start en w perms lk = Inr perms'"
    "start \<le> INT_MAX" "\<forall>p\<in>set perms. pstart p \<le> INT_MAX"
  shows "{start..<en} \<subseteq> (if w then wbytes perms' else rbytes perms')"
  using assms(1)
proof (cases rule: addPermission_cases)
  case (New A B q)
  then show ?thesis by (auto simp: pbytes_def)
next
  case (Write A M B permit)
  have "{start..<en} \<subseteq> pbytes permit" using write_range(2) [OF Write(3,4)] Write(7,8)
    by (simp add: pbytes_def)
  then show ?thesis using Write(1,5,6) by auto
next
  case (Read A M B G)
  have "{start..<en} \<subseteq> {read_start (hd M) start..<read_end (last M) en}"
    using read_bounds(1) [of "hd M" start] read_bounds(2) [of en "last M"] by auto
  then have "{start..<en} \<subseteq> rbytes G" using Read(8) [OF assms(2,3)] by (rule subset_trans)
  then show ?thesis using Read(1,5) by auto
qed

end
