(* ===== verification/File_Query.thy ===== *)
theory File_Query
  imports File_Add
begin

text \<open>
  What \<^verbatim>\<open>File::hasPermission\<close> answers and what \<^verbatim>\<open>File::revokePermission\<close> takes away, in terms of
  the bytes a token vector covers.
\<close>

section \<open>Well-formed lists\<close>

definition wf_perms :: "Permission list \<Rightarrow> bool" where
  "wf_perms ps \<longleftrightarrow> sorted_wrt (\<lambda>p q. pend p \<le> pstart q) ps \<and> (\<forall>p\<in>set ps. pstart p < pend p)"

lemma wf_perms_simps [simp]:
  "wf_perms []"
  "wf_perms (p # ps) \<longleftrightarrow> pstart p < pend p \<and> (\<forall>q\<in>set ps. pend p \<le> pstart q) \<and> wf_perms ps"
  "wf_perms (ps @ qs) \<longleftrightarrow> wf_perms ps \<and> wf_perms qs \<and> (\<forall>p\<in>set ps. \<forall>q\<in>set qs. pend p \<le> pstart q)"
  by (auto simp: wf_perms_def sorted_wrt_append)

subsection \<open>hasPermission\<close>

lemma chain_cover:
  fixes f :: "nat \<Rightarrow> 'a::linorder"
  assumes "f s \<le> x" "x < f (Suc e)" "s \<le> e"
  shows "\<exists>i\<in>{s..e}. f i \<le> x \<and> x < f (Suc i)"
  using assms(3,2)
proof (induction e rule: dec_induct)
  case base
  then show ?case using assms(1) by auto
next
  case (step n)
  show ?case
  proof (cases "x < f (Suc n)")
    case True
    then show ?thesis using step by fastforce
  next
    case False
    then show ?thesis using step by (intro bexI [of _ "Suc n"]) auto
  qed
qed

lemma hasPermission_bounds:
  assumes "hasPermission start en w perms"
  obtains s e where "s \<le> e" "e < length perms" "pstart (perms ! s) \<le> start" "en \<le> pend (perms ! e)"
    "\<forall>i. s \<le> i \<and> i < e \<longrightarrow> pend (perms ! i) = pstart (perms ! Suc i)"
    "w \<longrightarrow> (\<forall>i. s \<le> i \<and> i \<le> e \<longrightarrow> isWrite (perms ! i))"
proof -
  define r where "r = first_index (\<lambda>p. pstart p > start) perms"
  define s where "s = (case r of Some i \<Rightarrow> i - 1 | None \<Rightarrow> length perms - 1)"
  define e where "e = (case first_index (\<lambda>p. pend p \<ge> en) (drop s perms) of
                       Some j \<Rightarrow> s + j | None \<Rightarrow> length perms - 1)"
  note h = assms [unfolded hasPermission_def Let_def, folded r_def, folded s_def, folded e_def]
  have ne: "perms \<noteq> []" using h by (auto split: if_splits)
  have s: "s < length perms" 
    using ne by (auto simp: s_def r_def first_index_Some split: option.splits)
  have e: "s \<le> e" "e < length perms"
    using s by (auto simp: e_def first_index_Some split: option.splits)
  show thesis
    by (rule that [OF e]) (use h in \<open>auto simp: not_less split: if_splits\<close>)
qed

lemma hasPermission_sound:
  assumes "hasPermission start en w perms"
  shows "{start..<en} \<subseteq> (if w then wbytes perms else rbytes perms)"
proof
  fix x assume x: "x \<in> {start..<en}"
  obtain s e where se: "s \<le> e" "e < length perms" "pstart (perms ! s) \<le> start" "en \<le> pend (perms ! e)"
    "\<forall>i. s \<le> i \<and> i < e \<longrightarrow> pend (perms ! i) = pstart (perms ! Suc i)"
    "w \<longrightarrow> (\<forall>i. s \<le> i \<and> i \<le> e \<longrightarrow> isWrite (perms ! i))"
    by (rule hasPermission_bounds [OF assms])
  define f where "f i = (if i \<le> e then pstart (perms ! i) else pend (perms ! e))" for i
  have fS: "f (Suc i) = pend (perms ! i)" if "s \<le> i" "i \<le> e" for i
    using that se(5) by (cases "i = e") (auto simp: f_def)
  have "f s \<le> x" "x < f (Suc e)" using x se by (auto simp: f_def)
  from chain_cover [OF this se(1)] obtain i where i: "s \<le> i" "i \<le> e" "f i \<le> x" "x < f (Suc i)"
    by auto
  then have "x \<in> pbytes (perms ! i)" using fS by (simp add: f_def pbytes_def)
  moreover have "perms ! i \<in> set perms" using i se by simp
  ultimately show "x \<in> (if w then wbytes perms else rbytes perms)"
    using i se(6) by (auto simp: rbytes_def wbytes_def)
qed


lemma wf_permsD:
  assumes "wf_perms perms" "j < length perms"
  shows "i < j \<Longrightarrow> pend (perms ! i) \<le> pstart (perms ! j)" "pstart (perms ! j) < pend (perms ! j)"
  using assms by (auto simp: wf_perms_def sorted_wrt_iff_nth_less)

lemma wf_perms_mono:
  assumes "wf_perms perms" "i \<le> j" "j < length perms"
  shows "pstart (perms ! i) \<le> pstart (perms ! j)" "pend (perms ! i) \<le> pend (perms ! j)"
proof -
  have "pstart (perms ! i) \<le> pstart (perms ! j) \<and> pend (perms ! i) \<le> pend (perms ! j)"
  proof (cases "i = j")
    case False
    then have "pend (perms ! i) \<le> pstart (perms ! j)" using assms by (intro wf_permsD(1)) auto
    moreover have "pstart (perms ! i) < pend (perms ! i)" "pstart (perms ! j) < pend (perms ! j)"
      using assms by (auto intro: wf_permsD(2))
    ultimately show ?thesis by (intro conjI; order)
  qed simp
  then show "pstart (perms ! i) \<le> pstart (perms ! j)" "pend (perms ! i) \<le> pend (perms ! j)" by auto
qed

lemma wf_perms_unique:
  assumes "wf_perms perms" "i < length perms" "k < length perms"
    "x \<in> pbytes (perms ! i)" "x \<in> pbytes (perms ! k)"
  shows "i = k"
proof (rule ccontr)
  assume "i \<noteq> k"
  then have "i < k \<or> k < i" by auto
  with wf_permsD(1) [OF assms(1,3), of i] wf_permsD(1) [OF assms(1,2), of k] assms(4,5)
  show False by (auto simp: pbytes_def)
qed

lemma covered_index:
  assumes "x \<in> (if w then wbytes perms else rbytes perms)"
  obtains i where "i < length perms" "x \<in> pbytes (perms ! i)" "w \<longrightarrow> isWrite (perms ! i)"
  using assms by (auto simp: rbytes_def wbytes_def in_set_conv_nth split: if_splits)

lemma first_greater:
  assumes "wf_perms perms" "i < length perms" "start \<in> pbytes (perms ! i)"
  shows "first_index (\<lambda>p. pstart p > start) perms =
    (if Suc i < length perms then Some (Suc i) else None)"
proof -
  have le: "\<not> pstart (perms ! j) > start" if "j \<le> i" for j
    using wf_perms_mono(1) [OF assms(1) that assms(2)] assms(3) by (auto simp: pbytes_def)
  show ?thesis
  proof (cases "Suc i < length perms")
    case True
    have "pstart (perms ! Suc i) > start"
      using wf_permsD(1) [OF assms(1) True, of i] assms(3) by (auto simp: pbytes_def)
    with True le show ?thesis by (simp add: first_index_Some less_Suc_eq_le)
  next
    case False
    have "\<forall>p\<in>set perms. \<not> pstart p > start"
    proof
      fix p assume "p \<in> set perms"
      then obtain j where "j < length perms" "p = perms ! j" by (auto simp: in_set_conv_nth)
      with False le [of j] show "\<not> pstart p > start" by simp
    qed
    then have "first_index (\<lambda>p. pstart p > start) perms = None" by (simp only: first_index_None)
    with False show ?thesis by simp
  qed
qed

lemma first_in_drop:
  assumes "s \<le> k" "k < length xs" "P (xs ! k)"
  defines "e \<equiv> (case first_index P (drop s xs) of Some j \<Rightarrow> s + j | None \<Rightarrow> length xs - 1)"
  shows "s \<le> e" "e < length xs" "P (xs ! e)" "\<forall>i. s \<le> i \<and> i < e \<longrightarrow> \<not> P (xs ! i)"
proof -
  have "drop s xs ! (k - s) = xs ! k" "k - s < length (drop s xs)" using assms by auto
  then have "\<exists>x\<in>set (drop s xs). P x" using assms(3) by (metis nth_mem)
  then obtain j where j: "first_index P (drop s xs) = Some j"
    by (cases "first_index P (drop s xs)") (simp_all only: first_index_None, auto)
  then have "j < length (drop s xs)" "P (drop s xs ! j)" "\<forall>i<j. \<not> P (drop s xs ! i)"
    unfolding first_index_Some by auto
  moreover have "\<not> P (xs ! i)" if "s \<le> i" "i < s + j" for i
    using calculation(3) [rule_format, of "i - s"] that assms(1,2) by auto
  ultimately show "s \<le> e" "e < length xs" "P (xs ! e)" "\<forall>i. s \<le> i \<and> i < e \<longrightarrow> \<not> P (xs ! i)"
    using assms(1,2) by (auto simp: e_def j)
qed

text \<open>
  A covered request on a well-formed vector: its tokens are adjacent, none of them is a read
  token when the cover is for writing, and one of them reaches the end.
\<close>

lemma covered_adjacent:
  assumes wf: "wf_perms perms" and cov: "{start..<en} \<subseteq> rbytes perms"
    and s: "start < pend (perms ! i)" and i: "Suc i < length perms" "pend (perms ! i) < en"
  shows "pend (perms ! i) = pstart (perms ! Suc i)"
proof (rule ccontr)
  let ?y = "pend (perms ! i)"
  assume "?y \<noteq> pstart (perms ! Suc i)"
  with wf_permsD(1) [OF wf i(1), of i] have gap: "?y < pstart (perms ! Suc i)" by auto
  have "?y \<in> {start..<en}" using s i(2) by simp
  with cov have "?y \<in> (if False then wbytes perms else rbytes perms)" by auto
  then obtain l where l: "l < length perms" "?y \<in> pbytes (perms ! l)" by (rule covered_index)
  show False
  proof (cases "l \<le> i")
    case True
    with wf_perms_mono(2) [OF wf True] i l(2) show False by (auto simp: pbytes_def)
  next
    case False
    with wf_perms_mono(1) [OF wf _ l(1), of "Suc i"] l(2) gap show False
      by (auto simp: pbytes_def)
  qed
qed

lemma covered_write:
  assumes wf: "wf_perms perms" and cov: "{start..<en} \<subseteq> wbytes perms" and "start < en"
    and i: "i < length perms" "pstart (perms ! i) < en" "start < pend (perms ! i)"
  shows "isWrite (perms ! i)"
proof -
  let ?y = "max start (pstart (perms ! i))"
  have "?y \<in> {start..<en}" using assms(3) i by simp
  with cov have "?y \<in> (if True then wbytes perms else rbytes perms)" by auto
  then obtain l where l: "l < length perms" "?y \<in> pbytes (perms ! l)" "True \<longrightarrow> isWrite (perms ! l)"
    by (rule covered_index)
  have "?y \<in> pbytes (perms ! i)"
    using wf_permsD(2) [OF wf i(1)] i by (auto simp: pbytes_def)
  with l wf_perms_unique [OF wf l(1) i(1)] have "l = i" by auto
  with l(3) show ?thesis by simp
qed

lemma covered_last:
  assumes wf: "wf_perms perms" and cov: "{start..<en} \<subseteq> rbytes perms" and "start < en"
    and s: "s < length perms" "start \<in> pbytes (perms ! s)"
  obtains k where "s \<le> k" "k < length perms" "en \<le> pend (perms ! k)"
proof -
  define m where "m = Max {start..<en}"
  have m: "m \<in> {start..<en}" "\<And>x. x \<in> {start..<en} \<Longrightarrow> x \<le> m"
    unfolding m_def using assms(3) by (auto intro: Max_in)
  from m(1) cov have "m \<in> (if False then wbytes perms else rbytes perms)" by auto
  then obtain k where k: "k < length perms" "m \<in> pbytes (perms ! k)"
    by (rule covered_index)
  have "en \<le> pend (perms ! k)"
  proof (rule ccontr)
    assume "\<not> en \<le> pend (perms ! k)"
    with k(2) m(1) have "pend (perms ! k) \<in> {start..<en}" by (auto simp: pbytes_def)
    with m(2) k(2) show False by (fastforce simp: pbytes_def)
  qed
  moreover have "s \<le> k"
  proof (rule ccontr)
    assume "\<not> s \<le> k"
    then have "pend (perms ! k) \<le> pstart (perms ! s)" by (intro wf_permsD(1) [OF wf s(1)]) simp
    moreover have "pstart (perms ! s) \<le> start" "start \<le> m" "m < pend (perms ! k)"
      using s(2) m(1) k(2) by (auto simp: pbytes_def)
    ultimately show False by order
  qed
  ultimately show thesis using that k(1) by blast
qed

lemma hasPermission_complete:
  assumes wf: "wf_perms perms" and "start < en"
    and cov: "{start..<en} \<subseteq> (if w then wbytes perms else rbytes perms)"
  shows "hasPermission start en w perms"
proof -
  have covr: "{start..<en} \<subseteq> rbytes perms"
    using cov wbytes_subset_rbytes [of perms] by (auto split: if_splits)
  have "start \<in> (if w then wbytes perms else rbytes perms)"
    by (rule subsetD [OF cov]) (use assms(2) in simp)
  then obtain s where s: "s < length perms" "start \<in> pbytes (perms ! s)"
    by (rule covered_index)
  obtain k where k: "s \<le> k" "k < length perms" "en \<le> pend (perms ! k)"
    by (rule covered_last [OF wf covr assms(2) s])
  define e where "e = (case first_index (\<lambda>p. pend p \<ge> en) (drop s perms) of
                       Some j \<Rightarrow> s + j | None \<Rightarrow> length perms - 1)"
  have e: "s \<le> e" "e < length perms" "en \<le> pend (perms ! e)"
    "\<And>i. s \<le> i \<Longrightarrow> i < e \<Longrightarrow> pend (perms ! i) < en"
    using first_in_drop [of s k perms "\<lambda>p. pend p \<ge> en"] k unfolding e_def
    by (auto simp: not_le)
  have sp: "start < pend (perms ! i)" if "s \<le> i" "i \<le> e" for i
    using wf_perms_mono(2) [OF wf that(1)] that e(2) s(2) by (auto simp: pbytes_def)
  have adj: "pend (perms ! i) = pstart (perms ! Suc i)" if "s \<le> i" "i < e" for i
    using covered_adjacent [OF wf covr sp _ e(4) [OF that]] that e(2) by simp
  have pe: "pstart (perms ! i) < en" if "s \<le> i" "i \<le> e" for i
    using that s(2) assms(2) adj [of "i - 1"] e(4) [of "i - 1"]
    by (cases "i = s") (auto simp: pbytes_def)
  have wr: "isWrite (perms ! i)" if "s \<le> i" "i \<le> e" w for i
    using covered_write [OF wf _ assms(2) _ pe sp] cov that e(2) by simp
  have sidx: "(case first_index (\<lambda>p. pstart p > start) perms of Some i \<Rightarrow> i - 1
       | None \<Rightarrow> length perms - 1) = s"
    and nz: "first_index (\<lambda>p. pstart p > start) perms \<noteq> Some 0"
    using s(1) by (auto simp: first_greater [OF wf s])
  have "perms \<noteq> []" using s(1) by auto
  with nz e adj wr s(2) show ?thesis
    unfolding hasPermission_def Let_def sidx e_def [symmetric]
    by (auto simp: pbytes_def less_Suc_eq_le)
qed

section \<open>revokePermission\<close>

text \<open>What a trimmed token leaves before the range and behind it.\<close>

definition keep_left :: "Permission \<Rightarrow> uint32 \<Rightarrow> Permission list \<Rightarrow> bool" where
  "keep_left p start L \<longleftrightarrow>
    (if pstart p < start
     then \<exists>l. L = [l] \<and> isWrite l = isWrite p \<and> pstart l = pstart p \<and> pend l = start
     else L = [])"

definition keep_right :: "Permission \<Rightarrow> uint32 \<Rightarrow> Permission list \<Rightarrow> bool" where
  "keep_right p en R \<longleftrightarrow>
    (if en < pend p
     then \<exists>r. R = [r] \<and> isWrite r = isWrite p \<and> pstart r = en \<and> pend r = pend p
     else R = [])"

lemma revokeOne_shape:
  assumes "length A = s"
  shows "\<exists>L R. keep_left p start L \<and> keep_right p en R \<and>
    revokeOne start en (A @ [p] @ B) s = A @ L @ R @ B"
proof -
  have v: "verase s (Suc s) (A @ p # B) = A @ B" "(A @ p # B) ! s = p"
    using assms by (auto simp: verase_def nth_append)
  define L where "L = (if pstart p < start then [new_Permission (pstart p) start (isWrite p)] else [])"
  define R where "R = (if en < pend p then [new_Permission en (pend p) (isWrite p)] else [])"
  have "revokeOne start en (A @ [p] @ B) s = A @ L @ R @ B"
    using assms v by (simp add: revokeOne_def L_def R_def vinsert_at Let_def)
  moreover have "keep_left p start L" "keep_right p en R"
    by (simp_all add: keep_left_def keep_right_def L_def R_def)
  ultimately show ?thesis by blast
qed

lemma revokeRun_shape:
  assumes "length A = s" "e = s + length N + 1"
  shows "\<exists>L R. keep_left p start L \<and> keep_right q en R \<and>
    revokeRun start en (A @ (p # N @ [q]) @ B) s e = A @ L @ R @ B"
proof -
  let ?p = "p\<lparr>pend := start\<rparr>" and ?q = "q\<lparr>pstart := en\<rparr>"
  have ups: "(A @ p # N @ q # B) ! s = p" "(A @ p # N @ q # B)[s := ?p] = A @ ?p # N @ q # B"
    using assms(1) by (auto simp: nth_append list_update_append)
  have upe: "(A @ r # N @ q # B) ! e = q" "(A @ r # N @ q # B)[e := ?q] = A @ r # N @ ?q # B" for r
    using assms by (auto simp: nth_append list_update_append nth_Cons')
  define L where "L = (if pstart p < start then [?p] else [])"
  define R where "R = (if en < pend q then [?q] else [])"
  have "keep_left p start L" "keep_right q en R"
    by (simp_all add: keep_left_def keep_right_def L_def R_def)
  moreover have "revokeRun start en (A @ (p # N @ [q]) @ B) s e = A @ L @ R @ B"
    by (simp add: revokeRun_def ups upe L_def R_def) (auto simp: assms verase_def Suc_le_eq)
  ultimately show ?thesis by blast
qed

lemma revokePermission_cases:
  obtains
    (None) "\<forall>p\<in>set ps. \<not> isShared p start en" "revokePermission start en ps = ps"
  | (Some) A M B L R where "ps = A @ M @ B" "M \<noteq> []"
     "isShared (hd M) start en" "isShared (last M) start en"
     "\<forall>p\<in>set A. \<not> isShared p start en" "\<forall>p\<in>set B. \<not> isShared p start en"
     "revokePermission start en ps = A @ L @ R @ B"
     "keep_left (hd M) start L" "keep_right (last M) en R"
proof (cases "first_index (\<lambda>p. isShared p start en) ps")
  case F: None
  then have "\<forall>p\<in>set ps. \<not> isShared p start en" by (simp only: first_index_None)
  moreover have "revokePermission start en ps = ps" by (simp add: revokePermission_def F)
  ultimately show thesis by (rule None)
next
  case F: (Some s)
  show thesis
  proof (cases "last_index (\<lambda>p. isShared p start en) ps")
    case L: None
    then have "\<forall>p\<in>set ps. \<not> isShared p start en" by (simp only: last_index_None)
    moreover have "revokePermission start en ps = ps" by (simp add: revokePermission_def F L)
    ultimately show thesis by (rule None)
  next
    case L: (Some e)
    obtain A M B where cut: "ps = A @ M @ B" "length A = s" "s + length M = e + 1" "M \<noteq> []"
      "isShared (hd M) start en" "isShared (last M) start en"
      "\<forall>p\<in>set A. \<not> isShared p start en" "\<forall>p\<in>set B. \<not> isShared p start en"
      by (rule index_cut [OF F L])
    have rev: "revokePermission start en ps =
        (if s = e then revokeOne start en ps s else revokeRun start en ps s e)"
      by (simp add: revokePermission_def F L)
    have "\<exists>L R. keep_left (hd M) start L \<and> keep_right (last M) en R \<and>
       revokePermission start en ps = A @ L @ R @ B"
    proof (cases "s = e")
      case True
      with cut(3,4) obtain p where "M = [p]" by (cases M) auto
      with True revokeOne_shape [OF cut(2), of p start en B] show ?thesis
        unfolding rev unfolding cut(1) by simp
    next
      case False
      then obtain p N q where M: "M = p # N @ [q]"
        using cut(3,4) by (cases M; cases "tl M" rule: rev_cases) auto
      then have "e = s + length N + 1" using cut(3) by simp
      from False M revokeRun_shape [OF cut(2) this, of p start q en B] show ?thesis
        unfolding rev unfolding cut(1) by simp
    qed
    with Some [OF cut(1,4-8)] show thesis by blast
  qed
qed

lemma isShared_eq: "isShared p s e \<longleftrightarrow> pstart p < e \<and> s < pend p"
  by (auto simp: isShared_def)

lemma keep_bytes:
  assumes "isShared p start en"
  shows "keep_left p start L \<Longrightarrow> rbytes L \<subseteq> pbytes p \<and> wbytes L = (if isWrite p then rbytes L else {}) \<and> rbytes L \<inter> {start..<en} = {}"
    "keep_right p en R \<Longrightarrow> rbytes R \<subseteq> pbytes p \<and> wbytes R = (if isWrite p then rbytes R else {}) \<and> rbytes R \<inter> {start..<en} = {}"
  using assms unfolding keep_left_def keep_right_def isShared_eq pbytes_def
  by (auto split: if_splits simp: pbytes_def)

lemma revokePermission_bytes:
  "rbytes (revokePermission start en ps) \<inter> {start..<en} = {} \<and>
   rbytes (revokePermission start en ps) \<subseteq> rbytes ps \<and>
   wbytes (revokePermission start en ps) \<subseteq> wbytes ps"
proof (cases rule: revokePermission_cases [of ps start en])
  case None
  then show ?thesis using not_isShared_disjoint by (fastforce simp: rbytes_def)
next
  case (Some A M B L R)
  have "rbytes A \<inter> {start..<en} = {}" "rbytes B \<inter> {start..<en} = {}"
    using Some(5,6) not_isShared_disjoint by (fastforce simp: rbytes_def)+
  moreover note keep_bytes(1) [OF Some(3,8)] keep_bytes(2) [OF Some(4,9)]
  moreover have "hd M \<in> set M" "last M \<in> set M" using Some(2) by auto
  then have "pbytes (hd M) \<subseteq> rbytes M" "pbytes (last M) \<subseteq> rbytes M"
     "isWrite (hd M) \<Longrightarrow> pbytes (hd M) \<subseteq> wbytes M" "isWrite (last M) \<Longrightarrow> pbytes (last M) \<subseteq> wbytes M"
    by (auto simp: rbytes_def wbytes_def)
  moreover have "rbytes (revokePermission start en ps) = rbytes A \<union> rbytes L \<union> rbytes R \<union> rbytes B"
    "wbytes (revokePermission start en ps) = wbytes A \<union> wbytes L \<union> wbytes R \<union> wbytes B"
    using Some(7) by auto
  ultimately show ?thesis unfolding Some(1) by (auto split: if_splits)
qed

lemma keep_bytes_exact:
  assumes "isShared p start en" "start \<le> en"
  shows "keep_left p start L \<Longrightarrow> rbytes L = pbytes p \<inter> {x. x < start}"
    "keep_right p en R \<Longrightarrow> rbytes R = pbytes p \<inter> {x. en \<le> x}"
  using assms unfolding keep_left_def keep_right_def isShared_eq
  by (auto simp: pbytes_def split: if_splits)

lemma keep_wf:
  assumes "pstart p < pend p" "isShared p start en"
  shows "keep_left p start L \<Longrightarrow> wf_perms L" "keep_right p en R \<Longrightarrow> wf_perms R"
   "keep_left p start L \<Longrightarrow> l \<in> set L \<Longrightarrow> pstart p \<le> pstart l \<and> pend l = start"
   "keep_right p en R \<Longrightarrow> l \<in> set R \<Longrightarrow> pstart l = en \<and> pend l \<le> pend p"
  using assms by (auto simp: keep_left_def keep_right_def isShared_eq split: if_splits)

text \<open>On a well-formed run whose ends overlap the range, only the two ends keep anything.\<close>

lemma run_minus:
  assumes wf: "wf_perms M" and "M \<noteq> []" "isShared (hd M) start en" "isShared (last M) start en"
  shows "rbytes M - {start..<en} =
      pbytes (hd M) \<inter> {x. x < start} \<union> pbytes (last M) \<inter> {x. en \<le> x}"
    and "wbytes M - {start..<en} =
      (if isWrite (hd M) then pbytes (hd M) \<inter> {x. x < start} else {}) \<union>
      (if isWrite (last M) then pbytes (last M) \<inter> {x. en \<le> x} else {})"
proof -
  consider (one) p where "M = [p]" | (more) p N q where "M = p # N @ [q]"
    using assms(2) by (cases M; cases "tl M" rule: rev_cases) auto
  then have "rbytes M - {start..<en} =
      pbytes (hd M) \<inter> {x. x < start} \<union> pbytes (last M) \<inter> {x. en \<le> x} \<and>
     wbytes M - {start..<en} =
      (if isWrite (hd M) then pbytes (hd M) \<inter> {x. x < start} else {}) \<union>
      (if isWrite (last M) then pbytes (last M) \<inter> {x. en \<le> x} else {})"
  proof cases
    case one
    then show ?thesis by (auto simp: not_less)
  next
    case (more p N q)
    have pq: "pstart p < en" "start < pend p" "pstart q < en" "start < pend q" "pend p \<le> pstart q"
      using assms(3,4) wf more by (auto simp: isShared_eq)
    have N: "rbytes N \<subseteq> {start..<en}"
    proof
      fix x assume "x \<in> rbytes N"
      then obtain t where "t \<in> set N" "x \<in> pbytes t" by (auto simp: rbytes_def)
      moreover have "pend p \<le> pstart t" "pend t \<le> pstart q" using wf more \<open>t \<in> set N\<close> by auto
      ultimately show "x \<in> {start..<en}" using pq by (auto simp: pbytes_def)
    qed
    have P: "pbytes p - {start..<en} = pbytes p \<inter> {x. x < start}"
      using pq by (auto simp: pbytes_def)
    have Q: "pbytes q - {start..<en} = pbytes q \<inter> {x. en \<le> x}"
      using pq by (auto simp: pbytes_def)
    have "rbytes M - {start..<en} = (pbytes p - {start..<en}) \<union> (pbytes q - {start..<en})"
      using N more by auto
    moreover have "wbytes M - {start..<en} =
        (if isWrite p then pbytes p - {start..<en} else {}) \<union>
        (if isWrite q then pbytes q - {start..<en} else {})"
      using N more wbytes_subset_rbytes [of N] by auto
    ultimately show ?thesis using more by (simp add: P Q)
  qed
  then show "rbytes M - {start..<en} =
      pbytes (hd M) \<inter> {x. x < start} \<union> pbytes (last M) \<inter> {x. en \<le> x}"
    and "wbytes M - {start..<en} =
      (if isWrite (hd M) then pbytes (hd M) \<inter> {x. x < start} else {}) \<union>
      (if isWrite (last M) then pbytes (last M) \<inter> {x. en \<le> x} else {})" by blast+
qed

lemma wf_trimmed:
  assumes wf: "wf_perms (A @ M @ B)" and "M \<noteq> []" and le: "start \<le> en"
    and shared: "isShared (hd M) start en" "isShared (last M) start en"
    and keep: "keep_left (hd M) start L" "keep_right (last M) en R"
  shows "wf_perms (A @ L @ R @ B)"
proof -
  have M: "hd M \<in> set M" "last M \<in> set M" using assms(2) by auto
  have wfM: "wf_perms A" "wf_perms M" "wf_perms B"
    "\<forall>p\<in>set A. \<forall>q\<in>set M. pend p \<le> pstart q" "\<forall>p\<in>set M. \<forall>q\<in>set B. pend p \<le> pstart q"
    "\<forall>p\<in>set A. \<forall>q\<in>set B. pend p \<le> pstart q"
    using wf by auto
  have pos: "pstart (hd M) < pend (hd M)" "pstart (last M) < pend (last M)"
    using wfM(2) M by (auto simp: wf_perms_def)
  note kw = keep_wf(1,3) [OF pos(1) shared(1) keep(1)] keep_wf(2,4) [OF pos(2) shared(2) keep(2)]
  have sh: "start < pend (hd M)" "pstart (last M) < en"
    using shared by (auto simp: isShared_eq)
  have "pend a \<le> pstart l" if "a \<in> set A" "l \<in> set L" for a l
    using that kw(2) wfM(4) M(1) by (meson order_trans)
  moreover have "pend a \<le> pstart r" if "a \<in> set A" "r \<in> set R" for a r
  proof -
    have "pend a \<le> pstart (last M)" "pstart r = en" using that kw(4) wfM(4) M(2) by auto
    then show ?thesis using sh(2) by order
  qed
  moreover have "pend l \<le> pstart b" if "b \<in> set B" "l \<in> set L" for b l
  proof -
    have "pend (hd M) \<le> pstart b" "pend l = start" using that kw(2) wfM(5) M(1) by auto
    then show ?thesis using sh(1) by order
  qed
  moreover have "pend r \<le> pstart b" if "b \<in> set B" "r \<in> set R" for b r
    using that kw(4) [of r] wfM(5) M(2) by (meson order_trans)
  moreover have "pend l \<le> pstart r" if "l \<in> set L" "r \<in> set R" for l r
    using that kw(2) [of l] kw(4) [of r] le by simp
  ultimately show ?thesis using kw(1,3) wfM(1,3,6) by auto
qed

lemma revokePermission_exact:
  assumes wf: "wf_perms ps" and le: "start \<le> en"
  shows "rbytes (revokePermission start en ps) = rbytes ps - {start..<en} \<and>
    wbytes (revokePermission start en ps) = wbytes ps - {start..<en} \<and>
    wf_perms (revokePermission start en ps)"
proof (cases rule: revokePermission_cases [of ps start en])
  case None
  then have "rbytes ps \<inter> {start..<en} = {}"
    using not_isShared_disjoint by (fastforce simp: rbytes_def)
  then show ?thesis using None(2) wf wbytes_subset_rbytes [of ps] by auto
next
  case (Some A M B L R)
  have AB: "rbytes A \<inter> {start..<en} = {}" "rbytes B \<inter> {start..<en} = {}"
    using Some(5,6) not_isShared_disjoint by (fastforce simp: rbytes_def)+
  have wfM: "wf_perms M" using wf unfolding Some(1) by simp
  note kb = keep_bytes(1) [OF Some(3,8)] keep_bytes(2) [OF Some(4,9)]
    keep_bytes_exact(1) [OF Some(3) le Some(8)] keep_bytes_exact(2) [OF Some(4) le Some(9)]
  have mid: "rbytes (L @ R) = rbytes M - {start..<en}" "wbytes (L @ R) = wbytes M - {start..<en}"
    using kb unfolding run_minus [OF wfM Some(2-4)] by auto
  have "wf_perms (A @ L @ R @ B)"
    using wf_trimmed [OF _ Some(2) le Some(3,4,8,9)] wf unfolding Some(1) by blast
  moreover have "rbytes (A @ L @ R @ B) = rbytes ps - {start..<en}"
    using AB mid(1) unfolding Some(1) by auto
  moreover have "wbytes (A @ L @ R @ B) = wbytes ps - {start..<en}"
    using AB mid(2) wbytes_subset_rbytes [of A] wbytes_subset_rbytes [of B] unfolding Some(1) by auto
  ultimately show ?thesis using Some(7) by simp
qed

section \<open>addPermission on well-formed vectors\<close>

lemma run_inside:
  assumes wf: "wf_perms M" and "t \<in> set M" and sh: "\<forall>p\<in>set M. isInclusiveShared p start en"
  shows "t = hd M \<or> start \<le> pstart t" "t = last M \<or> pend t \<le> en"
proof -
  from assms(2) obtain X Y where M: "M = X @ t # Y" by (auto dest: split_list)
  show "t = hd M \<or> start \<le> pstart t"
  proof (cases X)
    case (Cons h X')
    then have "pend h \<le> pstart t" "start \<le> pend h"
      using wf sh M by (auto simp: inclusive_iff)
    then show ?thesis by auto
  qed (simp add: M)
  show "t = last M \<or> pend t \<le> en"
  proof (cases Y rule: rev_cases)
    case (snoc Y' l)
    then have "pend t \<le> pstart l" "pstart l \<le> en"
      using wf sh M by (auto simp: inclusive_iff)
    then show ?thesis by auto
  qed (simp add: M)
qed

lemma addPermission_exact:
  assumes wf: "wf_perms perms" and add: "addPermission start en w perms lk = Inr perms'"
    and small: "start \<le> INT_MAX" "\<forall>p\<in>set perms. pstart p \<le> INT_MAX"
  shows "wbytes perms' = wbytes perms \<union> (if w then {start..<en} else {}) \<and>
    (\<not> w \<longrightarrow> rbytes perms' = rbytes perms \<union> {start..<en})"
  using add
proof (cases rule: addPermission_cases)
  case (New A B q)
  then show ?thesis by (auto simp: pbytes_def)
next
  case (Write A M B permit)
  have M: "wf_perms M" using wf Write(2) by simp
  have "wbytes M \<subseteq> pbytes permit"
  proof
    fix x assume "x \<in> wbytes M"
    then obtain t where t: "t \<in> set M" "isWrite t" "x \<in> pbytes t" by (auto simp: wbytes_def)
    from run_inside [OF M t(1) Write(4)] t(2,3) show "x \<in> pbytes permit"
      by (auto simp: pbytes_def Write(7,8) min_le_iff_disj less_max_iff_disj)
  qed
  then have "wbytes perms \<subseteq> wbytes perms'" using Write(2,5,6) by auto
  then show ?thesis
    using addPermission_bytes [OF add] addPermission_covers [OF add small] Write(1) by auto
next
  case (Read A M B G)
  have M: "wf_perms M" using wf Read(2) by simp
  have "rbytes M \<subseteq> wbytes M \<union> {read_start (hd M) start..<read_end (last M) en}"
  proof
    fix x assume "x \<in> rbytes M"
    then obtain t where t: "t \<in> set M" "x \<in> pbytes t" by (auto simp: rbytes_def)
    from run_inside [OF M t(1) Read(4)] t show
        "x \<in> wbytes M \<union> {read_start (hd M) start..<read_end (last M) en}"
      by (cases "isWrite t") (auto simp: pbytes_def wbytes_def read_start_def read_end_def)
  qed
  moreover have "wbytes M \<subseteq> rbytes G" using Read(6) wbytes_subset_rbytes [of G] by auto
  ultimately have "rbytes perms \<subseteq> rbytes perms'" using Read(2,5) Read(8) [OF small] by auto
  then show ?thesis
    using addPermission_bytes [OF add] addPermission_covers [OF add small] Read(1,2,5,6) by auto
qed

section \<open>When addPermission returns\<close>

text \<open>
  Without locking (the metadata manager's calls) it always returns. With locking (the
  clients' calls) it can only wait for a write token that is itself locked.
\<close>

lemma lock_if_unheld: "\<not> permitHeld p \<Longrightarrow> \<exists>q. lock_if lk p = Inr q"
  by (simp add: lock_if_def Permission_lock_def)

lemma lock_if_fresh: "\<exists>q. lock_if lk (new_Permission s e w) = Inr q"
  by (rule lock_if_unheld) simp

lemma fillReads_returns:
  "lk \<longrightarrow> (\<forall>p\<in>set ws. \<not> permitHeld p) \<Longrightarrow> \<exists>r. fillReads lk s ws newEnd v = Inr r"
proof (induction ws arbitrary: newEnd v)
  case (Cons wp ws)
  obtain q where "lock_if lk (new_Permission (pend wp) newEnd False) = Inr q"
    using lock_if_fresh by blast
  moreover obtain q' where "lock_if lk wp = Inr q'"
    using Cons.prems lock_if_unheld [of wp lk] by (cases lk) auto
  ultimately show ?case using Cons by simp
qed simp

lemma keepLastWrite_returns:
  assumes "lk \<longrightarrow> (\<forall>p\<in>set wps. \<not> permitHeld p)" "wps \<noteq> []"
  shows "\<exists>n v' ps. keepLastWrite lk s wps ne v = Inr (n, v', ps) \<and> set ps \<subseteq> set wps"
proof -
  obtain q where "lock_if lk (last wps) = Inr q"
    using assms lock_if_unheld [of "last wps" lk] by (cases lk) auto
  then show ?thesis by (auto simp: keepLastWrite_def Let_def dest: in_set_butlastD)
qed

lemma addPermission_returns:
  assumes "lk \<longrightarrow> (\<forall>p\<in>set perms. isWrite p \<longrightarrow> \<not> permitHeld p)"
  shows "\<exists>perms'. addPermission start en w perms lk = Inr perms'"
proof -
  have new: "\<exists>v. addPermission_new start en w perms lk = Inr v"
    using lock_if_fresh [of lk start en w] by (auto simp: addPermission_new_def split: option.split)
  have wr: "\<exists>v. addPermission_write start en perms lk s e = Inr v" for s e
  proof -
    have "\<exists>v. bindR (lock_if lk (new_Permission a b True)) (\<lambda>p. Inr (f p)) = Inr v" for a b and f :: "Permission \<Rightarrow> Permission list"
      using lock_if_fresh [of lk a b True] by auto
    then show ?thesis by (simp add: addPermission_write_def Let_def)
  qed
  have front: "\<exists>v'. fillFront lk s a b v = Inr v'" for s a b v
    using lock_if_fresh [of lk a b False] by (auto simp: fillFront_def)
  have rd: "\<exists>v. addPermission_read start en perms lk s e = Inr v" for s e
  proof -
    define ws where "ws = filter isWrite (take (e + 1 - s) (drop s perms))"
    have free: "lk \<longrightarrow> (\<forall>p\<in>set ws. \<not> permitHeld p)"
      using assms by (auto simp: ws_def dest!: in_set_takeD in_set_dropD)
    show ?thesis
    proof (cases "ws = []")
      case True
      have "\<exists>v. bindR (lock_if lk (new_Permission a b False)) (\<lambda>p. Inr (f p)) = Inr v" for a b and f :: "Permission \<Rightarrow> Permission list"
        using lock_if_fresh [of lk a b False] by auto
      with True show ?thesis unfolding addPermission_read_def Let_def ws_def [symmetric] by simp
    next
      case False
      have "\<exists>v. bindR (keepLastWrite lk s ws ne v0) (\<lambda>(newEnd, v, writePermits).
          bindR (fillReads lk s (rev writePermits) newEnd v) (\<lambda>(newEnd, v).
            fillFront lk s ns newEnd v)) = Inr v" for ne ns v0
      proof -
        obtain n v' ps where k: "keepLastWrite lk s ws ne v0 = Inr (n, v', ps)" "set ps \<subseteq> set ws"
          using keepLastWrite_returns [OF free False] by blast
        then have "lk \<longrightarrow> (\<forall>p\<in>set (rev ps). \<not> permitHeld p)" using free by auto
        then obtain n2 v2 where "fillReads lk s (rev ps) n v' = Inr (n2, v2)"
          using fillReads_returns by (metis surj_pair)
        with k front show ?thesis by simp
      qed
      with False show ?thesis unfolding addPermission_read_def Let_def ws_def [symmetric] by simp
    qed
  qed
  from new wr rd show ?thesis by (auto simp: addPermission_def Let_def split: option.split)
qed

end
