(* ===== verification/File_Bounds.thy ===== *)
theory File_Bounds
  imports File_Query
begin

text \<open>
  Token endpoints stay below \<^verbatim>\<open>INT_MAX\<close> when every request does, so that the signed
  comparison inside \<^verbatim>\<open>File::addPermission\<close> agrees with the unsigned order. The theory ends
  with the contract of token vectors as a locale and its interpretation on the code's
  operations.
\<close>

section \<open>Bounds\<close>

definition small_perms :: "Permission list \<Rightarrow> bool" where
  "small_perms ps \<longleftrightarrow> (\<forall>p\<in>set ps. pstart p \<le> INT_MAX \<and> pend p \<le> INT_MAX)"

lemma small_perms_simps [simp]:
  "small_perms []"
  "small_perms (p # ps) \<longleftrightarrow> (pstart p \<le> INT_MAX \<and> pend p \<le> INT_MAX) \<and> small_perms ps"
  "small_perms (ps @ qs) \<longleftrightarrow> small_perms ps \<and> small_perms qs"
  "small_perms (vinsert i p ps) \<longleftrightarrow> (pstart p \<le> INT_MAX \<and> pend p \<le> INT_MAX) \<and> small_perms ps"
  by (auto simp: small_perms_def)

lemma small_sub: "small_perms ps \<Longrightarrow> set qs \<subseteq> set ps \<Longrightarrow> small_perms qs"
  by (auto simp: small_perms_def)

lemma small_nth: "small_perms ps \<Longrightarrow> i < length ps \<Longrightarrow> pstart (ps ! i) \<le> INT_MAX \<and> pend (ps ! i) \<le> INT_MAX"
  by (simp add: small_perms_def)

lemma small_fillReads:
  assumes "fillReads lk s ws n v = Inr (n', v')" "small_perms ws" "small_perms v" "n \<le> INT_MAX"
  shows "small_perms v' \<and> n' \<le> INT_MAX"
  using assms
proof (induction ws arbitrary: n v)
  case (Cons wp ws)
  from Cons.prems(1) obtain q q' where
    q: "lock_if lk (new_Permission (pend wp) n False) = Inr q" "lock_if lk wp = Inr q'"
    and r: "fillReads lk s ws (pstart wp) (vinsert s q' (vinsert s q v)) = Inr (n', v')"
    by auto
  show ?case
    by (rule Cons.IH [OF r])
       (use Cons.prems lock_if_keeps [OF q(1)] lock_if_keeps [OF q(2)] in auto)
qed simp

lemma small_keepLastWrite:
  assumes "keepLastWrite lk s ws n v = Inr (n', v', ps)" "ws \<noteq> []"
    "small_perms ws" "small_perms v" "n \<le> INT_MAX"
  shows "small_perms v' \<and> n' \<le> INT_MAX \<and> small_perms ps"
proof (cases "pstart (last ws) \<le> n \<and> n \<le> pend (last ws)")
  case True
  with assms(1) obtain q where q: "lock_if lk (last ws) = Inr q" "n' = pstart (last ws)"
    "v' = vinsert s q v" "ps = butlast ws"
    by (auto simp: keepLastWrite_def Let_def)
  have "last ws \<in> set ws" using assms(2) by simp
  with q assms(3,4) lock_if_keeps [OF q(1)] show ?thesis
    by (auto simp: small_perms_def dest: in_set_butlastD)
next
  case False
  with assms show ?thesis by (auto simp: keepLastWrite_def Let_def split: if_splits)
qed

lemma small_fillFront:
  assumes "fillFront lk s ns n v = Inr v'" "small_perms v" "ns \<le> INT_MAX" "n \<le> INT_MAX"
  shows "small_perms v'"
proof (cases "sint ns < sint n")
  case True
  with assms(1) obtain q where q: "lock_if lk (new_Permission ns n False) = Inr q" "v' = vinsert s q v"
    by (auto simp: fillFront_def)
  with assms(2-4) lock_if_keeps [OF q(1)] show ?thesis by simp
qed (use assms in \<open>simp add: fillFront_def\<close>)

lemma small_addPermission_read:
  assumes "addPermission_read start en perms lk s e = Inr v" "small_perms perms"
    "s < length perms" "e < length perms" "start \<le> INT_MAX" "en \<le> INT_MAX"
  shows "small_perms v"
proof -
  note n = small_nth [OF assms(2,3)] small_nth [OF assms(2,4)]
  define ns where "ns = (if \<not> isWrite (perms ! s) \<and> pstart (perms ! s) < start then pstart (perms ! s) else start)"
  define ne where "ne = (if \<not> isWrite (perms ! e) \<and> pend (perms ! e) > en then pend (perms ! e) else en)"
  define ws where "ws = filter isWrite (take (e + 1 - s) (drop s perms))"
  have b: "ns \<le> INT_MAX" "ne \<le> INT_MAX" using n assms(5,6) by (auto simp: ns_def ne_def)
  have er: "small_perms (verase s (e + 1) perms)" 
    using small_sub [OF assms(2) set_verase_subset] .
  have ws: "small_perms ws" 
    by (rule small_sub [OF assms(2)]) (auto simp: ws_def dest!: in_set_takeD in_set_dropD)
  note r = assms(1) [unfolded addPermission_read_def Let_def, folded ns_def ne_def ws_def]
  show ?thesis
  proof (cases "ws = []")
    case True
    with r obtain q where q: "lock_if lk (new_Permission ns ne False) = Inr q"
      and "v = vinsert s q (verase s (e + 1) perms)" by auto
    with er b lock_if_keeps [OF q] show ?thesis by simp
  next
    case False
    with r obtain n1 v1 ps n2 v2 where 
      k: "keepLastWrite lk s ws ne (verase s (e + 1) perms) = Inr (n1, v1, ps)"
      and l: "fillReads lk s (rev ps) n1 v1 = Inr (n2, v2)" and f: "fillFront lk s ns n2 v2 = Inr v"
      by auto
    note k' = small_keepLastWrite [OF k False ws er b(2)]
    then have "small_perms v2 \<and> n2 \<le> INT_MAX"
      using small_fillReads [OF l] by (simp add: small_perms_def)
    then show ?thesis using small_fillFront [OF f] b(1) by blast
  qed
qed

lemma small_addPermission:
  assumes add: "addPermission start en w perms lk = Inr v" and "small_perms perms"
    "start \<le> INT_MAX" "en \<le> INT_MAX"
  shows "small_perms v"
proof (cases w)
  case True
  from add show ?thesis
  proof (cases rule: addPermission_cases)
    case (Write A M B permit)
    have "hd M \<in> set M" "last M \<in> set M" using Write(3) by auto
    with assms(2-4) Write(2) show ?thesis unfolding Write(5)
      by (auto simp: small_perms_def write_left_def write_right_def Write(7,8) min_def max_def)
  qed (use True assms(2-4) in auto)
next
  case False
  show ?thesis
  proof (cases "first_index (\<lambda>p. isInclusiveShared p start en) perms")
    case None
    with add have "addPermission_new start en w perms lk = Inr v" by (simp add: addPermission_def)
    from addPermission_new_shape [OF this] assms(2-4) show ?thesis by auto
  next
    case (Some s)
    define e where "e = (case first_index (\<lambda>p. \<not> isInclusiveShared p start en) (drop (s + 1) perms) of
       Some j \<Rightarrow> s + 1 + j - 1 | None \<Rightarrow> s)"
    note b = run_bounds(1,2) [OF Some e_def]
    have "addPermission_read start en perms lk s e = Inr v"
      using add False by (simp add: addPermission_def Some e_def)
    then show ?thesis
      by (rule small_addPermission_read) (use assms b in auto)
  qed
qed

lemma small_revokePermission:
  assumes "small_perms ps" "start \<le> INT_MAX" "en \<le> INT_MAX"
  shows "small_perms (revokePermission start en ps)"
proof (cases rule: revokePermission_cases [of ps start en])
  case None
  then show ?thesis using assms by simp
next
  case (Some A M B L R)
  have "hd M \<in> set M" "last M \<in> set M" using Some(2) by auto
  then show ?thesis using assms Some(1,8,9) unfolding Some(7)
    by (auto simp: keep_left_def keep_right_def small_perms_def split: if_splits)
qed

section \<open>The contract of token vectors\<close>

text \<open>
  What a user of token vectors relies on: adding a token covers nothing beyond the vector and
  the request, and write bytes only come from write requests; revoking takes the range away and
  adds nothing. The metadata manager's exclusion argument uses only these laws.
\<close>

definition compatible :: "uint32 set \<Rightarrow> uint32 set \<Rightarrow> uint32 set \<Rightarrow> uint32 set \<Rightarrow> bool" where
  "compatible r w r' w' \<longleftrightarrow> w \<inter> r' = {} \<and> w' \<inter> r = {}"

locale token_vector =
  fixes add :: "uint32 \<Rightarrow> uint32 \<Rightarrow> bool \<Rightarrow> 'v \<Rightarrow> 'v result"
    and revoke :: "uint32 \<Rightarrow> uint32 \<Rightarrow> 'v \<Rightarrow> 'v"
    and rb :: "'v \<Rightarrow> uint32 set"
    and wb :: "'v \<Rightarrow> uint32 set"
  assumes wb_rb: "wb v \<subseteq> rb v"
    and add_rb: "add s e w v = Inr v' \<Longrightarrow> rb v' \<subseteq> rb v \<union> {s..<e}"
    and add_wb: "add s e w v = Inr v' \<Longrightarrow> wb v' \<subseteq> wb v \<union> (if w then {s..<e} else {})"
    and revoke_rb: "rb (revoke s e v) \<subseteq> rb v - {s..<e}"
    and revoke_wb: "wb (revoke s e v) \<subseteq> wb v"
begin

lemma revoke_compatible:
  assumes "compatible (rb u) (wb u) (rb v) (wb v)"
  shows "compatible (rb u) (wb u) (rb (revoke s e v)) (wb (revoke s e v))"
    and "compatible (rb (revoke s e v)) (wb (revoke s e v)) (rb u) (wb u)"
  using assms revoke_rb [of s e v] revoke_wb [of s e v] unfolding compatible_def by blast+

lemma add_compatible:
  assumes add: "add s e w v = Inr v'" and c: "compatible (rb v) (wb v) (rb u) (wb u)"
    and free: "{s..<e} \<inter> (if w then rb u else wb u) = {}"
  shows "compatible (rb v') (wb v') (rb u) (wb u)"
proof -
  have "{s..<e} \<inter> wb u = {}" using free wb_rb [of u] by (auto split: if_splits)
  moreover have "(if w then {s..<e} else {}) \<inter> rb u = {}" using free by auto
  ultimately show ?thesis
    using c add_rb [OF add] add_wb [OF add] unfolding compatible_def by blast
qed

lemma revoke_free: "{s..<e} \<inter> rb (revoke s e v) = {}" "{s..<e} \<inter> wb (revoke s e v) = {}"
  using revoke_rb [of s e v] wb_rb [of "revoke s e v"] by blast+

end

interpretation tokens: token_vector
  "\<lambda>s e w v. addPermission s e w v lockNewPermissions" revokePermission rbytes wbytes
  for lockNewPermissions
proof unfold_locales
  show "wbytes v \<subseteq> rbytes v" for v
    by (rule wbytes_subset_rbytes)
  show "rbytes v' \<subseteq> rbytes v \<union> {s..<e}" "wbytes v' \<subseteq> wbytes v \<union> (if w then {s..<e} else {})"
    if "addPermission s e w v lockNewPermissions = Inr v'" for s e w v v'
    using addPermission_bytes [OF that] by auto
  show "rbytes (revokePermission s e v) \<subseteq> rbytes v - {s..<e}"
    "wbytes (revokePermission s e v) \<subseteq> wbytes v" for s e v
    using revokePermission_bytes [of s e v] by auto
qed

end
