(* ===== verification/Client_Calls.thy ===== *)
theory Client_Calls
  imports Client_Flush File_Bounds
begin

text \<open>
  The calls of the client library against the abstract bytes of its files: \<^verbatim>\<open>readFile\<close>,
  \<^verbatim>\<open>writeFile\<close>, \<^verbatim>\<open>revokePermission\<close> and the threads of the cache between calls.
\<close>

section \<open>Tokens\<close>

lemma first_index_map: "first_index P (map g xs) = first_index (\<lambda>x. P (g x)) xs"
  by (induction xs) auto

text \<open>\<^verbatim>\<open>hasPermission\<close> looks at the bounds and the kind of the tokens only.\<close>

lemma hasPermission_map:
  assumes g: "\<And>p. pstart (g p) = pstart p" "\<And>p. pend (g p) = pend p" "\<And>p. isWrite (g p) = isWrite p"
  shows "hasPermission start en w (map g ps) = hasPermission start en w ps"
proof (cases "ps = []")
  case False
  define r where "r = first_index (\<lambda>p. pstart p > start) ps"
  define s where "s = (case r of Some i \<Rightarrow> i - 1 | None \<Rightarrow> length ps - 1)"
  define e where "e = (case first_index (\<lambda>p. pend p \<ge> en) (drop s ps) of Some j \<Rightarrow> s + j | None \<Rightarrow> length ps - 1)"
  have s: "s < length ps" using False by (auto simp: s_def r_def first_index_Some split: option.splits)
  have e: "e < length ps" using s by (auto simp: e_def first_index_Some split: option.splits)
  have r': "first_index (\<lambda>p. pstart p > start) (map g ps) = r" by (simp add: r_def first_index_map g)
  have e': "first_index (\<lambda>p. pend p \<ge> en) (drop s (map g ps)) = first_index (\<lambda>p. pend p \<ge> en) (drop s ps)"
    by (simp add: drop_map first_index_map g)
  have a: "(\<exists>i\<in>set [s..<Suc e]. \<not> isWrite (map g ps ! i)) = (\<exists>i\<in>set [s..<Suc e]. \<not> isWrite (ps ! i))"
    by (intro bex_cong refl) (use e in \<open>auto simp: g\<close>)
  have b: "(\<exists>i\<in>set [s..<e]. pend (map g ps ! i) \<noteq> pstart (map g ps ! (i + 1))) =
      (\<exists>i\<in>set [s..<e]. pend (ps ! i) \<noteq> pstart (ps ! (i + 1)))"
    by (intro bex_cong refl) (use e in \<open>auto simp: g\<close>)
  show ?thesis
    unfolding hasPermission_def Let_def r' r_def [symmetric] length_map s_def [symmetric] e' e_def [symmetric] a b
    using s e by (simp only: g nth_map map_is_Nil_conv)
qed (simp add: hasPermission_def)

lemma hasPermission_unlock: "hasPermission start en w (fst (unlockTokens s e ps)) = hasPermission start en w ps"
  unfolding unlockTokens_map by (rule hasPermission_map) simp_all

lemma hasPermission_weaken: "hasPermission start en True ps \<Longrightarrow> hasPermission start en False ps"
  unfolding hasPermission_def Let_def by (auto split: if_splits)

lemma unlock_permissions [simp]:
  "permissions (fst (unlockPermission s e f)) = fst (unlockTokens s e (permissions f))"
  "fname (fst (unlockPermission s e f)) = fname f" "descriptor (fst (unlockPermission s e f)) = descriptor f"
  "stripWidth (fst (unlockPermission s e f)) = stripWidth f"
  "hasModified (fst (unlockPermission s e f)) = hasModified f" "getSize (fst (unlockPermission s e f)) = getSize f"
  by (simp_all add: unlockPermission_def getSize_def Let_def split: prod.splits)

section \<open>Acquiring\<close>

lemma acquire_held:
  assumes "findDescriptor d (openedFiles cl) = Some i" "hasPermission s e wr (permissions (openedFiles cl ! i))"
  shows "acquirePermission S d s e wr cl w = Inr (int i, cl, w)"
  using assms by (simp add: acquirePermission_def)

lemma acquire_result:
  assumes "acquirePermission S d s e wr cl w = Inr (int i, cl1, w1)"
  shows "i < length (openedFiles cl1)" "descriptor (openedFiles cl1 ! i) = d" "stubReady cl1 = stubReady cl"
    "cache cl1 = cache cl" "findDescriptor d (openedFiles cl1) = Some i"
proof -
  from assms obtain j where j: "findDescriptor d (openedFiles cl) = Some j"
    by (auto simp: acquirePermission_def ERROR_CLOSE_UNOPENED_FILE_def split: option.splits)
  have "errorOf st \<noteq> int i" if "\<not> status_ok st" for st
    using that by (simp add: errorOf_def status_ok_def Status_OK_def)
  with assms j have "i = j \<and> (cl1 = cl \<or> (\<exists>ps. cl1 = cl\<lparr>openedFiles :=
      (openedFiles cl)[j := (openedFiles cl ! j)\<lparr>permissions := ps\<rparr>]\<rparr>))"
    by (auto simp: acquirePermission_def Let_def split: if_splits)
  then show "i < length (openedFiles cl1)" "descriptor (openedFiles cl1 ! i) = d" "stubReady cl1 = stubReady cl"
    "cache cl1 = cache cl" "findDescriptor d (openedFiles cl1) = Some i"
    using j by (auto simp: findDescriptor_def first_index_Some nth_list_update)
qed

section \<open>Files with other tokens, sizes and flags\<close>

definition fkey :: "ClientFile \<Rightarrow> string \<times> uint32 \<times> uint32" where
  "fkey f = (fname f, descriptor f, stripWidth f)"

text \<open>The client as a whole: initialised, coherent, \<open>k\<close> blocks loaded so far.\<close>

definition client_ok ::
  "('w \<Rightarrow> string \<Rightarrow> uint32 \<Rightarrow> bool) \<Rightarrow> ('w \<Rightarrow> string \<Rightarrow> uint32 \<Rightarrow> nat \<Rightarrow> uint8 option) \<Rightarrow>
   nat \<Rightarrow> PFSClient \<Rightarrow> 'w \<Rightarrow> (string \<Rightarrow> nat \<Rightarrow> uint8 option) \<Rightarrow> bool" where
  "client_ok holds content k cl w v \<longleftrightarrow>
     stubReady cl \<and> coherent holds content (openedFiles cl) (cache cl) w v \<and> cache_books k (cache cl)"

lemma coherent_fkey:
  assumes "map fkey fs' = map fkey fs" "coherent holds content fs c w v"
  shows "coherent holds content fs' c w v"
proof -
  have "map fname fs' = map fst (map fkey fs')" "map fname fs = map fst (map fkey fs)"
    "map descriptor fs' = map (fst \<circ> snd) (map fkey fs')" "map descriptor fs = map (fst \<circ> snd) (map fkey fs)"
    by (auto simp: fkey_def)
  then have m: "map fname fs' = map fname fs" "map descriptor fs' = map descriptor fs" using assms(1) by simp_all
  then have "descriptor ` set fs' = descriptor ` set fs" by (metis set_map)
  moreover have g: "\<exists>g\<in>set fs. fkey g = fkey f" if "f \<in> set fs'" for f
  proof -
    have "fkey f \<in> set (map fkey fs')" using that by simp
    then show ?thesis using assms(1) by auto
  qed
  have "P (fname f) (descriptor f) (stripWidth f)"
    if P: "\<And>g. g \<in> set fs \<Longrightarrow> P (fname g) (descriptor g) (stripWidth g)" and f: "f \<in> set fs'" for P f
  proof -
    obtain g where "g \<in> set fs" "fkey g = fkey f" using g [OF f] by blast
    then show ?thesis using P [of g] by (simp add: fkey_def)
  qed
  note this [where P = "\<lambda>n d W. holds w n W"]
    this [where P = "\<lambda>n d W. \<forall>x b. v n x = Some b \<longrightarrow> x < LIMIT \<and> (case cmap c (d, blk x) of None \<Rightarrow> content w n W x = Some b
       | Some (e, m) \<Rightarrow> e ! (x mod 1024) = b \<and> (m ! (x mod 1024) \<or> content w n W x = Some b))"]
  ultimately show ?thesis using assms(2) m unfolding coherent_def files_ok_def keys_ok_def knows_def by simp
qed

lemma fkey_update: "i < length fs \<Longrightarrow> fkey g = fkey (fs ! i) \<Longrightarrow> map fkey (fs[i := g]) = map fkey fs"
  by (simp add: map_update list_update_same_conv)

text \<open>One round of a thread of the cache between two calls.\<close>

inductive client_thread :: "'w Stubs \<Rightarrow> PFSClient \<times> 'w \<Rightarrow> PFSClient \<times> 'w \<Rightarrow> bool" for S where
  flusher: "cacheFlusher (flush S (openedFiles cl)) (cache cl, w) = Inr (c, w') \<Longrightarrow>
    client_thread S (cl, w) (cl\<lparr>cache := c\<rparr>, w')"
| harvester: "cacheHarvester (flush S (openedFiles cl)) (cache cl, w) = Inr (c, w') \<Longrightarrow>
    client_thread S (cl, w) (cl\<lparr>cache := c\<rparr>, w')"

lemma registerWaiting_none:
  "fst (registerWaiting sem s e ps) = 0 \<Longrightarrow> registerWaiting sem s e ps = (0, ps)"
  by (induction ps) (auto simp: Let_def addWaitingSemaphore_def split: prod.splits if_splits)

context data_servers
begin

abbreviation cok where
  "cok \<equiv> client_ok holds content"

section \<open>Reading and writing\<close>

lemma readFile_ok:
  assumes acq: "acquirePermission S d (word_of_nat x) (word_of_nat (x + n)) False cl w = Inr (int i, cl1, w1)"
    and ok: "cok k cl1 w1 v" and lim: "x + n \<le> LIMIT" "k + rounds x n \<le> 1024"
  obtains bytes hit cl2 w2 k2 where
    "readFile S d (int n) (int x) cl w = Inr (int n, bytes, hit, cl2, w2)" "length bytes = n"
    "\<And>j b. j < n \<Longrightarrow> v (fname (openedFiles cl1 ! i)) (x + j) = Some b \<Longrightarrow> bytes ! j = b"
    "cok k2 cl2 w2 v" "k2 \<le> k + rounds x n"
    "openedFiles cl2 = (openedFiles cl1)[i := fst (unlockPermission (word_of_nat x) (word_of_nat (x + n)) (openedFiles cl1 ! i))]"
    "cmap (cache cl1) \<subseteq>\<^sub>m cmap (cache cl2)" "0 < n \<Longrightarrow> cmap (cache cl2) (d, blk x) \<noteq> None"
    "frame w2 = frame w1" "content w2 = content w1"
proof -
  note r = acquire_result [OF acq]
  let ?f = "openedFiles cl1 ! i"
  have f: "?f \<in> set (openedFiles cl1)" using r(1) by simp
  have co: "coh (openedFiles cl1) (cache cl1) w1 v" and kb: "cache_books k (cache cl1)" and rdy: "stubReady cl1"
    using ok by (simp_all add: client_ok_def)
  obtain bytes hit c2 w2 k2 where l: "readLoop S ?f d (int x) (int n) [] True (cache cl1, w1) = Inr (bytes, hit, c2, w2)"
    "length bytes = n" "\<forall>j<n. \<forall>b. v (fname ?f) (x + j) = Some b \<longrightarrow> bytes ! j = b"
    "coh (openedFiles cl1) c2 w2 v" "cache_books k2 c2" "k2 \<le> k + rounds x n"
    "cmap (cache cl1) \<subseteq>\<^sub>m cmap c2" "0 < n \<longrightarrow> cmap c2 (d, blk x) \<noteq> None" "frame w2 = frame w1" "content w2 = content w1"
    using readLoop_ok [OF co f lim(1) kb lim(2), of "[]" True] unfolding r(2) append_Nil by blast
  define g where "g = fst (unlockPermission (word_of_nat x) (word_of_nat (x + n)) ?f)"
  let ?cl2 = "cl1\<lparr>openedFiles := (openedFiles cl1)[i := g], cache := c2\<rparr>"
  have keys: "map fkey ((openedFiles cl1)[i := g]) = map fkey (openedFiles cl1)"
    using r(1) by (intro fkey_update) (simp_all add: fkey_def g_def)
  have "readFile S d (int n) (int x) cl w = Inr (int n, bytes, hit, ?cl2, w2)"
    using acq r(3) rdy l(1) by (simp add: readFile_def g_def Let_def)
  moreover have "cok k2 ?cl2 w2 v"
    using coherent_fkey [OF keys l(4)] l(5) rdy by (simp add: client_ok_def)
  ultimately show thesis using that [of bytes hit ?cl2 w2 k2] l(2,3,6-10) by (simp add: g_def)
qed

lemma writeFile_ok:
  assumes acq: "acquirePermission S d (word_of_nat x) (word_of_nat (x + n)) True cl w = Inr (int i, cl1, w1)"
    and ok: "cok k cl1 w1 v" and lim: "x + n \<le> LIMIT" "n \<le> length buf" "k + rounds x n \<le> 1024"
  obtains hit cl2 w2 k2 f2 where
    "writeFile S d buf (int n) (int x) cl w = Inr (int n, hit, cl2, w2)"
    "cok k2 cl2 w2 (vwrite v (fname (openedFiles cl1 ! i)) x (take n buf))" "k2 \<le> k + rounds x n"
    "openedFiles cl2 = (openedFiles cl1)[i := f2]" "fkey f2 = fkey (openedFiles cl1 ! i)"
    "permissions f2 = fst (unlockTokens (word_of_nat x) (word_of_nat (x + n)) (permissions (openedFiles cl1 ! i)))"
    "hasModified f2" "getSize f2 = max (getSize (openedFiles cl1 ! i)) (word_of_nat (x + n))"
    "frame w2 = frame w1" "content w2 = content w1"
proof -
  note r = acquire_result [OF acq]
  let ?f = "openedFiles cl1 ! i"
  define f1 where "f1 = setSize (max (getSize ?f) (word_of_nat (x + n))) (?f\<lparr>hasModified := True\<rparr>)"
  define f2 where "f2 = fst (unlockPermission (word_of_nat x) (word_of_nat (x + n)) f1)"
  let ?fs = "(openedFiles cl1)[i := f1]"
  have k1: "fkey f1 = fkey ?f" "descriptor f1 = d" "fname f1 = fname ?f"
    using r(2) by (simp_all add: f1_def fkey_def setSize_def)
  then have k2: "fkey f2 = fkey ?f" by (simp add: f2_def fkey_def)
  have co: "coh (openedFiles cl1) (cache cl1) w1 v" and kb: "cache_books k (cache cl1)" and rdy: "stubReady cl1"
    using ok by (simp_all add: client_ok_def)
  have co1: "coh ?fs (cache cl1) w1 v" using coherent_fkey [OF fkey_update co] r(1) k1(1) by blast
  have f1: "f1 \<in> set ?fs" using r(1) by (simp add: set_update_memI)
  obtain hit c2 w2 k' where l: "writeLoop S f1 d (int x) (int n) buf True (cache cl1, w1) = Inr (hit, c2, w2)"
    "coh ?fs c2 w2 (vwrite v (fname ?f) x (take n buf))" "cache_books k' c2" "k' \<le> k + rounds x n"
    "frame w2 = frame w1" "content w2 = content w1" using writeLoop_ok [OF co1 f1 lim(1,2) kb lim(3), of True] unfolding k1(2,3) by blast
  let ?cl2 = "cl1\<lparr>openedFiles := (openedFiles cl1)[i := f2], cache := c2\<rparr>"
  have "writeFile S d buf (int n) (int x) cl w = Inr (int n, hit, ?cl2, w2)"
    using acq r(3) rdy l(1) by (simp add: writeFile_def f1_def f2_def Let_def)
  moreover have "map fkey ((openedFiles cl1)[i := f2]) = map fkey ?fs"
    using r(1) k1(1) k2 by (simp add: map_update)
  then have "cok k' ?cl2 w2 (vwrite v (fname ?f) x (take n buf))"
    using coherent_fkey [OF _ l(2)] l(3) rdy by (simp add: client_ok_def)
  moreover have "getSize f1 = max (getSize ?f) (word_of_nat (x + n))" unfolding f1_def by (rule getSize_setSize)
  then have "permissions f2 = fst (unlockTokens (word_of_nat x) (word_of_nat (x + n)) (permissions ?f))"
    "hasModified f2" "getSize f2 = max (getSize ?f) (word_of_nat (x + n))"
    by (simp_all add: f2_def) (simp_all add: f1_def setSize_def)
  ultimately show thesis using that [of hit ?cl2 w2 k' f2] l(4-6) k2 by simp
qed

section \<open>Threads between two calls\<close>

text \<open>Any number of rounds of the flusher and of the harvester.\<close>

lemma client_thread_ok:
  assumes "client_thread S (cl, w) (cl', w')" "cok k cl w v"
  shows "cok k cl' w' v \<and> openedFiles cl' = openedFiles cl"
  using assms(1)
proof cases
  case (flusher c)
  then show ?thesis
    using cacheFlusher_ok [of "openedFiles cl" "cache cl" w v k] assms(2) unfolding client_ok_def
    by (metis Pair_inject PFSClient.select_convs PFSClient.surjective PFSClient.update_convs(4) sum.inject(2))
next
  case (harvester c)
  then have "0 < harvesterSemaphore (cache cl)" by (auto simp: cacheHarvester_def split: if_splits)
  with harvester show ?thesis
    using cacheHarvester_ok [of "openedFiles cl" "cache cl" w v k] assms(2) unfolding client_ok_def
    by (metis Pair_inject PFSClient.select_convs PFSClient.surjective PFSClient.update_convs(4) sum.inject(2))
qed

lemma client_threads_ok:
  assumes "(client_thread S)\<^sup>*\<^sup>* (cl, w) (cl', w')" "cok k cl w v"
  shows "cok k cl' w' v \<and> openedFiles cl' = openedFiles cl"
  using assms
proof (induction "(cl', w')" arbitrary: cl' w' rule: rtranclp_induct)
  case (step y)
  obtain cl1 w1 where "y = (cl1, w1)" by (cases y)
  then show ?case using step client_thread_ok [of cl1 w1 cl' w' k v] by auto
qed simp

lemma write_read:
  assumes ok: "cok k cl w v" and d: "findDescriptor d (openedFiles cl) = Some i"
    and p: "hasPermission (word_of_nat x) (word_of_nat (x + n)) True (permissions (openedFiles cl ! i))"
    and lim: "x + n \<le> LIMIT" "n \<le> length buf" "k + 2 * rounds x n \<le> 1024"
  shows "\<exists>hit cl1 w1. writeFile S d buf (int n) (int x) cl w = Inr (int n, hit, cl1, w1) \<and>
    (\<forall>cl2 w2. (client_thread S)\<^sup>*\<^sup>* (cl1, w1) (cl2, w2) \<longrightarrow>
      (\<exists>hit' cl3 w3. readFile S d (int n) (int x) cl2 w2 = Inr (int n, take n buf, hit', cl3, w3)))"
proof -
  have "k + rounds x n \<le> 1024" using lim(3) by simp
  from writeFile_ok [OF acquire_held [OF d p] ok lim(1,2) this] obtain hit cl1 w1 k1 f2 where wr:
    "writeFile S d buf (int n) (int x) cl w = Inr (int n, hit, cl1, w1)"
    "cok k1 cl1 w1 (vwrite v (fname (openedFiles cl ! i)) x (take n buf))" "k1 \<le> k + rounds x n"
    "openedFiles cl1 = (openedFiles cl)[i := f2]" "fkey f2 = fkey (openedFiles cl ! i)"
    "permissions f2 = fst (unlockTokens (word_of_nat x) (word_of_nat (x + n)) (permissions (openedFiles cl ! i)))"
    by metis
  have i: "i < length (openedFiles cl)" using d by (simp add: findDescriptor_def first_index_Some)
  have d1: "findDescriptor d (openedFiles cl1) = Some i"
    using d wr(4,5) by (auto simp: findDescriptor_def first_index_Some nth_list_update fkey_def)
  have p1: "hasPermission (word_of_nat x) (word_of_nat (x + n)) False (permissions (openedFiles cl1 ! i))"
    using hasPermission_weaken [OF p] wr(4,6) i by (simp add: hasPermission_unlock)
  have nm: "fname (openedFiles cl1 ! i) = fname (openedFiles cl ! i)" using wr(4,5) i by (simp add: fkey_def)
  have "\<exists>hit' cl3 w3. readFile S d (int n) (int x) cl2 w2 = Inr (int n, take n buf, hit', cl3, w3)"
    if t: "(client_thread S)\<^sup>*\<^sup>* (cl1, w1) (cl2, w2)" for cl2 w2
  proof -
    have ok2: "cok k1 cl2 w2 (vwrite v (fname (openedFiles cl ! i)) x (take n buf))" and o2: "openedFiles cl2 = openedFiles cl1"
      using client_threads_ok [OF t wr(2)] by simp_all
    have "k1 + rounds x n \<le> 1024" using wr(3) lim(3) by simp
    from readFile_ok [OF acquire_held ok2 lim(1) this, of d i] o2 d1 p1
    obtain bytes hit' cl3 w3 where rd: "readFile S d (int n) (int x) cl2 w2 = Inr (int n, bytes, hit', cl3, w3)"
      "length bytes = n" "\<And>j b. j < n \<Longrightarrow> vwrite v (fname (openedFiles cl ! i)) x (take n buf) (fname (openedFiles cl ! i)) (x + j) = Some b \<Longrightarrow> bytes ! j = b"
      unfolding nm [symmetric] by (metis (no_types, lifting))
    have "bytes = take n buf"
      using rd(2,3) lim(2) by (intro nth_equalityI) (simp_all add: vwrite_def)
    then show ?thesis using rd(1) by blast
  qed
  then show ?thesis using wr(1) by blast
qed

section \<open>Revocation\<close>

lemma revoke_ok:
  assumes ok: "cok k cl w v" and i: "first_index (\<lambda>f. fname f = name) (openedFiles cl) = Some i"
    and free: "fst (registerWaiting 0 (word_of_nat x) (word_of_nat y) (permissions (openedFiles cl ! i))) = 0"
    and lim: "x \<le> y" "y < LIMIT"
  obtains cl' w' where
    "client_revokePermission S name (word_of_nat x) (word_of_nat y) wr cl w = Inr (cl', w')" "cok k cl' w' v"
    "holds w' = holds w" "frame w' = frame w"
    "openedFiles cl' = (openedFiles cl)[i := (openedFiles cl ! i)\<lparr>permissions :=
       revokePermission (word_of_nat x) (word_of_nat y) (permissions (openedFiles cl ! i))\<rparr>]"
    "cmap (cache cl') \<subseteq>\<^sub>m cmap (cache cl)"
    "\<And>z b. x div 1024 \<le> z div 1024 \<Longrightarrow> z div 1024 \<le> y div 1024 \<Longrightarrow>
       cmap (cache cl') (descriptor (openedFiles cl ! i), blk z) = None"
    "\<And>z b. x div 1024 \<le> z div 1024 \<Longrightarrow> z div 1024 \<le> y div 1024 \<Longrightarrow> v name z = Some b \<Longrightarrow>
       content w' name (stripWidth (openedFiles cl ! i)) z = Some b"
proof -
  let ?f = "openedFiles cl ! i" and ?x = "word_of_nat x :: uint32" and ?y = "word_of_nat y :: uint32"
  define g where "g = ?f\<lparr>permissions := revokePermission ?x ?y (permissions ?f)\<rparr>"
  let ?fs = "(openedFiles cl)[i := g]"
  have il: "i < length (openedFiles cl)" "fname ?f = name" using i by (simp_all add: first_index_Some)
  have co: "coh (openedFiles cl) (cache cl) w v" and kb: "cache_books k (cache cl)" and rdy: "stubReady cl"
    using ok by (simp_all add: client_ok_def)
  have "fkey g = fkey ?f" by (simp add: g_def fkey_def)
  from coherent_fkey [OF fkey_update [OF il(1) this] co] have co1: "coh ?fs (cache cl) w v" .
  have g: "g \<in> set ?fs" using il(1) by (simp add: set_update_memI)
  have fuel: "x div 1024 \<le> y div 1024 + 1" "y div 1024 + 1 \<le> x div 1024 + evictFuel"
    using lim by (auto simp: evictFuel_def LIMIT_def div_le_mono le_SucI)
  have y: "y < 4294966272" using lim(2) by (simp add: LIMIT_def)
  have bs: "blockStart ?x = word_of_nat (x div 1024 * 1024)"
    using word_offset(1) [of x] lim by (simp add: blockStart_def blk_def)
  obtain c' w' where e: "evictRange (flush S ?fs) evictFuel (descriptor ?f) (blockStart ?x) ?y (cache cl, w) = Inr (c', w')"
    "coh ?fs c' w' v" "cache_books k c'" "cmap c' \<subseteq>\<^sub>m cmap (cache cl)"
    "\<forall>z. x div 1024 \<le> z div 1024 \<and> z div 1024 \<le> y div 1024 \<longrightarrow>
       cmap c' (descriptor ?f, blk z) = None \<and> sett ?fs v (descriptor ?f, blk z) w'" "holds w' = holds w" "frame w' = frame w"
    using evictRange_ok [OF co1 kb y fuel, of "descriptor ?f"] unfolding bs by blast
  let ?cl' = "cl\<lparr>openedFiles := ?fs, cache := c'\<rparr>"
  have "client_revokePermission S name ?x ?y wr cl w = Inr (?cl', w')"
    using i free registerWaiting_none [OF free] e(1)
    by (simp add: client_revokePermission_def client_revokeBegin_def client_revokeFinish_def Let_def g_def
        split: prod.splits)
  moreover have "cok k ?cl' w' v" using e(2,3) rdy by (simp add: client_ok_def)
  moreover have "content w' name (stripWidth ?f) z = Some b"
    if "x div 1024 \<le> z div 1024" "z div 1024 \<le> y div 1024" "v name z = Some b" for z b
    using e(5) that g il(2) unfolding settled_def by (fastforce simp: g_def)
  ultimately show thesis using that [of ?cl' w'] e(4-7) by (simp add: g_def)
qed

section \<open>Closing\<close>

lemma closeFile_ok:
  assumes ok: "cok k cl w v" and d: "findDescriptor d (openedFiles cl) = Some i" and i: "i \<le> 1"
    and ps: "\<forall>p\<in>set (permissions (openedFiles cl ! i)). pend p < 4294966272 \<and> pstart p \<le> pend p"
  obtains c w1 where
    "\<And>w2. rpc_CloseFile S \<lparr>cl_name = fname (openedFiles cl ! i), cl_hasModified = hasModified (openedFiles cl ! i),
        cl_size = getSize (openedFiles cl ! i)\<rparr> w1 = Inr (Status_OK, w2) \<Longrightarrow>
      closeFile S d cl w = Inr (0, cl\<lparr>openedFiles := verase i (i + 1) (openedFiles cl), cache := c\<rparr>, w2)"
    "coh (openedFiles cl) c w1 v" "cache_books k c" "cmap c \<subseteq>\<^sub>m cmap (cache cl)"
    "\<And>p z. p \<in> set (permissions (openedFiles cl ! i)) \<Longrightarrow> unat (pstart p) div 1024 \<le> z div 1024 \<Longrightarrow>
       z div 1024 \<le> unat (pend p) div 1024 \<Longrightarrow> cmap c (d, blk z) = None"
    "\<And>p z b. p \<in> set (permissions (openedFiles cl ! i)) \<Longrightarrow> unat (pstart p) div 1024 \<le> z div 1024 \<Longrightarrow>
       z div 1024 \<le> unat (pend p) div 1024 \<Longrightarrow> v (fname (openedFiles cl ! i)) z = Some b \<Longrightarrow>
       fcontent w1 (openedFiles cl ! i) z = Some b"
    "holds w1 = holds w" "frame w1 = frame w"
proof -
  let ?fs = "openedFiles cl" and ?f = "openedFiles cl ! i"
  have il: "i < length ?fs" "descriptor ?f = d" using d by (simp_all add: findDescriptor_def first_index_Some)
  have co: "coh ?fs (cache cl) w v" and kb: "cache_books k (cache cl)" and rdy: "stubReady cl"
    using ok by (simp_all add: client_ok_def)
  have fb: "foundAtBool d ?fs = i" using d i by (auto simp: foundAtBool_def)
  have rn: "requestName d ?fs = fname ?f" using d by (simp add: requestName_def)
  obtain c w1 where e: "evictTokens (flush S ?fs) d (permissions ?f) (cache cl, w) = Inr (c, w1)"
    "coh ?fs c w1 v" "cache_books k c" "cmap c \<subseteq>\<^sub>m cmap (cache cl)"
    "\<forall>p\<in>set (permissions ?f). \<forall>z. unat (pstart p) div 1024 \<le> z div 1024 \<and> z div 1024 \<le> unat (pend p) div 1024 \<longrightarrow>
       cmap c (d, blk z) = None \<and> sett ?fs v (d, blk z) w1" "holds w1 = holds w" "frame w1 = frame w"
    using evictTokens_ok [OF co kb ps, of d] by blast
  show thesis
  proof (rule that [OF _ e(2-4) _ _ e(6,7)])
    show "closeFile S d cl w = Inr (0, cl\<lparr>openedFiles := verase i (i + 1) ?fs, cache := c\<rparr>, w2)"
      if "rpc_CloseFile S \<lparr>cl_name = fname ?f, cl_hasModified = hasModified ?f, cl_size = getSize ?f\<rparr> w1 = Inr (Status_OK, w2)" for w2
      using that rdy il e(1) by (simp add: closeFile_def Let_def fb rn)
    show "cmap c (d, blk z) = None" if "p \<in> set (permissions ?f)" "unat (pstart p) div 1024 \<le> z div 1024"
       "z div 1024 \<le> unat (pend p) div 1024" for p z using e(5) that by blast
    show "fcontent w1 ?f z = Some b" if "p \<in> set (permissions ?f)" "unat (pstart p) div 1024 \<le> z div 1024"
       "z div 1024 \<le> unat (pend p) div 1024" "v (fname ?f) z = Some b" for p z b
    proof -
      have "sett ?fs v (d, blk z) w1" using e(5) that(1-3) by blast
      then show ?thesis using that(4) il nth_mem [OF il(1)] by (simp add: settled_def)
    qed
  qed
qed

lemma finalize_ok:
  assumes "cok k cl w v"
  obtains w' where "finalize S cl w = Inr w'" "frame w' = frame w" "holds w' = holds w"
    "\<And>f x b. f \<in> set (openedFiles cl) \<Longrightarrow> v (fname f) x = Some b \<Longrightarrow> fcontent w' f x = Some b"
proof -
  have co: "coh (openedFiles cl) (cache cl) w v" and kb: "cache_books k (cache cl)"
    using assms by (simp_all add: client_ok_def)
  from delete_Cache_ok [OF co kb] obtain w' where
    "delete_Cache (flush S (openedFiles cl)) (cache cl, w) = Inr w'" "\<And>j. sett (openedFiles cl) v j w'"
    "frame w' = frame w" "holds w' = holds w" by metis
  then show thesis by (intro that [of w']) (auto simp: finalize_def settled_def)
qed

end

section \<open>A cached block is served as it is\<close>

lemma readFile_cached:
  assumes acq: "acquirePermission S d (word_of_nat x) (word_of_nat (x + n)) False cl w = Inr (int i, cl1, w1)"
    and "stubReady cl" "cache_inv (cache cl1)" and hit: "cmap (cache cl1) (d, blk x) = Some (bytes, m)" "length bytes = 1024"
    and n: "0 < n" "n + x mod 1024 \<le> 1024"
  shows "\<exists>cl2. readFile S d (int n) (int x) cl w = Inr (int n, take n (drop (x mod 1024) bytes), True, cl2, w1)"
proof -
  obtain c1 where "readBlock d (blk x) (cache cl1) = Inr (map_option fst (cmap (cache cl1) (d, blk x)), c1)"
    using readBlock_spec [OF assms(3)] by metis
  then have o: "readOne S f d (int x) (int n) (cache cl1, w1) = Inr (take n (drop (x mod 1024) bytes), True, c1, w1)" for f
    using hit n by (simp add: readOne_def blockOf_nat smod_nat)
  have sz: "actualSize (int x) (int n) = int n" using n(2) by (simp only: actualSize_nat)
  have "readLoop S f d (int x) (int n) [] True (cache cl1, w1) = Inr (take n (drop (x mod 1024) bytes), True, c1, w1)" for f
    using n(1) by (subst readLoop.simps, simp only: sz o) (simp add: readLoop.simps)
  then show ?thesis using acq assms(2) by (simp add: readFile_def Let_def)
qed

end
