(* ===== verification/MM_File.thy ===== *)
theory MM_File
  imports File_Bounds Message
begin

text \<open>
  The token manager of one file: class \<^verbatim>\<open>MMFile\<close> (\<^verbatim>\<open>metadata_manager/mm_file.cpp\<close>). The
  \<^verbatim>\<open>unordered_map\<close> from peers to token vectors is an association list; the order of its
  entries stands for the map's unspecified iteration order. Every method holds the file's mutex
  from its first to its last statement, so methods are atomic. The revocation threads that
  \<^verbatim>\<open>waitAndGetPermissionFor\<close> starts and joins appear in its result as the messages they send.
\<close>

record MMFile = File +
  clientPermissions :: "(string \<times> Permission list) list"

definition MMFile_open :: "string \<Rightarrow> MMFile \<Rightarrow> bool \<times> MMFile" where
  "MMFile_open peer f =
    (if map_of (clientPermissions f) peer \<noteq> None then (False, f)
     else (True, f\<lparr>clientPermissions := (peer, []) # clientPermissions f\<rparr>))"

definition MMFile_close :: "string \<Rightarrow> MMFile \<Rightarrow> bool \<times> MMFile" where
  "MMFile_close peer f =
    (if map_of (clientPermissions f) peer = None then (False, f)
     else (True, f\<lparr>clientPermissions := filter (\<lambda>kv. fst kv \<noteq> peer) (clientPermissions f)\<rparr>))"

definition isOpen :: "MMFile \<Rightarrow> bool" where
  "isOpen f = (if clientPermissions f = [] then False else True)"

definition isOpenedBy :: "string \<Rightarrow> MMFile \<Rightarrow> bool" where
  "isOpenedBy peer f = (if map_of (clientPermissions f) peer = None then False else True)"

text \<open>
  The loop over the other clients: a client with a conflicting token loses the range and is
  sent a revocation; \<^verbatim>\<open>firstPermit\<close> stays true while no token of another client was seen.
\<close>

definition conflicts :: "uint32 \<Rightarrow> uint32 \<Rightarrow> bool \<Rightarrow> Permission \<Rightarrow> bool" where
  "conflicts start en iswrite permit = ((isWrite permit \<or> iswrite) \<and> isShared permit start en)"

fun scanClients ::
  "string \<Rightarrow> uint32 \<Rightarrow> uint32 \<Rightarrow> bool \<Rightarrow> (string \<times> Permission list) list \<Rightarrow>
   (string \<times> Permission list) list \<times> string list \<times> bool"
where
  "scanClients peer start en iswrite [] = ([], [], True)"
| "scanClients peer start en iswrite ((c, ps) # rest) =
     (let (rest', threads, firstPermit) = scanClients peer start en iswrite rest
      in if c = peer then ((c, ps) # rest', threads, firstPermit)
         else if \<exists>permit\<in>set ps. conflicts start en iswrite permit
              then ((c, revokePermission start en ps) # rest', c # threads, False)
              else ((c, ps) # rest', threads, firstPermit \<and> ps = []))"

text \<open>The token handed out: the request, or the whole file when no other client has a token.\<close>

definition grantedRange :: "uint32 \<Rightarrow> uint32 \<Rightarrow> string list \<Rightarrow> bool \<Rightarrow> uint32 \<times> uint32" where
  "grantedRange start en threads firstPermit =
    (if threads \<noteq> [] \<or> \<not> firstPermit then (start, en) else (0, INT_MAX))"

text \<open>
  \<^verbatim>\<open>clientPermissions[peer]\<close> of a peer that has not opened the file is a new null pointer,
  which the code dereferences.
\<close>

definition waitAndGetPermissionFor ::
  "string \<Rightarrow> uint32 \<Rightarrow> uint32 \<Rightarrow> bool \<Rightarrow> MMFile \<Rightarrow>
   (Permission \<times> MMFile \<times> (string \<times> RevokePermissionRequest) list) result" where
  "waitAndGetPermissionFor peer start en iswrite f =
    (if clientPermissions f = [] then Inl NullDeref
     else
       let (cps, threads, firstPermit) = scanClients peer start en iswrite (clientPermissions f);
           (gs, ge) = grantedRange start en threads firstPermit;
           permit = new_Permission gs ge iswrite;
           request = \<lparr>rv_name = fname f, rv_start = start, rv_end = en, rv_isWrite = iswrite\<rparr>
       in case map_of cps peer of
            None \<Rightarrow> Inl NullDeref
          | Some v \<Rightarrow>
              bindR (addPermission (pstart permit) (pend permit) iswrite v False) (\<lambda>v'.
                Inr (permit,
                     f\<lparr>clientPermissions :=
                         map (\<lambda>kv. if fst kv = peer then (peer, v') else kv) cps\<rparr>,
                     map (\<lambda>c. (c, request)) threads)))"

section \<open>The exclusion invariant\<close>

text \<open>
  Every peer has one entry, and no byte that one peer may write is covered by another peer's
  tokens.
\<close>

definition exclusive :: "(string \<times> Permission list) list \<Rightarrow> bool" where
  "exclusive cps \<longleftrightarrow> distinct (map fst cps) \<and>
    (\<forall>c v c' v'. (c, v) \<in> set cps \<longrightarrow> (c', v') \<in> set cps \<longrightarrow> c \<noteq> c' \<longrightarrow>
       compatible (rbytes v) (wbytes v) (rbytes v') (wbytes v'))"

lemma scanClients_keys:
  assumes "scanClients peer start en iswrite cps = (cps', threads, firstPermit)"
  shows "map fst cps' = map fst cps" "set threads \<subseteq> set (map fst cps) - {peer}"
    "map_of cps' peer = map_of cps peer"
  using assms
  by (induction cps arbitrary: cps' threads firstPermit)
     (auto simp: Let_def split: prod.splits if_splits)

text \<open>What the loop leaves of another client's vector, and when it reports it.\<close>

definition afterScan :: "uint32 \<Rightarrow> uint32 \<Rightarrow> bool \<Rightarrow> Permission list \<Rightarrow> Permission list" where
  "afterScan start en iswrite ps =
    (if \<exists>permit\<in>set ps. conflicts start en iswrite permit then revokePermission start en ps else ps)"

lemma scanClients_map:
  assumes "scanClients peer start en iswrite cps = (cps', threads, firstPermit)"
  shows "cps' = map (\<lambda>(c, ps). (c, if c = peer then ps else afterScan start en iswrite ps)) cps"
    and "threads = map fst (filter (\<lambda>(c, ps). c \<noteq> peer \<and>
           (\<exists>permit\<in>set ps. conflicts start en iswrite permit)) cps)"
    and "firstPermit \<longleftrightarrow> (\<forall>(c, ps)\<in>set cps. c \<noteq> peer \<longrightarrow> ps = [])"
proof -
  have "cps' = map (\<lambda>(c, ps). (c, if c = peer then ps else afterScan start en iswrite ps)) cps \<and>
    threads = map fst (filter (\<lambda>(c, ps). c \<noteq> peer \<and>
           (\<exists>permit\<in>set ps. conflicts start en iswrite permit)) cps) \<and>
    (firstPermit \<longleftrightarrow> (\<forall>(c, ps)\<in>set cps. c \<noteq> peer \<longrightarrow> ps = []))"
    using assms
  proof (induction cps arbitrary: cps' threads firstPermit)
    case (Cons cv cps)
    obtain c ps where cv: "cv = (c, ps)" by (cases cv)
    obtain r t fp where r: "scanClients peer start en iswrite cps = (r, t, fp)"
      by (metis prod_cases3)
    note IH = Cons.IH [OF r]
    show ?case
      using Cons.prems IH by (auto simp: cv r Let_def afterScan_def split: if_splits)
  qed simp
  then show "cps' = map (\<lambda>(c, ps). (c, if c = peer then ps else afterScan start en iswrite ps)) cps"
    "threads = map fst (filter (\<lambda>(c, ps). c \<noteq> peer \<and>
           (\<exists>permit\<in>set ps. conflicts start en iswrite permit)) cps)"
    "firstPermit \<longleftrightarrow> (\<forall>(c, ps)\<in>set cps. c \<noteq> peer \<longrightarrow> ps = [])"
    by auto
qed

lemma afterScan_free:
  "{start..<en} \<inter> (if iswrite then rbytes (afterScan start en iswrite ps)
                  else wbytes (afterScan start en iswrite ps)) = {}"
proof (cases "\<exists>permit\<in>set ps. conflicts start en iswrite permit")
  case True
  then have "afterScan start en iswrite ps = revokePermission start en ps"
    by (simp add: afterScan_def)
  then show ?thesis unfolding \<open>afterScan start en iswrite ps = _\<close>
    using tokens.revoke_free [of start en ps] by simp
next
  case False
  have "pbytes p \<inter> {start..<en} = {}" if "p \<in> set ps" "isWrite p \<or> iswrite" for p
    by (rule not_isShared_disjoint) (use False that in \<open>auto simp: conflicts_def\<close>)
  moreover have "afterScan start en iswrite ps = ps" using False by (simp add: afterScan_def)
  ultimately show ?thesis
    unfolding \<open>afterScan start en iswrite ps = ps\<close> by (auto simp: rbytes_def wbytes_def)
qed

lemma afterScan_compatible:
  assumes "compatible (rbytes u) (wbytes u) (rbytes v) (wbytes v)"
  shows "compatible (rbytes u) (wbytes u) (rbytes (afterScan s e w v)) (wbytes (afterScan s e w v))"
  using assms tokens.revoke_compatible(1) by (simp add: afterScan_def)

lemma compatible_sym: "compatible r w r' w' \<longleftrightarrow> compatible r' w' r w"
  by (auto simp: compatible_def)

lemma afterScan_compatible2:
  assumes "compatible (rbytes u) (wbytes u) (rbytes v) (wbytes v)"
  shows "compatible (rbytes (afterScan s e w u)) (wbytes (afterScan s e w u))
    (rbytes (afterScan s e w v)) (wbytes (afterScan s e w v))"
  using afterScan_compatible [OF afterScan_compatible [OF assms, THEN compatible_sym [THEN iffD1]]]
    compatible_sym by blast

lemma exclusive_scan:
  assumes "exclusive cps"
  shows "exclusive (map (\<lambda>(c, ps). (c, if c = peer then ps else afterScan s e w ps)) cps)"
proof -
  let ?f = "\<lambda>(c, ps). (c, if c = peer then ps else afterScan s e w ps)"
  have "map fst (map ?f cps) = map fst cps" by (induction cps) auto
  moreover have "compatible (rbytes v) (wbytes v) (rbytes v') (wbytes v')"
    if "(c, v) \<in> set (map ?f cps)" "(c', v') \<in> set (map ?f cps)" "c \<noteq> c'" for c v c' v'
  proof -
    from that obtain u u' where u: "(c, u) \<in> set cps" "(c', u') \<in> set cps"
      and v: "v = (if c = peer then u else afterScan s e w u)"
        "v' = (if c' = peer then u' else afterScan s e w u')" by auto
    have "compatible (rbytes u) (wbytes u) (rbytes u') (wbytes u')"
      using assms u that(3) unfolding exclusive_def by blast
    then show ?thesis unfolding v
      using afterScan_compatible afterScan_compatible2 compatible_sym by (auto split: if_splits)
  qed
  ultimately show ?thesis using assms unfolding exclusive_def by presburger
qed

lemma exclusive_update:
  assumes ex: "exclusive cps"
    and comp: "\<And>c u. (c, u) \<in> set cps \<Longrightarrow> c \<noteq> peer \<Longrightarrow>
      compatible (rbytes v') (wbytes v') (rbytes u) (wbytes u)"
  shows "exclusive (map (\<lambda>kv. if fst kv = peer then (peer, v') else kv) cps)"
proof -
  let ?f = "\<lambda>kv. if fst kv = peer then (peer, v') else kv"
  have "map fst (map ?f cps) = map fst cps" by (induction cps) auto
  moreover have "compatible (rbytes a) (wbytes a) (rbytes b) (wbytes b)"
    if "(c, a) \<in> set (map ?f cps)" "(c', b) \<in> set (map ?f cps)" "c \<noteq> c'" for c a c' b
  proof -
    have in_cps: "(if c = peer then a = v' else (c, a) \<in> set cps)"
      "(if c' = peer then b = v' else (c', b) \<in> set cps)" using that(1,2) by (auto split: if_splits)
    show ?thesis
    proof (cases "c = peer \<or> c' = peer")
      case True
      then show ?thesis using in_cps that(3) comp compatible_sym by (auto split: if_splits)
    next
      case False
      then show ?thesis using in_cps that(3) ex unfolding exclusive_def by auto
    qed
  qed
  ultimately show ?thesis using ex unfolding exclusive_def by presburger
qed

section \<open>What waitAndGetPermissionFor does\<close>

text \<open>The result of a call that returns, with the loop replaced by its effect.\<close>

lemma waitAndGetPermissionFor_result:
  assumes "waitAndGetPermissionFor peer start en iswrite f = Inr (permit, f', msgs)"
  defines "cps \<equiv> map (\<lambda>(c, ps). (c, if c = peer then ps else afterScan start en iswrite ps))
                   (clientPermissions f)"
    and "alone \<equiv> \<forall>(c, ps)\<in>set (clientPermissions f). c \<noteq> peer \<longrightarrow> ps = []"
  obtains v v' where "map_of (clientPermissions f) peer = Some v"
    "permit = (if alone then new_Permission 0 INT_MAX iswrite else new_Permission start en iswrite)"
    "addPermission (pstart permit) (pend permit) iswrite v False = Inr v'"
    "f' = f\<lparr>clientPermissions := map (\<lambda>kv. if fst kv = peer then (peer, v') else kv) cps\<rparr>"
    "msgs = map (\<lambda>c. (c, \<lparr>rv_name = fname f, rv_start = start, rv_end = en, rv_isWrite = iswrite\<rparr>))
       (map fst (filter (\<lambda>(c, ps). c \<noteq> peer \<and> (\<exists>p\<in>set ps. conflicts start en iswrite p))
          (clientPermissions f)))"
proof -
  obtain cps' threads fp where sc: "scanClients peer start en iswrite (clientPermissions f) = (cps', threads, fp)"
    by (metis prod_cases3)
  note m = scanClients_map [OF sc, folded cps_def] and k = scanClients_keys [OF sc]
  have alone: "threads \<noteq> [] \<or> \<not> fp \<longleftrightarrow> \<not> alone"
    unfolding m(2,3) alone_def by (fastforce simp: filter_empty_conv)
  from assms(1) obtain v v' where
    v: "map_of cps' peer = Some v"
    and p: "permit = new_Permission (fst (grantedRange start en threads fp)) (snd (grantedRange start en threads fp)) iswrite"
    and a: "addPermission (pstart permit) (pend permit) iswrite v False = Inr v'"
    and r: "f' = f\<lparr>clientPermissions := map (\<lambda>kv. if fst kv = peer then (peer, v') else kv) cps'\<rparr>"
      "msgs = map (\<lambda>c. (c, \<lparr>rv_name = fname f, rv_start = start, rv_end = en, rv_isWrite = iswrite\<rparr>)) threads"
    by (auto simp: waitAndGetPermissionFor_def sc Let_def split: if_splits option.splits prod.splits)
  show thesis
  proof (rule that [OF _ _ a])
    show "map_of (clientPermissions f) peer = Some v" using v k(3) by simp
    show "permit = (if alone then new_Permission 0 INT_MAX iswrite else new_Permission start en iswrite)"
      using p alone by (auto simp: grantedRange_def)
  qed (use r m in simp_all)
qed

lemma waitAndGetPermissionFor_exclusive:
  assumes "exclusive (clientPermissions f)"
    and w: "waitAndGetPermissionFor peer start en iswrite f = Inr (permit, f', msgs)"
  shows "exclusive (clientPermissions f')"
proof -
  let ?cps = "map (\<lambda>(c, ps). (c, if c = peer then ps else afterScan start en iswrite ps))
                   (clientPermissions f)"
  obtain v v' where v: "map_of (clientPermissions f) peer = Some v"
    and p: "permit = (if \<forall>(c, ps)\<in>set (clientPermissions f). c \<noteq> peer \<longrightarrow> ps = []
                      then new_Permission 0 INT_MAX iswrite else new_Permission start en iswrite)"
    and a: "addPermission (pstart permit) (pend permit) iswrite v False = Inr v'"
    and f': "f' = f\<lparr>clientPermissions := map (\<lambda>kv. if fst kv = peer then (peer, v') else kv) ?cps\<rparr>"
    by (rule waitAndGetPermissionFor_result [OF w])
  have ex: "exclusive ?cps" by (rule exclusive_scan [OF assms(1)])
  have mem: "(peer, v) \<in> set ?cps" using map_of_SomeD [OF v] by force
  have "compatible (rbytes v') (wbytes v') (rbytes u) (wbytes u)" if "(c, u) \<in> set ?cps" "c \<noteq> peer" for c u
  proof (rule tokens.add_compatible [OF a])
    show "compatible (rbytes v) (wbytes v) (rbytes u) (wbytes u)"
      using ex mem that unfolding exclusive_def by blast
    from that obtain ps where ps: "(c, ps) \<in> set (clientPermissions f)" "u = afterScan start en iswrite ps"
      by auto
    show "{pstart permit..<pend permit} \<inter> (if iswrite then rbytes u else wbytes u) = {}"
    proof (cases "\<forall>(c, ps)\<in>set (clientPermissions f). c \<noteq> peer \<longrightarrow> ps = []")
      case True
      then have "u = []" using ps that(2) by (auto simp: afterScan_def)
      then show ?thesis by simp
    next
      case False
      then have "pstart permit = start" "pend permit = en" using p by auto
      then show ?thesis using afterScan_free [of start en iswrite ps] unfolding ps(2) by simp
    qed
  qed
  then show ?thesis unfolding f' using exclusive_update [OF ex] by simp
qed

end
