(* ===== verification/Metadata_Manager.thy ===== *)
theory Metadata_Manager
  imports MM_File
begin

text \<open>
  The metadata manager: class \<^verbatim>\<open>MetadataManagerServiceImpl\<close>
  (\<^verbatim>\<open>metadata_manager/metadata_manager.cpp\<close>). A handler takes the caller's peer name, the
  request and the state and returns the status, the reply and the new state; it is one atomic
  step. The remote calls a handler makes are arguments: \<open>fsCreate i r w\<close> is \<^verbatim>\<open>CreateFile\<close> on
  file server \<open>i\<close>, \<open>sendRevoke ip r w\<close> is \<^verbatim>\<open>RevokePermission\<close> on the client that listens at
  \<open>ip\<close>; both transform the state \<open>w\<close> of the rest of the system and may not return.
  \<^verbatim>\<open>time(0)\<close> is an argument.
\<close>

record MetadataManager =
  files :: "string \<rightharpoonup> MMFile"
  clientStubs :: "string \<rightharpoonup> string"

definition new_MetadataManager :: MetadataManager where
  "new_MetadataManager = \<lparr>files = Map.empty, clientStubs = Map.empty\<rparr>"

definition ClientStart :: "string \<Rightarrow> string \<Rightarrow> MetadataManager \<Rightarrow> Status \<times> MetadataManager" where
  "ClientStart peer ip m = (Status_OK, m\<lparr>clientStubs := (clientStubs m)(peer \<mapsto> ip)\<rparr>)"

section \<open>CreateFile\<close>

definition new_MMFile :: "string \<Rightarrow> int \<Rightarrow> int \<Rightarrow> uint32 \<Rightarrow> MMFile" where
  "new_MMFile name ctime mtime width =
    \<lparr>fname = name, pst_mtime = mtime, pst_ctime = ctime, pst_size = ucast (0 :: uint32),
     stripWidth = width, permissions = [], hasModified = False, clientPermissions = []\<rparr>"

text \<open>The loop over the strips; its counter is an \<^verbatim>\<open>int\<close> and overflows behind the largest one.\<close>

fun createStripes ::
  "(nat \<Rightarrow> CreateStripeRequest \<Rightarrow> 'w \<Rightarrow> (Status \<times> 'w) result) \<Rightarrow> CreateFileRequest \<Rightarrow> nat list \<Rightarrow> 'w \<Rightarrow> 'w result"
where
  "createStripes fsCreate request [] w = Inr w"
| "createStripes fsCreate request (i # is) w =
     (let stripeRequest = \<lparr>cs_name = cf_name request, cs_stripeWidth = cf_stripeWidth request,
                           cs_id = word_of_nat i\<rparr>
      in bindR (fsCreate (i mod NUM_FILE_SERVERS) stripeRequest w) (\<lambda>(status, w').
           if \<not> status_ok status then Inl AssertFail
           else if i = 2147483647 then Inl SignedOverflow
           else createStripes fsCreate request is w'))"

definition CreateFile ::
  "(nat \<Rightarrow> CreateStripeRequest \<Rightarrow> 'w \<Rightarrow> (Status \<times> 'w) result) \<Rightarrow> int \<Rightarrow> int \<Rightarrow> CreateFileRequest \<Rightarrow>
   MetadataManager \<Rightarrow> 'w \<Rightarrow> (Status \<times> int \<times> MetadataManager \<times> 'w) result" where
  "CreateFile fsCreate now1 now2 request m w =
    (if files m (cf_name request) \<noteq> None then Inr (Status_CANCELLED, ERROR_ALREADY_EXISTS, m, w)
     else
       let file = new_MMFile (cf_name request) now1 now2 (cf_stripeWidth request);
           m' = m\<lparr>files := (files m)(cf_name request \<mapsto> file)\<rparr>
       in bindR (createStripes fsCreate request [0..<unat (cf_stripeWidth request)] w) (\<lambda>w'.
            Inr (Status_OK, 0, m', w')))"

section \<open>OpenFile, CloseFile, DeleteFile, GetFileDesc\<close>

text \<open>The error codes of \<^verbatim>\<open>OpenFile\<close> go to a local \<^verbatim>\<open>StatusReply\<close> that is not sent.\<close>

definition OpenFile ::
  "string \<Rightarrow> string \<Rightarrow> MetadataManager \<Rightarrow> Status \<times> FileStatReply \<times> MetadataManager" where
  "OpenFile peer name m =
    (case files m name of
       None \<Rightarrow> (Status_CANCELLED, new_FileStatReply, m)
     | Some file \<Rightarrow>
         let (opened, file') = MMFile_open peer file
         in if \<not> opened then (Status_CANCELLED, new_FileStatReply, m)
            else (Status_OK,
                  \<lparr>st_error = 0, st_lastModified = pst_mtime file', st_creationTime = pst_ctime file',
                   st_fileSize = ucast (getSize file'), st_stripWidth = stripWidth file'\<rparr>,
                  m\<lparr>files := (files m)(name \<mapsto> file')\<rparr>))"

definition CloseFile ::
  "string \<Rightarrow> int \<Rightarrow> CloseFileRequest \<Rightarrow> MetadataManager \<Rightarrow> Status \<times> MetadataManager" where
  "CloseFile peer now request m =
    (case files m (cl_name request) of
       None \<Rightarrow> (Status_CANCELLED, m)
     | Some file \<Rightarrow>
         let file1 = (if cl_hasModified request
                      then setSize (max (cl_size request) (getSize file)) (file\<lparr>pst_mtime := now\<rparr>)
                      else file);
             (closed, file2) = MMFile_close peer file1;
             m' = m\<lparr>files := (files m)(cl_name request \<mapsto> file2)\<rparr>
         in if \<not> closed then (Status_CANCELLED, m') else (Status_OK, m'))"

definition DeleteFile :: "string \<Rightarrow> MetadataManager \<Rightarrow> Status \<times> int \<times> MetadataManager" where
  "DeleteFile name m =
    (case files m name of
       None \<Rightarrow> (Status_CANCELLED, ERROR_DOES_NOT_EXIST, m)
     | Some file \<Rightarrow>
         if isOpen file then (Status_CANCELLED, ERROR_DELETE_OPEN_FILE, m)
         else (Status_OK, 0, m\<lparr>files := (files m)(name := None)\<rparr>))"

definition GetFileDesc :: "string \<Rightarrow> MetadataManager \<Rightarrow> Status \<times> FileStatReply" where
  "GetFileDesc name m =
    (case files m name of
       None \<Rightarrow> (Status_CANCELLED, new_FileStatReply\<lparr>st_error := ERROR_DOES_NOT_EXIST\<rparr>)
     | Some file \<Rightarrow>
         (Status_OK,
          new_FileStatReply\<lparr>st_creationTime := pst_ctime file, st_lastModified := pst_mtime file,
                            st_fileSize := ucast (getSize file)\<rparr>))"

section \<open>GetPermission\<close>

text \<open>
  \<^verbatim>\<open>sendRevokePermissionRequest\<close> and \<^verbatim>\<open>revokePermit\<close>: one thread per revoked client, all
  joined before the reply. \<^verbatim>\<open>clientStubs[peer]\<close> of an unknown peer is a null stub.
\<close>

fun sendRevocations ::
  "(string \<Rightarrow> RevokePermissionRequest \<Rightarrow> 'w \<Rightarrow> 'w result) \<Rightarrow> (string \<rightharpoonup> string) \<Rightarrow>
   (string \<times> RevokePermissionRequest) list \<Rightarrow> 'w \<Rightarrow> 'w result"
where
  "sendRevocations sendRevoke stubs [] w = Inr w"
| "sendRevocations sendRevoke stubs ((peer, request) # msgs) w =
     (case stubs peer of
        None \<Rightarrow> Inl NullDeref
      | Some ip \<Rightarrow> bindR (sendRevoke ip request w) (sendRevocations sendRevoke stubs msgs))"

definition GetPermission ::
  "(string \<Rightarrow> RevokePermissionRequest \<Rightarrow> 'w \<Rightarrow> 'w result) \<Rightarrow> string \<Rightarrow> PermissionRequest \<Rightarrow>
   MetadataManager \<Rightarrow> 'w \<Rightarrow> (Status \<times> PermissionReply \<times> MetadataManager \<times> 'w) result" where
  "GetPermission sendRevoke peer request m w =
    (case files m (pr_name request) of
       None \<Rightarrow> Inr (Status_CANCELLED, new_PermissionReply\<lparr>pp_error := ERROR_DOES_NOT_EXIST\<rparr>, m, w)
     | Some file \<Rightarrow>
         if \<not> isOpenedBy peer file
         then Inr (Status_CANCELLED,
                   new_PermissionReply\<lparr>pp_error := ERROR_GET_PERMISSION_UNOPENED_FILE\<rparr>, m, w)
         else
           bindR (waitAndGetPermissionFor peer (pr_start request) (pr_end request)
                    (pr_isWrite request) file) (\<lambda>(permit, file', msgs).
           bindR (sendRevocations sendRevoke (clientStubs m) msgs w) (\<lambda>w'.
             Inr (Status_OK, \<lparr>pp_error = 0, pp_start = pstart permit, pp_end = pend permit\<rparr>,
                  m\<lparr>files := (files m)(pr_name request \<mapsto> file')\<rparr>, w'))))"

section \<open>Reachable states\<close>

text \<open>
  One step is one handler call of any peer with any request that returns; \<open>fsCreate\<close> and
  \<open>sendRevoke\<close> are arbitrary.
\<close>

inductive mm_step ::
  "(nat \<Rightarrow> CreateStripeRequest \<Rightarrow> 'w \<Rightarrow> (Status \<times> 'w) result) \<Rightarrow> (string \<Rightarrow> RevokePermissionRequest \<Rightarrow> 'w \<Rightarrow> 'w result) \<Rightarrow>
   MetadataManager \<times> 'w \<Rightarrow> MetadataManager \<times> 'w \<Rightarrow> bool"
  for fsCreate sendRevoke
where
  start: "ClientStart peer ip m = (s, m') \<Longrightarrow> mm_step fsCreate sendRevoke (m, w) (m', w)"
| create: "CreateFile fsCreate now1 now2 request m w = Inr (s, err, m', w') \<Longrightarrow>
     mm_step fsCreate sendRevoke (m, w) (m', w')"
| opens: "OpenFile peer name m = (s, reply, m') \<Longrightarrow> mm_step fsCreate sendRevoke (m, w) (m', w)"
| close: "CloseFile peer now creq m = (s, m') \<Longrightarrow> mm_step fsCreate sendRevoke (m, w) (m', w)"
| delete: "DeleteFile name m = (s, err, m') \<Longrightarrow> mm_step fsCreate sendRevoke (m, w) (m', w)"
| permit: "GetPermission sendRevoke peer preq m w = Inr (s, preply, m', w') \<Longrightarrow>
     mm_step fsCreate sendRevoke (m, w) (m', w')"

inductive mm_reachable ::
  "(nat \<Rightarrow> CreateStripeRequest \<Rightarrow> 'w \<Rightarrow> (Status \<times> 'w) result) \<Rightarrow> (string \<Rightarrow> RevokePermissionRequest \<Rightarrow> 'w \<Rightarrow> 'w result) \<Rightarrow>
   MetadataManager \<times> 'w \<Rightarrow> bool"
  for fsCreate sendRevoke
where
  init: "mm_reachable fsCreate sendRevoke (new_MetadataManager, w)"
| step: "mm_reachable fsCreate sendRevoke x \<Longrightarrow> mm_step fsCreate sendRevoke x y \<Longrightarrow>
     mm_reachable fsCreate sendRevoke y"

definition mm_inv :: "MetadataManager \<Rightarrow> bool" where
  "mm_inv m \<longleftrightarrow> (\<forall>n f. files m n = Some f \<longrightarrow> fname f = n \<and> exclusive (clientPermissions f))"

lemma mm_inv_upd:
  "mm_inv m \<Longrightarrow> fname f = n \<Longrightarrow> exclusive (clientPermissions f) \<Longrightarrow>
   mm_inv (m\<lparr>files := (files m)(n \<mapsto> f)\<rparr>)"
  by (auto simp: mm_inv_def)

lemma mm_invD: "mm_inv m \<Longrightarrow> files m n = Some f \<Longrightarrow> fname f = n \<and> exclusive (clientPermissions f)"
  by (simp add: mm_inv_def)

lemma compatible_empty [simp]: "compatible {} {} r w" "compatible r w {} {}"
  by (simp_all add: compatible_def)

lemma exclusive_Nil [simp]: "exclusive []"
  by (simp add: exclusive_def)

lemma MMFile_open_keeps:
  assumes "MMFile_open peer f = (b, f')"
  shows "fname f' = fname f" "exclusive (clientPermissions f) \<Longrightarrow> exclusive (clientPermissions f')"
  using assms by (auto simp: MMFile_open_def exclusive_def map_of_eq_None_iff split: if_splits)

lemma exclusive_filter: "exclusive cps \<Longrightarrow> exclusive (filter P cps)"
  unfolding exclusive_def by (auto intro: distinct_map_filter)

lemma MMFile_close_keeps:
  assumes "MMFile_close peer f = (b, f')"
  shows "fname f' = fname f" "exclusive (clientPermissions f) \<Longrightarrow> exclusive (clientPermissions f')"
  using assms exclusive_filter by (auto simp: MMFile_close_def split: if_splits)

lemma waitAndGetPermissionFor_fname:
  assumes "waitAndGetPermissionFor peer start en iswrite f = Inr (permit, f', msgs)"
  shows "fname f' = fname f"
  by (rule waitAndGetPermissionFor_result [OF assms]) simp

lemma OpenFile_inv:
  assumes "OpenFile peer name m = (s, reply, m')" "mm_inv m"
  shows "mm_inv m'"
proof (cases "files m name")
  case None
  then show ?thesis using assms by (simp add: OpenFile_def)
next
  case (Some f)
  obtain b f' where o: "MMFile_open peer f = (b, f')" by (cases "MMFile_open peer f")
  note k = MMFile_open_keeps [OF o] mm_invD [OF assms(2) Some]
  show ?thesis
    using assms k by (auto simp: OpenFile_def Some o split: if_splits intro!: mm_inv_upd)
qed

lemma CloseFile_inv:
  assumes "CloseFile peer now request m = (s, m')" "mm_inv m"
  shows "mm_inv m'"
proof (cases "files m (cl_name request)")
  case None
  then show ?thesis using assms by (simp add: CloseFile_def)
next
  case (Some f)
  define f1 where "f1 = (if cl_hasModified request
      then setSize (max (cl_size request) (getSize f)) (f\<lparr>pst_mtime := now\<rparr>) else f)"
  obtain b f2 where c: "MMFile_close peer f1 = (b, f2)" by (cases "MMFile_close peer f1")
  note k = MMFile_close_keeps [OF c] mm_invD [OF assms(2) Some]
  have f1: "fname f1 = fname f" "clientPermissions f1 = clientPermissions f"
    by (simp_all add: f1_def setSize_def)
  show ?thesis
    using assms k f1 unfolding CloseFile_def Some option.case Let_def f1_def [symmetric] c prod.case
    by (auto split: if_splits intro!: mm_inv_upd)
qed

lemma GetPermission_OkE:
  assumes "GetPermission sendRevoke peer request m w = Inr (s, reply, m', w')"
  obtains (failed) "s = Status_CANCELLED" "m' = m" "w' = w"
    "files m (pr_name request) = None \<or>
      (\<exists>f. files m (pr_name request) = Some f \<and> \<not> isOpenedBy peer f)"
  | (granted) f permit f' msgs where "files m (pr_name request) = Some f" "isOpenedBy peer f"
    "waitAndGetPermissionFor peer (pr_start request) (pr_end request) (pr_isWrite request) f
       = Inr (permit, f', msgs)"
    "sendRevocations sendRevoke (clientStubs m) msgs w = Inr w'"
    "s = Status_OK" "reply = \<lparr>pp_error = 0, pp_start = pstart permit, pp_end = pend permit\<rparr>"
    "m' = m\<lparr>files := (files m)(pr_name request \<mapsto> f')\<rparr>"
proof (cases "files m (pr_name request)")
  case None
  then show thesis using assms failed by (auto simp: GetPermission_def)
next
  case (Some f)
  show thesis
  proof (cases "isOpenedBy peer f")
    case True
    with assms Some granted show thesis by (auto simp: GetPermission_def)
  next
    case False
    then show thesis using assms Some failed by (auto simp: GetPermission_def)
  qed
qed

lemma GetPermission_inv:
  assumes "GetPermission sendRevoke peer request m w = Inr (s, reply, m', w')" "mm_inv m"
  shows "mm_inv m'"
  using assms(1)
proof (cases rule: GetPermission_OkE)
  case failed
  then show ?thesis using assms(2) by simp
next
  case (granted f permit f' msgs)
  then show ?thesis
    using mm_invD [OF assms(2) granted(1)] waitAndGetPermissionFor_fname [OF granted(3)]
      waitAndGetPermissionFor_exclusive [OF _ granted(3)] assms(2)
    by (auto intro!: mm_inv_upd)
qed

lemma mm_step_inv:
  assumes "mm_step fsCreate sendRevoke x y" "mm_inv (fst x)"
  shows "mm_inv (fst y)"
  using assms
proof (induction rule: mm_step.induct)
  case (start peer ip m s m' w)
  then show ?case by (auto simp: ClientStart_def mm_inv_def)
next
  case (create now1 now2 request m w s err m' w')
  then show ?case
    by (auto simp: CreateFile_def Let_def new_MMFile_def split: if_splits intro!: mm_inv_upd)
next
  case (delete name m s err m' w)
  then show ?case
    by (auto simp: DeleteFile_def mm_inv_def split: option.splits if_splits)
qed (auto dest: OpenFile_inv CloseFile_inv GetPermission_inv)

lemma mm_reachable_inv: "mm_reachable fsCreate sendRevoke x \<Longrightarrow> mm_inv (fst x)"
proof (induction rule: mm_reachable.induct)
  case (init w)
  then show ?case by (simp add: mm_inv_def new_MetadataManager_def)
next
  case (step x y)
  then show ?case using mm_step_inv by blast
qed

end
