(* ===== verification/FS_Properties.thy ===== *)
theory FS_Properties
  imports FS_Store
begin

text \<open>
  The properties of a file server: the states its handlers can reach, where a byte is stored,
  the effect of the block handlers on the stored bytes, and the requests it answers wrongly.
\<close>

section \<open>Reachable states\<close>

inductive fs_step :: "FileServer \<Rightarrow> FileServer \<Rightarrow> bool" where
  create: "FS_CreateFile creq s = Inr (st, s') \<Longrightarrow> fs_step s s'"
| read_block: "ReadBlock junk breq s = Inr (st, bytes, s') \<Longrightarrow> fs_step s s'"
| write_block: "WriteBlock wreq s = Inr (st, s') \<Longrightarrow> fs_step s s'"
| read_file: "ReadFile junk freq s = Inr (st, bytes, s') \<Longrightarrow> fs_step s s'"
| write_file: "WriteFile greq s = Inr (st, s') \<Longrightarrow> fs_step s s'"

inductive fs_reachable :: "string \<Rightarrow> FileServer \<Rightarrow> bool" for a where
  init: "fs_reachable a (new_FileServer a)"
| step: "fs_reachable a s \<Longrightarrow> fs_step s s' \<Longrightarrow> fs_reachable a s'"

lemma FS_CreateFile_inv:
  assumes "FS_CreateFile r s = Inr (st, s')" "fs_inv s"
  shows "fs_inv s'"
proof -
  define p where "p = stripeAddress (filesDirectory s) (cs_name r) (cs_id r)"
  define f where "f = (case fs_files s (cs_name r) of
      None \<Rightarrow> new_FSFile (cs_name r) (cs_stripeWidth r) | Some f \<Rightarrow> f)"
  have s': "s' = s\<lparr>fs_files := (fs_files s)(cs_name r \<mapsto> f\<lparr>stripPaths := (stripPaths f)(sint (cs_id r) \<mapsto> p)\<rparr>),
      disk := (disk s)(p \<mapsto> [])\<rparr>"
    using assms(1) by (auto simp: FS_CreateFile_def addStrip_def p_def f_def Let_def split: if_splits)
  have old: "(\<exists>sid. i = sint sid \<and> q = stripeAddress (filesDirectory s) n sid) \<and> disk s q \<noteq> None"
    if "fs_files s n = Some g" "stripPaths g i = Some q" for n g i q
    using assms(2) that unfolding fs_inv_def by blast
  have "(\<exists>sid. i = sint sid \<and> q = stripeAddress (filesDirectory s) (cs_name r) sid) \<and> disk s q \<noteq> None"
    if "stripPaths f i = Some q" for i q
    using that old [of "cs_name r" f] by (auto simp: f_def new_FSFile_def split: option.splits)
  then show ?thesis unfolding s' fs_inv_def using old p_def by auto
qed

lemma fs_inv_lock: "fs_inv (s\<lparr>lockHeld := b\<rparr>) = fs_inv s"
  by (simp add: fs_inv_def)

lemma fs_step_inv: "fs_step s s' \<Longrightarrow> fs_inv s \<Longrightarrow> fs_inv s'"
proof (induction rule: fs_step.induct)
  case (create creq s st s')
  then show ?case by (rule FS_CreateFile_inv)
next
  case (read_block junk breq s st bytes s')
  then show ?case
    by (auto simp: ReadBlock_def Let_def fs_inv_lock split: if_splits option.splits)
next
  case (write_block wreq s st s')
  then show ?case
    by (auto simp: WriteBlock_def Let_def fs_inv_lock split: if_splits option.splits intro!: fs_inv_disk)
next
  case (read_file junk freq s st bytes s')
  then show ?case
    by (auto simp: ReadFile_def Let_def fs_inv_lock split: if_splits option.splits)
next
  case (write_file greq s st s')
  then show ?case
    by (auto simp: WriteFile_def Let_def fs_inv_lock split: if_splits option.splits intro!: fs_inv_disk)
qed

lemma fs_reachable_inv: "fs_reachable a s \<Longrightarrow> fs_inv s"
proof (induction rule: fs_reachable.induct)
  case init
  then show ?case by (simp add: fs_inv_def new_FileServer_def)
next
  case (step s s')
  then show ?case using fs_step_inv by blast
qed

text \<open>A server that holds strip 0 of a file with two strips.\<close>

definition demo_create :: CreateStripeRequest where
  "demo_create = \<lparr>cs_name = ''f'', cs_stripeWidth = 2, cs_id = 0\<rparr>"

definition demo_file :: FSFile where
  "demo_file = (new_FSFile ''f'' 2)\<lparr>stripPaths := [0 \<mapsto> ''pfs_s/f_0'']\<rparr>"

definition demo_fs :: "uint8 list \<Rightarrow> FileServer" where
  "demo_fs bytes = \<lparr>address = ''s'', filesDirectory = ''pfs_s/'', fs_files = [''f'' \<mapsto> demo_file],
     lockHeld = False, disk = [''pfs_s/f_0'' \<mapsto> bytes]\<rparr>"

lemma char_0: "char_of (48 :: nat) = CHR ''0''"
proof -
  have "of_char (CHR ''0'') = (48 :: nat)" by simp
  then show ?thesis by (metis char_of_char)
qed

lemma demo_created: "FS_CreateFile demo_create (new_FileServer ''s'') = Inr (Status_OK, demo_fs [])"
  by (simp add: FS_CreateFile_def demo_create_def new_FileServer_def stripeAddress_def to_string.simps
      addStrip_def demo_fs_def demo_file_def new_FSFile_def Let_def char_0)

lemma demo_fs_reachable: "fs_reachable ''s'' (demo_fs [])"
  by (rule fs_reachable.step [OF fs_reachable.init fs_step.create [OF demo_created]])

text \<open>A second file on that server, whose name looks like a strip of the first.\<close>

definition demo_fs2 :: FileServer where
  "demo_fs2 = (demo_fs [])\<lparr>fs_files := [''f'' \<mapsto> demo_file,
       ''f_0'' \<mapsto> (new_FSFile ''f_0'' 1)\<lparr>stripPaths := [0 \<mapsto> ''pfs_s/f_0_0'']\<rparr>],
     disk := [''pfs_s/f_0'' \<mapsto> [], ''pfs_s/f_0_0'' \<mapsto> []]\<rparr>"

lemma demo_fs2_reachable: "fs_reachable ''s'' demo_fs2"
proof -
  have "FS_CreateFile \<lparr>cs_name = ''f_0'', cs_stripeWidth = 1, cs_id = 0\<rparr> (demo_fs []) = Inr (Status_OK, demo_fs2)"
    by (simp add: FS_CreateFile_def demo_fs_def demo_fs2_def stripeAddress_def to_string.simps addStrip_def
        new_FSFile_def Let_def char_0 fun_upd_twist)
  then show ?thesis by (rule fs_reachable.step [OF demo_fs_reachable fs_step.create])
qed

text \<open>
  C31. The server gives every strip a path of its own: in every reachable state, different strips
  of a file and strips of different files have different paths, whatever names the clients chose
  and however they resemble name and number of another strip, and a file was made at each path. (Two
  paths of one native file, as \<^verbatim>\<open>d/f_0\<close> and \<^verbatim>\<open>d/./f_0\<close>, count as different here.)
\<close>

theorem strips_are_separate:
  assumes "fs_reachable a s" "fs_files s n = Some f" "fs_files s n' = Some f'"
    and "stripPaths f i = Some p" "stripPaths f' i' = Some p'"
  shows "disk s p \<noteq> None \<and> (p = p' \<longleftrightarrow> n = n' \<and> i = i')"
proof -
  have inv: "fs_inv s" using assms(1) by (rule fs_reachable_inv)
  then have "disk s p \<noteq> None" using assms(2,4) unfolding fs_inv_def by blast
  moreover have "n = n' \<and> i = i'" if "p = p'"
    using strip_path_inj [OF inv assms(2,3)] assms(4,5) that by blast
  moreover have "p = p'" if "n = n' \<and> i = i'" using that assms(2-5) by simp
  ultimately show ?thesis by blast
qed

theorem strips_are_separate_witness:
  "disk demo_fs2 ''pfs_s/f_0'' \<noteq> None \<and> ''pfs_s/f_0'' \<noteq> ''pfs_s/f_0_0'' \<and> fs_reachable ''s'' demo_fs2"
  using strips_are_separate [OF demo_fs2_reachable, of "''f''" demo_file "''f_0''" _ 0 "''pfs_s/f_0''" 0 "''pfs_s/f_0_0''"]
    demo_fs2_reachable
  by (simp add: demo_fs2_def demo_fs_def demo_file_def)

section \<open>Where a byte is\<close>

text \<open>
  C32. The server's 32-bit arithmetic with its subtraction of skipped strips computes the usual
  striping: byte \<open>a\<close> of a file of width \<open>W\<close> is in strip \<open>(a div 1024) mod W\<close>, at position
  \<open>(a div 1024) div W * 1024 + a mod 1024\<close> of that strip's file.
\<close>

theorem byte_location:
  assumes "addr \<le> INT_MAX" "stripWidth f \<noteq> 0" "stripWidth f \<le> INT_MAX"
  shows "stripOf addr f = Inr (int (unat addr div 1024 mod unat (stripWidth f))) \<and>
    seekOf addr f = unat addr div 1024 div unat (stripWidth f) * 1024 + unat addr mod 1024"
  using stripOf_eq [of addr f] seekOf_eq [of addr f] assms by blast

theorem byte_location_witness:
  "stripOf 5120 demo_file = Inr 1 \<and> seekOf 5125 demo_file = 2053"
  using byte_location [of 5120 demo_file] byte_location [of 5125 demo_file]
  by (simp add: demo_file_def new_FSFile_def INT_MAX_def)

section \<open>Block handlers\<close>

lemma demo_good_write:
  assumes "length bs = 1024" "length ds = 1024"
  shows "good_write \<lparr>wb_name = ''f'', wb_addr = 2048, wb_data = bs, wb_dirty = ds\<rparr> (demo_fs [])"
  using assms fs_reachable_inv [OF demo_fs_reachable]
  by (simp add: good_write_def serves_def stripAt_def block_addr_def demo_fs_def demo_file_def
      new_FSFile_def INT_MAX_def)

text \<open>
  C11. \<^verbatim>\<open>WriteBlock\<close> implements an abstract update: for a block-aligned address of a strip the
  server holds it answers \<^verbatim>\<open>OK\<close>, and afterwards exactly the bytes marked dirty have their new
  value and every other byte of every file has its old one.
\<close>

theorem WriteBlock_refines:
  assumes "good_write r s"
  shows "\<exists>s'. WriteBlock r s = Inr (Status_OK, s') \<and> fs_inv s' \<and> fs_files s' = fs_files s \<and>
    (\<forall>n a. fs_byte s' n a =
      (if n = wb_name r \<and> a div 1024 = unat (wb_addr r) div 1024 \<and> dirtyAt (wb_dirty r) (a mod 1024)
       then wb_data r ! (a mod 1024) else fs_byte s n a))"
proof -
  obtain st s' where w: "WriteBlock r s = Inr (st, s')" using assms by (blast elim: good_write_disk)
  note f = WriteBlock_frame [OF assms w]
  have "fs_byte s' n a =
      (if n = wb_name r \<and> a div 1024 = unat (wb_addr r) div 1024 \<and> dirtyAt (wb_dirty r) (a mod 1024)
       then wb_data r ! (a mod 1024) else fs_byte s n a)" for n a
    using WriteBlock_view [OF assms w, of n a] by (simp add: setBytes_def)
  then show ?thesis using w f by blast
qed

theorem WriteBlock_refines_witness:
  "\<exists>s'. WriteBlock \<lparr>wb_name = ''f'', wb_addr = 2048, wb_data = replicate 1024 7,
          wb_dirty = replicate 1024 1\<rparr> (demo_fs []) = Inr (Status_OK, s') \<and> fs_byte s' ''f'' 2050 = 7"
  using WriteBlock_refines [OF demo_good_write, of "replicate 1024 7" "replicate 1024 1"]
  by (auto simp: dirtyAt_def)

text \<open>
  C12. What was written is read back: after a \<^verbatim>\<open>WriteBlock\<close>, a \<^verbatim>\<open>ReadBlock\<close> of the same address
  answers \<^verbatim>\<open>OK\<close> with 1024 bytes, the dirty ones as written, and the other ones as they were
  stored before, whatever uninitialised memory holds.
\<close>

theorem WriteBlock_ReadBlock_roundtrip:
  assumes g: "good_write r s" and w: "WriteBlock r s = Inr (st, s')" and i: "i < 1024"
  shows "\<exists>bytes. ReadBlock junk \<lparr>rb_name = wb_name r, rb_addr = wb_addr r\<rparr> s' = Inr (Status_OK, bytes, s') \<and>
    length bytes = 1024 \<and>
    (dirtyAt (wb_dirty r) i \<longrightarrow> bytes ! i = wb_data r ! i) \<and>
    (\<not> dirtyAt (wb_dirty r) i \<and> fs_has s (wb_name r) (unat (wb_addr r) + i) \<longrightarrow>
       bytes ! i = fs_byte s (wb_name r) (unat (wb_addr r) + i))"
proof -
  let ?n = "wb_name r" and ?a = "unat (wb_addr r)"
  have g': "serves s' ?n ?a" "fs_inv s'" "block_addr (wb_addr r)"
    using WriteBlock_frame(5) [OF g w g] by (simp_all add: good_write_def)
  let ?bytes = "map (\<lambda>i. if fs_has s' ?n (?a + i) then fs_byte s' ?n (?a + i) else junk i) [0..<1024]"
  have rd: "ReadBlock junk \<lparr>rb_name = ?n, rb_addr = wb_addr r\<rparr> s' = Inr (Status_OK, ?bytes, s')"
    by (rule ReadBlock_serves [OF g'])
  have a: "?a mod 1024 = 0" using g'(3) by (simp add: block_addr_def)
  have "(?a + i) div 1024 = ?a div 1024" "(?a + i) mod 1024 = i" using a i by auto
  then have sb: "setBytes r (?n, ?a + i) = (if dirtyAt (wb_dirty r) i then Some (wb_data r ! i) else None)"
    by (simp add: setBytes_def)
  have "?bytes ! i = (if fs_has s' ?n (?a + i) then fs_byte s' ?n (?a + i) else junk i)" using i by simp
  then have "(dirtyAt (wb_dirty r) i \<longrightarrow> ?bytes ! i = wb_data r ! i) \<and>
    (\<not> dirtyAt (wb_dirty r) i \<and> fs_has s ?n (?a + i) \<longrightarrow> ?bytes ! i = fs_byte s ?n (?a + i))"
    using WriteBlock_view [OF g w, of ?n "?a + i"] WriteBlock_present [OF g w, of ?n "?a + i"] sb by simp
  then show ?thesis using rd by (intro exI [of _ ?bytes]) (simp del: upt_conv_Cons)
qed

theorem WriteBlock_ReadBlock_roundtrip_witness:
  "\<exists>s' bytes. WriteBlock \<lparr>wb_name = ''f'', wb_addr = 2048, wb_data = replicate 1024 7,
      wb_dirty = replicate 1024 1\<rparr> (demo_fs []) = Inr (Status_OK, s') \<and>
    ReadBlock (\<lambda>_. 99) \<lparr>rb_name = ''f'', rb_addr = 2048\<rparr> s' = Inr (Status_OK, bytes, s') \<and> bytes ! 5 = 7"
proof -
  let ?r = "\<lparr>wb_name = ''f'', wb_addr = 2048, wb_data = replicate 1024 7, wb_dirty = replicate 1024 1\<rparr>"
  have g: "good_write ?r (demo_fs [])" by (rule demo_good_write) simp_all
  then obtain s' where w: "WriteBlock ?r (demo_fs []) = Inr (Status_OK, s')"
    using WriteBlock_frame(1) by (metis (no_types, lifting) good_write_disk)
  have "dirtyAt (wb_dirty ?r) 5" by (simp add: dirtyAt_def)
  then show ?thesis using WriteBlock_ReadBlock_roundtrip [OF g w, of 5 "\<lambda>_. 99"] w by auto
qed

text \<open>
  C33. In a sequence of block writes the last write of a byte wins: when every request is for a
  strip the server holds, all of them succeed and the byte has the value of the last request that
  marks it dirty.
\<close>

theorem last_write_wins:
  assumes "\<forall>b\<in>set (bs @ r # cs). good_write b s" "setBytes r (n, a) = Some v"
    and "\<forall>c\<in>set cs. setBytes c (n, a) = None"
  shows "\<exists>s'. runAll putBlock (bs @ r # cs) s = Inr s' \<and> fs_byte s' n a = v"
  using server.last_write_read [OF assms] by simp

theorem last_write_wins_witness:
  "\<exists>s'. runAll putBlock
     [\<lparr>wb_name = ''f'', wb_addr = 2048, wb_data = replicate 1024 7, wb_dirty = replicate 1024 1\<rparr>,
      \<lparr>wb_name = ''f'', wb_addr = 2048, wb_data = replicate 1024 8, wb_dirty = replicate 1024 0\<rparr>] (demo_fs []) = Inr s' \<and>
     fs_byte s' ''f'' 2050 = 7"
  using last_write_wins [of "[]"
      "\<lparr>wb_name = ''f'', wb_addr = 2048, wb_data = replicate 1024 7, wb_dirty = replicate 1024 1\<rparr>"
      "[\<lparr>wb_name = ''f'', wb_addr = 2048, wb_data = replicate 1024 8, wb_dirty = replicate 1024 0\<rparr>]"
      "demo_fs []" "''f''" 2050 7]
    demo_good_write by (simp add: setBytes_def dirtyAt_def)

text \<open>
  An address that is not a multiple of the block size would touch two strips: both block
  handlers refuse it and leave the server as it was.
\<close>

theorem unaligned_refused:
  assumes "serves s n (unat addr)" "fs_inv s" "unat addr + 1024 \<le> 2147483647" "unat addr mod 1024 \<noteq> 0"
  shows "ReadBlock junk \<lparr>rb_name = n, rb_addr = addr\<rparr> s = Inr (Status_CANCELLED, [], s) \<and>
    WriteBlock \<lparr>wb_name = n, wb_addr = addr, wb_data = bs, wb_dirty = ds\<rparr> s = Inr (Status_CANCELLED, s)"
proof -
  obtain f p c where l: "fs_files s n = Some f" "stripOf addr f = Inr (stripAt (unat addr) f)"
    "getStripPath (stripAt (unat addr) f) f = p" "p \<noteq> []" "\<not> lockHeld s"
    using assms(1-3) by (rule serves_locate)
  have "sint addr = int (unat addr)" using assms(3) by (intro sint_unat) (simp add: INT_MAX_unat)
  moreover have "unat addr div 1024 * 1024 < unat addr"
    using assms(4) div_mult_mod_eq [of "unat addr" 1024] by linarith
  then have "int (unat addr div 1024 * 1024 + 1024) < int (unat addr) + 1024" by linarith
  ultimately show ?thesis
    using l maxSizeOf_eq [OF assms(3)] by (simp add: ReadBlock_def WriteBlock_def)
qed

theorem unaligned_refused_witness:
  "WriteBlock \<lparr>wb_name = ''f'', wb_addr = 2049, wb_data = [], wb_dirty = []\<rparr> (demo_fs []) =
     Inr (Status_CANCELLED, demo_fs [])"
  using unaligned_refused [of "demo_fs []" "''f''" 2049] fs_reachable_inv [OF demo_fs_reachable]
  by (simp add: serves_def stripAt_def demo_fs_def demo_file_def new_FSFile_def INT_MAX_def)

section \<open>Requests the server answers wrongly\<close>

text \<open>A request of any kind, as a client or the metadata manager can send it.\<close>

datatype FSRequest =
  ReqCreate CreateStripeRequest
| ReqReadBlock ReadBlockRequest
| ReqWriteBlock WriteBlockRequest
| ReqReadFile ReadFileRequest
| ReqWriteFile WriteFileRequest

fun serve :: "(nat \<Rightarrow> uint8) \<Rightarrow> FSRequest \<Rightarrow> FileServer \<Rightarrow> FileServer result" where
  "serve junk (ReqCreate r) s = bindR (FS_CreateFile r s) (\<lambda>(st, s'). Inr s')"
| "serve junk (ReqReadBlock r) s = bindR (ReadBlock junk r s) (\<lambda>(st, bytes, s'). Inr s')"
| "serve junk (ReqWriteBlock r) s = bindR (WriteBlock r s) (\<lambda>(st, s'). Inr s')"
| "serve junk (ReqReadFile r) s = bindR (ReadFile junk r s) (\<lambda>(st, bytes, s'). Inr s')"
| "serve junk (ReqWriteFile r) s = bindR (WriteFile r s) (\<lambda>(st, s'). Inr s')"

text \<open>The name a handler looks up and requires to be known; creating requires nothing.\<close>

fun looksUp :: "FSRequest \<Rightarrow> string option" where
  "looksUp (ReqCreate r) = None"
| "looksUp (ReqReadBlock r) = Some (rb_name r)"
| "looksUp (ReqWriteBlock r) = Some (wb_name r)"
| "looksUp (ReqReadFile r) = Some (rf_name r)"
| "looksUp (ReqWriteFile r) = Some (wf_name r)"

lemma serve_locked: "lockHeld s \<Longrightarrow> serve junk r s = Inl Blocked"
  by (cases r) (simp_all add: FS_CreateFile_def ReadBlock_def WriteBlock_def ReadFile_def WriteFile_def)

lemma serve_unknown:
  assumes "looksUp r = Some n" "fs_files s n = None" "\<not> lockHeld s"
  shows "serve junk r s = Inr (s\<lparr>lockHeld := True\<rparr>)"
  using assms by (cases r) (auto simp: ReadBlock_def WriteBlock_def ReadFile_def WriteFile_def)

lemma serve_releases:
  assumes "serve junk r s = Inr s'" "\<forall>n. looksUp r = Some n \<longrightarrow> fs_files s n \<noteq> None"
  shows "\<not> lockHeld s'"
  using assms
  by (cases r) (auto simp: FS_CreateFile_def addStrip_def ReadBlock_def WriteBlock_def ReadFile_def WriteFile_def Let_def
      split: if_splits option.splits)

text \<open>
  C37. A request that is served leaves the server's mutex held exactly when its handler looks up
  a name the server does not know, which all handlers but \<^verbatim>\<open>CreateFile\<close> do. From then on every
  request of any kind, in every sequence of them, waits for ever.
\<close>

theorem unknown_name_blocks_server:
  assumes "serve junk r s = Inr s'"
  shows "(lockHeld s' \<longleftrightarrow> (\<exists>n. looksUp r = Some n \<and> fs_files s n = None)) \<and>
    (lockHeld s' \<longrightarrow> (\<forall>q qs. runAll (serve junk') (q # qs) s' = Inl Blocked))"
proof -
  have "\<not> lockHeld s" using assms serve_locked [of s junk r] by auto
  then have "lockHeld s'" if "looksUp r = Some n" "fs_files s n = None" for n
    using assms serve_unknown [OF that] by auto
  moreover have "\<exists>n. looksUp r = Some n \<and> fs_files s n = None" if "lockHeld s'"
    using serve_releases [OF assms] that by metis
  moreover have "runAll (serve junk') (q # qs) s' = Inl Blocked" if "lockHeld s'" for q qs
    using serve_locked [OF that] by simp
  ultimately show ?thesis by blast
qed

theorem unknown_name_blocks_server_witness:
  "\<exists>s'. serve (\<lambda>_. 0) (ReqWriteFile \<lparr>wf_name = ''nosuch'', wf_start = 0, wf_data = []\<rparr>) (demo_fs []) = Inr s' \<and>
    runAll (serve (\<lambda>_. 0)) [ReqReadBlock \<lparr>rb_name = ''f'', rb_addr = 0\<rparr>] s' = Inl Blocked"
proof -
  let ?r = "ReqWriteFile \<lparr>wf_name = ''nosuch'', wf_start = 0, wf_data = []\<rparr>"
  have n: "looksUp ?r = Some ''nosuch''" "fs_files (demo_fs []) ''nosuch'' = None" by (simp, simp add: demo_fs_def)
  have s: "serve (\<lambda>_. 0) ?r (demo_fs []) = Inr ((demo_fs [])\<lparr>lockHeld := True\<rparr>)"
    by (rule serve_unknown [OF n]) (simp add: demo_fs_def)
  have "runAll (serve (\<lambda>_. 0)) [ReqReadBlock \<lparr>rb_name = ''f'', rb_addr = 0\<rparr>] ((demo_fs [])\<lparr>lockHeld := True\<rparr>) = Inl Blocked"
    using unknown_name_blocks_server [OF s, of "\<lambda>_. 0"] n by blast
  then show ?thesis using s by blast
qed

text \<open>
  C38. \<^verbatim>\<open>ReadBlock\<close> does not look at the number of bytes \<^verbatim>\<open>fread\<close> delivered: for a block of any
  strip the server holds it answers \<^verbatim>\<open>OK\<close> with 1024 bytes, and every byte that lies behind the end
  of the native file is what the server's uninitialised buffer happens to hold.
\<close>

theorem short_read_leaks_memory:
  assumes "fs_reachable a s" "serves s n (unat addr)" "block_addr addr"
  shows "\<exists>bytes. ReadBlock junk \<lparr>rb_name = n, rb_addr = addr\<rparr> s = Inr (Status_OK, bytes, s) \<and> length bytes = 1024 \<and>
    (\<forall>i<1024. bytes ! i = (if fs_has s n (unat addr + i) then fs_byte s n (unat addr + i) else junk i))"
  using ReadBlock_serves [OF assms(2) fs_reachable_inv [OF assms(1)] assms(3), of junk] by simp

theorem short_read_leaks_memory_witness:
  "\<exists>bytes. ReadBlock (\<lambda>_. 99) \<lparr>rb_name = ''f'', rb_addr = 4096\<rparr> (demo_fs []) = Inr (Status_OK, bytes, demo_fs []) \<and> bytes ! 5 = 99"
proof -
  have "serves (demo_fs []) ''f'' (unat (4096::uint32))" "block_addr 4096"
    by (simp_all add: serves_def stripAt_def block_addr_def demo_fs_def demo_file_def new_FSFile_def INT_MAX_def)
  from short_read_leaks_memory [OF demo_fs_reachable this, of "\<lambda>_. 99"] obtain bytes where
    b: "ReadBlock (\<lambda>_. 99) \<lparr>rb_name = ''f'', rb_addr = 4096\<rparr> (demo_fs []) = Inr (Status_OK, bytes, demo_fs [])"
    "\<forall>i<1024. bytes ! i = (if fs_has (demo_fs []) ''f'' (unat (4096::uint32) + i) then fs_byte (demo_fs []) ''f'' (unat (4096::uint32) + i) else 99)"
    by blast
  have "\<not> fs_has (demo_fs []) ''f'' x" for x
    by (simp add: fs_has_def fs_content_def demo_fs_def split: option.splits)
  then show ?thesis using b(1) b(2) [rule_format, of 5] by auto
qed

end
