(* ===== verification/System.thy ===== *)
theory System
  imports Client_Calls Metadata_Manager FS_Properties
begin

text \<open>
  The processes of the file system put together: one metadata manager, five file servers and any
  number of clients. A remote call runs the handler of the process that serves it, on that
  process's part of the state. The stubs a client holds (\<^verbatim>\<open>stub_\<close> and \<^verbatim>\<open>fileServerStubs\<close>), the
  file server stubs of the manager and its \<^verbatim>\<open>clientStubs\<close> are such calls. The interpretation at the
  end discharges the laws of the data servers for the real handlers.
\<close>

section \<open>The processes and their calls\<close>

record World =
  wmm :: MetadataManager
  wfs :: "nat \<Rightarrow> FileServer"
  wclients :: "string \<Rightarrow> PFSClient option"

text \<open>\<open>junk\<close> is what a file server's uninitialised read buffer holds.\<close>

definition callRead ::
  "(nat \<Rightarrow> uint8) \<Rightarrow> nat \<Rightarrow> ReadBlockRequest \<Rightarrow> World \<Rightarrow> (Status \<times> uint8 list \<times> World) result" where
  "callRead junk i r w = bindR (ReadBlock junk r (wfs w i)) (\<lambda>(st, bytes, s).
     Inr (st, bytes, w\<lparr>wfs := (wfs w)(i := s)\<rparr>))"

definition callWrite :: "nat \<Rightarrow> WriteBlockRequest \<Rightarrow> World \<Rightarrow> (Status \<times> World) result" where
  "callWrite i r w = bindR (WriteBlock r (wfs w i)) (\<lambda>(st, s). Inr (st, w\<lparr>wfs := (wfs w)(i := s)\<rparr>))"

definition callCreate :: "nat \<Rightarrow> CreateStripeRequest \<Rightarrow> World \<Rightarrow> (Status \<times> World) result" where
  "callCreate i r w = bindR (FS_CreateFile r (wfs w i)) (\<lambda>(st, s). Inr (st, w\<lparr>wfs := (wfs w)(i := s)\<rparr>))"

text \<open>The calls a client makes while it serves a revocation: only those to the file servers.\<close>

definition dataStubs :: "(nat \<Rightarrow> uint8) \<Rightarrow> World Stubs" where
  "dataStubs junk =
    \<lparr>rpc_ClientStart = (\<lambda>_ _. Inl Blocked), rpc_CreateFile = (\<lambda>_ _. Inl Blocked),
     rpc_OpenFile = (\<lambda>_ _. Inl Blocked), rpc_GetPermission = (\<lambda>_ _. Inl Blocked),
     rpc_CloseFile = (\<lambda>_ _. Inl Blocked), rpc_DeleteFile = (\<lambda>_ _. Inl Blocked),
     rpc_GetFileDesc = (\<lambda>_ _. Inl Blocked), rpc_ReadBlock = callRead junk, rpc_WriteBlock = callWrite\<rparr>"

text \<open>A call to an address where no client listens fails; the manager does not look at the status.\<close>

definition callRevoke ::
  "(nat \<Rightarrow> uint8) \<Rightarrow> string \<Rightarrow> RevokePermissionRequest \<Rightarrow> World \<Rightarrow> World result" where
  "callRevoke junk ip r w =
    (case wclients w ip of
       None \<Rightarrow> Inr w
     | Some cl \<Rightarrow> bindR (RevokePermission (dataStubs junk) r cl w) (\<lambda>(st, cl', w').
         Inr (w'\<lparr>wclients := (wclients w')(ip \<mapsto> cl')\<rparr>)))"

definition stubsOf :: "(nat \<Rightarrow> uint8) \<Rightarrow> int \<Rightarrow> string \<Rightarrow> World Stubs" where
  "stubsOf junk now me =
    \<lparr>rpc_ClientStart = (\<lambda>ip w. case ClientStart me ip (wmm w) of (st, m) \<Rightarrow> Inr (st, w\<lparr>wmm := m\<rparr>)),
     rpc_CreateFile = (\<lambda>r w. bindR (CreateFile callCreate now now r (wmm w) w) (\<lambda>(st, err, m, w').
       Inr (st, w'\<lparr>wmm := m\<rparr>))),
     rpc_OpenFile = (\<lambda>name w. case OpenFile me name (wmm w) of (st, reply, m) \<Rightarrow> Inr (st, reply, w\<lparr>wmm := m\<rparr>)),
     rpc_GetPermission = (\<lambda>r w. bindR (GetPermission (callRevoke junk) me r (wmm w) w) (\<lambda>(st, reply, m, w').
       Inr (st, reply, w'\<lparr>wmm := m\<rparr>))),
     rpc_CloseFile = (\<lambda>r w. case CloseFile me now r (wmm w) of (st, m) \<Rightarrow> Inr (st, w\<lparr>wmm := m\<rparr>)),
     rpc_DeleteFile = (\<lambda>name w. case DeleteFile name (wmm w) of (st, err, m) \<Rightarrow> Inr (st, w\<lparr>wmm := m\<rparr>)),
     rpc_GetFileDesc = (\<lambda>name w. case GetFileDesc name (wmm w) of (st, reply) \<Rightarrow> Inr (st, reply, w)),
     rpc_ReadBlock = callRead junk, rpc_WriteBlock = callWrite\<rparr>"

section \<open>Where the bytes of a file are\<close>

definition serverOf :: "uint32 \<Rightarrow> nat \<Rightarrow> nat" where
  "serverOf W x = x div 1024 mod unat W mod 5"

definition placed :: "World \<Rightarrow> string \<Rightarrow> uint32 \<Rightarrow> bool" where
  "placed w n W \<longleftrightarrow> W \<noteq> 0 \<and> W \<le> INT_MAX \<and> (\<forall>i<5. fs_inv (wfs w i)) \<and>
     (\<forall>x<LIMIT. serves (wfs w (serverOf W x)) n x \<and>
        map_option stripWidth (fs_files (wfs w (serverOf W x)) n) = Some W)"

definition stored :: "World \<Rightarrow> string \<Rightarrow> uint32 \<Rightarrow> nat \<Rightarrow> uint8 option" where
  "stored w n W x =
    (if fs_has (wfs w (serverOf W x)) n x then Some (fs_byte (wfs w (serverOf W x)) n x) else None)"

text \<open>What no data call changes.\<close>

definition rest :: "World \<Rightarrow> MetadataManager \<times> (string \<Rightarrow> PFSClient option) \<times> (string \<Rightarrow> uint32 \<Rightarrow> bool)" where
  "rest w = (wmm w, wclients w, placed w)"

lemma serverOf_less [simp]: "serverOf W x < 5"
  by (simp add: serverOf_def)

lemma blk_eq_iff: "x < LIMIT \<Longrightarrow> y < LIMIT \<Longrightarrow> blk x = blk y \<longleftrightarrow> x div 1024 = y div 1024"
proof
  assume "x < LIMIT" "y < LIMIT" "blk x = blk y"
  then have "x div 1024 * 1024 = y div 1024 * 1024" by (metis unat_blk)
  then show "x div 1024 = y div 1024" by simp
qed (simp add: blk_def)

lemma unat_blk_div: "x < LIMIT \<Longrightarrow> unat (blk x) div 1024 = x div 1024"
  by (simp add: unat_blk)

lemma serves_blk: "x < LIMIT \<Longrightarrow> serves s n (unat (blk x)) = serves s n x"
proof -
  assume "x < LIMIT"
  then have "stripAt (unat (blk x)) f = stripAt x f" for f by (simp add: stripAt_def unat_blk_div)
  then show ?thesis by (simp add: serves_def split: option.split)
qed

lemma callRead_ok:
  assumes "placed w n W" "x < LIMIT"
  shows "\<exists>bytes w'. callRead junk (x div 1024 mod unat W mod 5) \<lparr>rb_name = n, rb_addr = blk x\<rparr> w =
      Inr (Status_OK, bytes, w') \<and> length bytes = 1024 \<and> placed w' = placed w \<and> stored w' = stored w \<and> rest w' = rest w \<and>
    (\<forall>i<1024. \<forall>b. stored w n W (unat (blk x) + i) = Some b \<longrightarrow> bytes ! i = b)"
proof -
  let ?i = "serverOf W x" and ?a = "unat (blk x)"
  let ?s = "wfs w ?i"
  let ?bytes = "map (\<lambda>i. if fs_has ?s n (?a + i) then fs_byte ?s n (?a + i) else junk i) [0..<1024]"
  have "serves ?s n ?a" "fs_inv ?s" using assms by (simp_all add: placed_def serves_blk)
  from ReadBlock_serves [OF this blk_block [OF assms(2)]]
  have "callRead junk ?i \<lparr>rb_name = n, rb_addr = blk x\<rparr> w = Inr (Status_OK, ?bytes, w)"
    by (simp add: callRead_def)
  moreover have "serverOf W (?a + i) = ?i" if "i < 1024" for i
    using that unat_blk [OF assms(2)] by (simp add: serverOf_def)
  then have "?bytes ! i = b" if "i < 1024" "stored w n W (?a + i) = Some b" for i b
    using that by (auto simp: stored_def simp del: upt_conv_Cons split: if_splits)
  ultimately show ?thesis unfolding serverOf_def [symmetric] by (auto simp del: upt_conv_Cons)
qed

lemma callWrite_ok:
  assumes p: "placed w n W" and x: "x < LIMIT" and len: "length bytes = 1024" "length ds = 1024"
  shows "\<exists>w'. callWrite (x div 1024 mod unat W mod 5)
      \<lparr>wb_name = n, wb_addr = blk x, wb_data = bytes, wb_dirty = map (\<lambda>d. if d then 1 else 0) ds\<rparr> w =
      Inr (Status_OK, w') \<and> placed w' = placed w \<and> rest w' = rest w \<and>
    (\<forall>y<LIMIT. blk y = blk x \<longrightarrow> ds ! (y mod 1024) \<longrightarrow> stored w' n W y = Some (bytes ! (y mod 1024))) \<and>
    (\<forall>n' W' y b. stored w n' W' y = Some b \<longrightarrow>
      n' \<noteq> n \<or> W' = W \<and> y < LIMIT \<and> (blk y \<noteq> blk x \<or> \<not> ds ! (y mod 1024)) \<longrightarrow>
      stored w' n' W' y = Some b)"
proof -
  let ?i = "serverOf W x" and ?dirty = "map (\<lambda>d. if d then 1 else 0) ds :: uint8 list"
  define r where "r = \<lparr>wb_name = n, wb_addr = blk x, wb_data = bytes, wb_dirty = ?dirty\<rparr>"
  have g: "good_write r (wfs w ?i)"
    using p x len blk_block [OF x] by (simp add: good_write_def r_def placed_def serves_blk)
  then obtain st s' where s': "WriteBlock r (wfs w ?i) = Inr (st, s')" by (blast elim: good_write_disk)
  note fr = WriteBlock_frame [OF g s'] and view = WriteBlock_view [OF g s'] and pres = WriteBlock_present [OF g s']
  let ?w = "w\<lparr>wfs := (wfs w)(?i := s')\<rparr>"
  have dirty: "dirtyAt ?dirty (y mod 1024) = ds ! (y mod 1024)" for y using len(2) by (simp add: dirtyAt_def)
  have sb: "setBytes r (n', y) = (if n' = n \<and> blk y = blk x \<and> ds ! (y mod 1024) then Some (bytes ! (y mod 1024)) else None)"
    if "y < LIMIT" for n' y
    using that x by (simp add: setBytes_def r_def unat_blk_div blk_eq_iff dirty)
  have "callWrite ?i r w = Inr (Status_OK, ?w)" using s' fr(1) by (simp add: callWrite_def)
  moreover have "placed ?w = placed w"
  proof (intro ext)
    fix m V
    have "serves (wfs ?w j) k a = serves (wfs w j) k a" "fs_files (wfs ?w j) = fs_files (wfs w j)"
      "fs_inv (wfs ?w j) = fs_inv (wfs w j)" for j k a
      using fr(2,4,6) g by (auto simp: good_write_def)
    then show "placed ?w m V = placed w m V" by (simp add: placed_def)
  qed
  moreover from this have "rest ?w = rest w" by (simp add: rest_def)
  moreover have "stored ?w n W y = Some (bytes ! (y mod 1024))" if "y < LIMIT" "blk y = blk x" "ds ! (y mod 1024)" for y
  proof -
    have "serverOf W y = ?i" using that(1,2) x by (simp add: serverOf_def blk_eq_iff)
    then show ?thesis using view [of n y] pres(1) [of n y] sb [OF that(1), of n] that(2,3) by (simp add: stored_def)
  qed
  moreover have "stored ?w m V y = Some b"
    if o: "stored w m V y = Some b" "m \<noteq> n \<or> V = W \<and> y < LIMIT \<and> (blk y \<noteq> blk x \<or> \<not> ds ! (y mod 1024))" for m V y b
  proof -
    have "setBytes r (m, y) = None" using o(2) sb [of y m] by (auto simp: setBytes_def r_def)
    then show ?thesis using o(1) view [of m y] pres(2) [of m y] by (auto simp: stored_def split: if_splits)
  qed
  ultimately show ?thesis unfolding serverOf_def [symmetric] r_def by blast
qed

interpretation wired: data_servers "stubsOf junk now me" placed stored rest for junk now me
proof unfold_locales
  show "placed w n W \<Longrightarrow> W \<noteq> 0" for w n W by (simp add: placed_def)
qed (use callRead_ok callWrite_ok in \<open>simp_all add: stubsOf_def\<close>)

interpretation revoked: data_servers "dataStubs junk" placed stored rest for junk
proof unfold_locales
  show "placed w n W \<Longrightarrow> W \<noteq> 0" for w n W by (simp add: placed_def)
qed (use callRead_ok callWrite_ok in \<open>simp_all add: dataStubs_def\<close>)

section \<open>The data is in the file servers' part of the state\<close>

lemma placed_cong: "wfs w' = wfs w \<Longrightarrow> placed w' = placed w"
  by (intro ext) (simp add: placed_def)

lemma stored_cong: "wfs w' = wfs w \<Longrightarrow> stored w' = stored w"
  by (intro ext) (simp add: stored_def)

lemma client_ok_cong:
  "wfs w' = wfs w \<Longrightarrow> client_ok placed stored k cl w' v \<longleftrightarrow> client_ok placed stored k cl w v"
  using placed_cong [of w' w] stored_cong [of w' w] by (simp add: client_ok_def coherent_def files_ok_def)

section \<open>Calls of a client process\<close>

text \<open>
  The process that listens at \<open>ip\<close> and that the manager knows as peer \<open>me\<close> runs a call of the
  library: it starts from its own state and leaves its new one.
\<close>

definition asClient ::
  "string \<Rightarrow> (PFSClient \<Rightarrow> World \<Rightarrow> ('r \<times> PFSClient \<times> World) result) \<Rightarrow> World \<Rightarrow> ('r \<times> World) result" where
  "asClient ip call w =
    (case wclients w ip of
       None \<Rightarrow> Inl NullDeref
     | Some cl \<Rightarrow> bindR (call cl w) (\<lambda>(r, cl', w'). Inr (r, w'\<lparr>wclients := (wclients w')(ip \<mapsto> cl')\<rparr>)))"

definition sysInitialize :: "(nat \<Rightarrow> uint8) \<Rightarrow> int \<Rightarrow> string \<Rightarrow> string \<Rightarrow> World \<Rightarrow> (unit \<times> World) result" where
  "sysInitialize junk now me no = asClient (''0.0.0.0:400'' @ no) (\<lambda>cl w.
     bindR (initialize (stubsOf junk now me) no cl w) (\<lambda>(cl', w'). Inr ((), cl', w')))"

definition sysCreate ::
  "(nat \<Rightarrow> uint8) \<Rightarrow> int \<Rightarrow> string \<Rightarrow> string \<Rightarrow> string \<Rightarrow> int \<Rightarrow> World \<Rightarrow> (int \<times> World) result" where
  "sysCreate junk now me ip name width = asClient ip (\<lambda>cl w.
     bindR (pfs_create (stubsOf junk now me) name width cl w) (\<lambda>(r, w'). Inr (r, cl, w')))"

definition sysOpen ::
  "(nat \<Rightarrow> uint8) \<Rightarrow> int \<Rightarrow> string \<Rightarrow> string \<Rightarrow> string \<Rightarrow> World \<Rightarrow> (int \<times> World) result" where
  "sysOpen junk now me ip name = asClient ip (pfs_open (stubsOf junk now me) name)"

definition sysRead ::
  "(nat \<Rightarrow> uint8) \<Rightarrow> int \<Rightarrow> string \<Rightarrow> string \<Rightarrow> int \<Rightarrow> int \<Rightarrow> int \<Rightarrow> World \<Rightarrow> ((int \<times> uint8 list \<times> bool) \<times> World) result" where
  "sysRead junk now me ip d n x = asClient ip (\<lambda>cl w.
     bindR (pfs_read (stubsOf junk now me) d n x cl w) (\<lambda>(r, bytes, hit, cl', w'). Inr ((r, bytes, hit), cl', w')))"

definition sysWrite ::
  "(nat \<Rightarrow> uint8) \<Rightarrow> int \<Rightarrow> string \<Rightarrow> string \<Rightarrow> int \<Rightarrow> uint8 list \<Rightarrow> int \<Rightarrow> int \<Rightarrow> World \<Rightarrow> ((int \<times> bool) \<times> World) result" where
  "sysWrite junk now me ip d buf n x = asClient ip (\<lambda>cl w.
     bindR (pfs_write (stubsOf junk now me) d buf n x cl w) (\<lambda>(r, hit, cl', w'). Inr ((r, hit), cl', w')))"

definition sysClose ::
  "(nat \<Rightarrow> uint8) \<Rightarrow> int \<Rightarrow> string \<Rightarrow> string \<Rightarrow> int \<Rightarrow> World \<Rightarrow> (int \<times> World) result" where
  "sysClose junk now me ip d = asClient ip (pfs_close (stubsOf junk now me) d)"

definition sysDelete ::
  "(nat \<Rightarrow> uint8) \<Rightarrow> int \<Rightarrow> string \<Rightarrow> string \<Rightarrow> string \<Rightarrow> World \<Rightarrow> (int \<times> World) result" where
  "sysDelete junk now me ip name = asClient ip (\<lambda>cl w.
     bindR (pfs_delete (stubsOf junk now me) name cl w) (\<lambda>(r, w'). Inr (r, cl, w')))"

definition sysStat ::
  "(nat \<Rightarrow> uint8) \<Rightarrow> int \<Rightarrow> string \<Rightarrow> string \<Rightarrow> int \<Rightarrow> World \<Rightarrow> ((int \<times> (int \<times> int \<times> uint64) option) \<times> World) result" where
  "sysStat junk now me ip d = asClient ip (\<lambda>cl w.
     bindR (pfs_fstat (stubsOf junk now me) d cl w) (\<lambda>(r, st, w'). Inr ((r, st), cl, w')))"

definition sysFinalize ::
  "(nat \<Rightarrow> uint8) \<Rightarrow> int \<Rightarrow> string \<Rightarrow> string \<Rightarrow> World \<Rightarrow> (unit \<times> World) result" where
  "sysFinalize junk now me ip = asClient ip (\<lambda>cl w.
     bindR (finalize (stubsOf junk now me) cl w) (\<lambda>w'. Inr ((), cl, w')))"

section \<open>Starting the processes\<close>

text \<open>
  The mains of the servers: the address a server listens at and the service behind it. A file
  server started without its number returns -1, here \<open>None\<close>.
\<close>

definition pfs_MM_main :: "string \<times> MetadataManager" where
  "pfs_MM_main = (''0.0.0.0:50051'', new_MetadataManager)"

definition pfs_file_server_main :: "string list \<Rightarrow> (string \<times> FileServer) option" where
  "pfs_file_server_main argv =
    (if length argv < 2 then None
     else let server_address = ''0.0.0.0:3000'' @ argv ! 1
          in Some (server_address, new_FileServer server_address))"

text \<open>The address \<^verbatim>\<open>PFSClient::initialize\<close> gives the stub of server \<open>i\<close>.\<close>

definition stubAddress :: "nat \<Rightarrow> string" where
  "stubAddress i = ''0.0.0.0:3000'' @ [char_of (48 + i)]"

text \<open>
  The system right after all processes are started: one file server with each of the numbers
  0 to 4 and a client at each address of \<open>ips\<close>.
\<close>

definition boot :: "string set \<Rightarrow> (nat \<Rightarrow> CacheBlock) \<Rightarrow> World" where
  "boot ips mem = \<lparr>wmm = snd pfs_MM_main,
     wfs = (\<lambda>i. snd (the (pfs_file_server_main [''pfs_file_server'', to_string i]))),
     wclients = (\<lambda>ip. if ip \<in> ips then Some (new_PFSClient mem) else None)\<rparr>"

lemma boot_wfs: "wfs (boot ips mem) i = new_FileServer (''0.0.0.0:3000'' @ to_string i)"
  by (simp add: boot_def pfs_file_server_main_def Let_def)

text \<open>Every stub of a client leads to the server with its number.\<close>

lemma stub_reaches_server:
  "i < 5 \<Longrightarrow> map_option fst (pfs_file_server_main [p, to_string i]) = Some (stubAddress i)"
  by (simp add: pfs_file_server_main_def stubAddress_def to_string.simps Let_def)

end
