(* ===== verification/MM_Properties.thy ===== *)
theory MM_Properties
  imports Metadata_Manager
begin

text \<open>
  The properties of the metadata manager: mutual exclusion of writers in every reachable state,
  what \<^verbatim>\<open>GetPermission\<close> grants, whom it revokes, and the branches of the other handlers.
\<close>

section \<open>A run of the manager\<close>

text \<open>
  A file with two stripes, opened by two clients; \<open>a\<close> asks to write bytes 0 to 10, then \<open>b\<close> to
  read bytes 5 to 10. The rest of the system is the trivial state.
\<close>

definition quietCreate :: "nat \<Rightarrow> CreateStripeRequest \<Rightarrow> unit \<Rightarrow> (Status \<times> unit) result" where
  "quietCreate i r w = Inr (Status_OK, w)"

definition quietRevoke :: "string \<Rightarrow> RevokePermissionRequest \<Rightarrow> unit \<Rightarrow> unit result" where
  "quietRevoke ip r w = Inr w"

definition demo_mm :: "(string \<times> Permission list) list \<Rightarrow> MetadataManager" where
  "demo_mm cps = \<lparr>files = [''f'' \<mapsto> (new_MMFile ''f'' 1 1 2)\<lparr>clientPermissions := cps\<rparr>],
                  clientStubs = [''a'' \<mapsto> ''ip1'', ''b'' \<mapsto> ''ip2'']\<rparr>"

lemmas mm_eval =
  GetPermission_def demo_mm_def new_MMFile_def isOpenedBy_def waitAndGetPermissionFor_def
  conflicts_def isShared_def grantedRange_def revokePermission_def revokeOne_def INT_MAX_def
  addPermission_def verase_def vinsert_def addPermission_new_def lock_if_def new_Permission_def
  quietRevoke_def isInclusiveShared_def

lemma demo_writer:
  "GetPermission quietRevoke ''a'' \<lparr>pr_name = ''f'', pr_start = 0, pr_end = 10, pr_isWrite = True\<rparr>
     (demo_mm [(''b'', []), (''a'', [])]) () =
   Inr (Status_OK, \<lparr>pp_error = 0, pp_start = 0, pp_end = INT_MAX\<rparr>,
        demo_mm [(''b'', []), (''a'', [new_Permission 0 INT_MAX True])], ())"
  by (simp add: mm_eval Let_def)

lemma demo_reader:
  "GetPermission quietRevoke ''b'' \<lparr>pr_name = ''f'', pr_start = 5, pr_end = 10, pr_isWrite = False\<rparr>
     (demo_mm [(''b'', []), (''a'', [new_Permission 0 INT_MAX True])]) () =
   Inr (Status_OK, \<lparr>pp_error = 0, pp_start = 5, pp_end = 10\<rparr>,
        demo_mm [(''b'', [new_Permission 5 10 False]),
                 (''a'', [new_Permission 0 5 True, new_Permission 10 INT_MAX True])], ())"
  by (simp add: mm_eval Let_def)

lemma demo_opened: "mm_reachable quietCreate quietRevoke (demo_mm [(''b'', []), (''a'', [])], ())"
proof -
  let ?R = "mm_reachable quietCreate quietRevoke" and ?m = "new_MetadataManager"
  have "?R (?m\<lparr>clientStubs := [''a'' \<mapsto> ''ip1'']\<rparr>, ())"
    by (rule mm_reachable.step [OF mm_reachable.init mm_step.start [of "''a''" "''ip1''"]])
       (simp add: ClientStart_def new_MetadataManager_def)
  then have "?R (?m\<lparr>clientStubs := [''a'' \<mapsto> ''ip1'', ''b'' \<mapsto> ''ip2'']\<rparr>, ())"
    by (rule mm_reachable.step [OF _ mm_step.start [of "''b''" "''ip2''"]])
       (simp add: ClientStart_def new_MetadataManager_def)
  then have "?R (demo_mm [], ())"
    by (rule mm_reachable.step [OF _ mm_step.create [of _ 1 1 "\<lparr>cf_name = ''f'', cf_stripeWidth = 2\<rparr>"]])
       (simp add: CreateFile_def new_MetadataManager_def demo_mm_def quietCreate_def upt_rec Let_def new_MMFile_def)
  then have "?R (demo_mm [(''a'', [])], ())"
    by (rule mm_reachable.step [OF _ mm_step.opens [of "''a''" "''f''"]])
       (simp add: OpenFile_def demo_mm_def MMFile_open_def new_MMFile_def)
  then show ?thesis
    by (rule mm_reachable.step [OF _ mm_step.opens [of "''b''" "''f''"]])
       (simp add: OpenFile_def demo_mm_def MMFile_open_def new_MMFile_def)
qed

lemma demo_reachable:
  "mm_reachable quietCreate quietRevoke
     (demo_mm [(''b'', [new_Permission 5 10 False]),
               (''a'', [new_Permission 0 5 True, new_Permission 10 INT_MAX True])], ())"
  by (rule mm_reachable.step [OF mm_reachable.step [OF demo_opened
        mm_step.permit [OF demo_writer]] mm_step.permit [OF demo_reader]])

section \<open>Mutual exclusion\<close>

text \<open>
  C1. In every state the manager can reach, whatever the clients ask for and in whatever order,
  no byte that one client holds a write token for is covered by any token of another client of
  the same file.
\<close>

theorem write_exclusion:
  assumes "mm_reachable fsCreate sendRevoke (m, w)" "files m n = Some f"
    and "map_of (clientPermissions f) c = Some v" "map_of (clientPermissions f) c' = Some v'"
    and "c \<noteq> c'"
  shows "wbytes v \<inter> rbytes v' = {}"
proof -
  have "exclusive (clientPermissions f)"
    using mm_invD [OF mm_reachable_inv [OF assms(1)], of n f] assms(2) by simp
  then have "compatible (rbytes v) (wbytes v) (rbytes v') (wbytes v')"
    using map_of_SomeD [OF assms(3)] map_of_SomeD [OF assms(4)] assms(5)
    unfolding exclusive_def by blast
  then show ?thesis by (simp add: compatible_def)
qed

theorem write_exclusion_witness:
  "wbytes [new_Permission 0 5 True, new_Permission 10 INT_MAX True] \<inter>
   rbytes [new_Permission 5 10 False] = {}"
  by (rule write_exclusion [OF demo_reachable, of "''f''" _ "''a''" _ "''b''"])
     (simp add: demo_mm_def new_MMFile_def)+

section \<open>GetPermission\<close>


lemma granted_vector:
  assumes "waitAndGetPermissionFor peer start en iswrite f = Inr (permit, f', msgs)"
  obtains v v' where "map_of (clientPermissions f) peer = Some v"
    "addPermission (pstart permit) (pend permit) iswrite v False = Inr v'"
    "map_of (clientPermissions f') peer = Some v'"
    "(pstart permit = start \<and> pend permit = en) \<or> (pstart permit = 0 \<and> pend permit = INT_MAX)"
proof -
  obtain v v' where v: "map_of (clientPermissions f) peer = Some v"
    and p: "permit = (if \<forall>(c, ps)\<in>set (clientPermissions f). c \<noteq> peer \<longrightarrow> ps = []
                      then new_Permission 0 INT_MAX iswrite else new_Permission start en iswrite)"
    and a: "addPermission (pstart permit) (pend permit) iswrite v False = Inr v'"
    and f': "f' = f\<lparr>clientPermissions := map (\<lambda>kv. if fst kv = peer then (peer, v') else kv)
      (map (\<lambda>(c, ps). (c, if c = peer then ps else afterScan start en iswrite ps)) (clientPermissions f))\<rparr>"
    by (rule waitAndGetPermissionFor_result [OF assms])
  have "map_of cps peer = Some v \<Longrightarrow> map_of (map (\<lambda>kv. if fst kv = peer then (peer, v') else kv)
      (map (\<lambda>(c, ps). (c, if c = peer then ps else afterScan start en iswrite ps)) cps)) peer = Some v'" for cps
    by (induction cps) (auto split: if_splits)
  then have "map_of (clientPermissions f') peer = Some v'" using v f' by simp
  then show thesis using that [OF v a] p by auto
qed

text \<open>
  C9. A request for bytes below \<^verbatim>\<open>INT_MAX\<close> that the manager answers with \<^verbatim>\<open>OK\<close> gets a token
  that covers all of it, and the manager's own vector for the client covers all of the token with
  the kind of access that was asked for.
\<close>

theorem GetPermission_grants:
  assumes g: "GetPermission sendRevoke peer request m w = Inr (Status_OK, reply, m', w')"
    and "pr_start request \<le> INT_MAX" "pr_end request \<le> INT_MAX"
    and "files m (pr_name request) = Some f" "map_of (clientPermissions f) peer = Some v" "small_perms v"
  shows "\<exists>f' v'. files m' (pr_name request) = Some f' \<and> map_of (clientPermissions f') peer = Some v' \<and>
    {pr_start request..<pr_end request} \<subseteq> {pp_start reply..<pp_end reply} \<and>
    {pp_start reply..<pp_end reply} \<subseteq> (if pr_isWrite request then wbytes v' else rbytes v')"
  using g
proof (cases rule: GetPermission_OkE)
  case (granted f0 permit f' msgs)
  obtain u v' where u: "map_of (clientPermissions f0) peer = Some u"
    and a: "addPermission (pstart permit) (pend permit) (pr_isWrite request) u False = Inr v'"
    and v': "map_of (clientPermissions f') peer = Some v'"
    and rng: "(pstart permit = pr_start request \<and> pend permit = pr_end request) \<or>
      (pstart permit = 0 \<and> pend permit = INT_MAX)"
    by (rule granted_vector [OF granted(3)])
  have "u = v" using u granted(1) assms(4,5) by simp
  then have "{pstart permit..<pend permit} \<subseteq> (if pr_isWrite request then wbytes v' else rbytes v')"
    using rng assms(2,6) by (intro addPermission_covers [OF a]) (auto simp: small_perms_def)
  moreover have "{pr_start request..<pr_end request} \<subseteq> {pstart permit..<pend permit}"
    using rng assms(3) by auto
  ultimately show ?thesis using v' granted(6,7) by simp
qed simp

theorem GetPermission_grants_witness:
  "\<exists>f' v'. files (demo_mm [(''b'', [new_Permission 5 10 False]),
        (''a'', [new_Permission 0 5 True, new_Permission 10 INT_MAX True])]) ''f'' = Some f' \<and>
    map_of (clientPermissions f') ''b'' = Some v' \<and>
    {5..<10} \<subseteq> {5..<(10::uint32)} \<and> {5..<10} \<subseteq> rbytes v'"
  using GetPermission_grants [OF demo_reader] by (simp add: INT_MAX_def demo_mm_def new_MMFile_def)



text \<open>A client that has the file open is granted something; what remains is to deliver the revocations.\<close>

lemma waitAndGetPermissionFor_returns:
  assumes "isOpenedBy peer f"
  shows "\<exists>permit f' msgs. waitAndGetPermissionFor peer start en iswrite f = Inr (permit, f', msgs)"
proof -
  from assms obtain v where v: "map_of (clientPermissions f) peer = Some v"
    by (auto simp: isOpenedBy_def split: if_splits)
  obtain cps threads fp where sc: "scanClients peer start en iswrite (clientPermissions f) = (cps, threads, fp)"
    by (metis prod_cases3)
  obtain gs ge where g: "grantedRange start en threads fp = (gs, ge)" by fastforce
  obtain v' where "addPermission gs ge iswrite v False = Inr v'"
    using addPermission_returns [of False v gs ge iswrite] by auto
  then show ?thesis
    using v scanClients_keys(3) [OF sc] by (auto simp: waitAndGetPermissionFor_def sc g)
qed

text \<open>
  A request for an unknown file, or by a client that does not have the file open, is
  refused with its own error code and changes nothing.
\<close>

theorem GetPermission_refuses:
  assumes "case files m (pr_name request) of None \<Rightarrow> True | Some f \<Rightarrow> \<not> isOpenedBy peer f"
  shows "GetPermission sendRevoke peer request m w =
    Inr (Status_CANCELLED,
         \<lparr>pp_error = (if files m (pr_name request) = None then ERROR_DOES_NOT_EXIST
                      else ERROR_GET_PERMISSION_UNOPENED_FILE), pp_start = 0, pp_end = 0\<rparr>, m, w)"
  using assms by (auto simp: GetPermission_def new_PermissionReply_def split: option.splits)

theorem GetPermission_refuses_witness:
  "GetPermission quietRevoke ''c'' \<lparr>pr_name = ''f'', pr_start = 0, pr_end = 1, pr_isWrite = False\<rparr>
     (demo_mm []) () =
   Inr (Status_CANCELLED, \<lparr>pp_error = -6, pp_start = 0, pp_end = 0\<rparr>, demo_mm [], ())"
  by (subst GetPermission_refuses)
     (simp_all add: demo_mm_def new_MMFile_def isOpenedBy_def ERROR_GET_PERMISSION_UNOPENED_FILE_def)

section \<open>Opening and closing, creating and deleting\<close>

text \<open>
  C34. Closing undoes opening: after a successful open, a close without modification by the same
  client succeeds and leaves the manager as it was; a second open in between is refused and
  changes nothing.
\<close>

theorem open_close_roundtrip:
  assumes "OpenFile peer name m = (Status_OK, reply, m1)"
  shows "OpenFile peer name m1 = (Status_CANCELLED, new_FileStatReply, m1) \<and>
    CloseFile peer now \<lparr>cl_name = name, cl_hasModified = False, cl_size = sz\<rparr> m1 = (Status_OK, m)"
proof (cases "files m name")
  case None
  then show ?thesis using assms by (simp add: OpenFile_def)
next
  case (Some f)
  have new: "map_of (clientPermissions f) peer = None"
    and m1: "m1 = m\<lparr>files := (files m)(name \<mapsto> f\<lparr>clientPermissions := (peer, []) # clientPermissions f\<rparr>)\<rparr>"
    using assms Some by (auto simp: OpenFile_def MMFile_open_def split: if_splits)
  have "filter (\<lambda>kv. fst kv \<noteq> peer) (clientPermissions f) = clientPermissions f"
    using new by (auto simp: filter_id_conv map_of_eq_None_iff)
  moreover have "(files m)(name \<mapsto> f) = files m" using Some by (simp add: fun_upd_idem)
  ultimately show ?thesis
    by (simp add: m1 OpenFile_def CloseFile_def MMFile_open_def MMFile_close_def)
qed

theorem open_close_roundtrip_witness:
  "CloseFile ''a'' 7 \<lparr>cl_name = ''f'', cl_hasModified = False, cl_size = 0\<rparr> (demo_mm [(''a'', [])]) =
    (Status_OK, demo_mm [])"
proof -
  have "OpenFile ''a'' ''f'' (demo_mm []) =
      (Status_OK, \<lparr>st_error = 0, st_lastModified = 1, st_creationTime = 1, st_fileSize = 0, st_stripWidth = 2\<rparr>,
       demo_mm [(''a'', [])])"
    by (simp add: OpenFile_def demo_mm_def MMFile_open_def new_MMFile_def getSize_def)
  from open_close_roundtrip [OF this] show ?thesis by simp
qed

text \<open>
  C35. Deleting undoes creating: a file that was created can be created a second time only after
  it was deleted, and deleting it (nobody has it open yet) restores the manager's table.
\<close>

theorem create_delete_roundtrip:
  assumes "CreateFile fsCreate now1 now2 request m w = Inr (Status_OK, err, m1, w1)"
  shows "CreateFile fsCreate now3 now4 request m1 w2 = Inr (Status_CANCELLED, ERROR_ALREADY_EXISTS, m1, w2) \<and>
    DeleteFile (cf_name request) m1 = (Status_OK, 0, m)"
proof -
  have n: "files m (cf_name request) = None"
    and m1: "m1 = m\<lparr>files := (files m)(cf_name request \<mapsto> new_MMFile (cf_name request) now1 now2 (cf_stripeWidth request))\<rparr>"
    using assms by (auto simp: CreateFile_def Let_def split: if_splits)
  have "(files m)(cf_name request := None) = files m" using n by (simp add: fun_upd_idem)
  then show ?thesis
    by (simp add: m1 CreateFile_def DeleteFile_def isOpen_def new_MMFile_def)
qed

theorem create_delete_roundtrip_witness:
  "DeleteFile ''f'' (demo_mm []) = (Status_OK, 0, (demo_mm [])\<lparr>files := Map.empty\<rparr>)"
proof -
  have "CreateFile quietCreate 1 1 \<lparr>cf_name = ''f'', cf_stripeWidth = 2\<rparr> ((demo_mm [])\<lparr>files := Map.empty\<rparr>) () =
      Inr (Status_OK, 0, demo_mm [], ())"
    by (simp add: CreateFile_def demo_mm_def quietCreate_def upt_rec Let_def new_MMFile_def)
  from create_delete_roundtrip [OF this] show ?thesis by simp
qed

text \<open>
  A file that some client has open cannot be deleted, and the manager's record of it stays.
\<close>

theorem delete_needs_closed:
  assumes "files m name = Some f" "isOpenedBy peer f"
  shows "DeleteFile name m = (Status_CANCELLED, ERROR_DELETE_OPEN_FILE, m)"
  using assms by (auto simp: DeleteFile_def isOpen_def isOpenedBy_def)

theorem delete_needs_closed_witness:
  "DeleteFile ''f'' (demo_mm [(''a'', [])]) = (Status_CANCELLED, ERROR_DELETE_OPEN_FILE, demo_mm [(''a'', [])])"
  by (rule delete_needs_closed [of _ _ _ "''a''"]) (simp add: demo_mm_def new_MMFile_def isOpenedBy_def)+

text \<open>
  \<^verbatim>\<open>CloseFile\<close> writes the size and the modification time before it looks whether the caller
  has the file open: a close by a stranger is refused, yet a file of size 0 has size 4096 after it.
\<close>

theorem close_by_stranger_changes_size:
  "\<exists>m'. CloseFile ''x'' 9 \<lparr>cl_name = ''f'', cl_hasModified = True, cl_size = 4096\<rparr> (demo_mm []) =
      (Status_CANCELLED, m') \<and>
    map_option getSize (files (demo_mm []) ''f'') = Some 0 \<and>
    map_option getSize (files m' ''f'') = Some 4096 \<and> map_option pst_mtime (files m' ''f'') = Some 9"
  by (simp add: CloseFile_def demo_mm_def new_MMFile_def MMFile_close_def setSize_def getSize_def)

end
