(* ===== verification/File_Properties.thy ===== *)
theory File_Properties
  imports File_Bounds
begin

text \<open>
  The properties of the token vectors of \<^verbatim>\<open>common/file.cpp\<close>: what the three operations compute,
  as sets of bytes, on every vector or on well-formed ones, and the inputs on which
  \<^verbatim>\<open>addPermission\<close> loses track of tokens.
\<close>

lemmas file_eval =
  addPermission_def addPermission_write_def addPermission_read_def addPermission_new_def
  keepLastWrite_def fillFront_def lock_if_def isInclusiveShared_def isShared_def new_Permission_def
  verase_def vinsert_def hasPermission_def INT_MAX_def

section \<open>hasPermission\<close>

text \<open>
  C25. On a sorted vector of proper, disjoint tokens, \<^verbatim>\<open>hasPermission\<close> answers whether every byte
  of the request is covered, by write tokens when the request is for writing: its search for the
  first and the last token and its test for gaps decide exactly that.
\<close>

theorem hasPermission_iff:
  assumes "wf_perms perms" "start < en"
  shows "hasPermission start en w perms \<longleftrightarrow> {start..<en} \<subseteq> (if w then wbytes perms else rbytes perms)"
  using hasPermission_sound hasPermission_complete [OF assms] by blast

theorem hasPermission_iff_witness:
  "hasPermission 3 15 False [new_Permission 0 10 True, new_Permission 10 20 False] \<longleftrightarrow>
     {3..<15} \<subseteq> rbytes [new_Permission 0 10 True, new_Permission 10 20 False]"
  using hasPermission_iff [of "[new_Permission 0 10 True, new_Permission 10 20 False]" 3 15 False]
  by simp

lemma hasPermission_revoked:
  assumes "{s..<e} \<inter> {start..<en} \<noteq> {}"
  shows "\<not> hasPermission s e w (revokePermission start en perms)"
proof
  assume h: "hasPermission s e w (revokePermission start en perms)"
  have "{s..<e} \<subseteq> rbytes (revokePermission start en perms)"
    using hasPermission_sound [OF h] wbytes_subset_rbytes by (auto split: if_splits)
  then show False using assms revokePermission_bytes [of start en perms] by blast
qed

text \<open>
  C27. After a revocation the client does not believe that it may touch the revoked bytes: on any
  vector, well-formed or not, \<^verbatim>\<open>hasPermission\<close> is false for every range that meets the revoked
  one.
\<close>

theorem revoked_not_permitted:
  assumes "{s..<e} \<inter> {start..<en} \<noteq> {}"
  shows "\<not> hasPermission s e w (revokePermission start en perms)"
  by (rule hasPermission_revoked [OF assms])

theorem revoked_not_permitted_witness:
  "\<not> hasPermission 0 6 True (revokePermission 5 10 [new_Permission 0 INT_MAX True])"
proof (rule revoked_not_permitted)
  have "(5::uint32) \<in> {0..<6} \<inter> {5..<10}" by simp
  then show "{0..<6} \<inter> {5..<(10::uint32)} \<noteq> {}" by blast
qed

section \<open>addPermission and revokePermission\<close>

text \<open>
  C28. Whatever the vector, \<^verbatim>\<open>addPermission\<close> never invents access: every byte covered afterwards
  was covered before or was asked for, and write access grows only by a write request; and when
  all endpoints are below \<^verbatim>\<open>INT_MAX\<close> the request itself is covered afterwards.
\<close>

theorem addPermission_effect:
  assumes "addPermission start en w perms lk = Inr perms'"
    and "start \<le> INT_MAX" "small_perms perms"
  shows "rbytes perms' \<subseteq> rbytes perms \<union> {start..<en} \<and>
    wbytes perms' \<subseteq> wbytes perms \<union> (if w then {start..<en} else {}) \<and>
    {start..<en} \<subseteq> (if w then wbytes perms' else rbytes perms')"
  using addPermission_bytes [OF assms(1)] addPermission_covers [OF assms(1,2)] assms(3)
  by (simp add: small_perms_def)

theorem addPermission_effect_witness:
  "rbytes [new_Permission 0 10 False, new_Permission 10 20 True, new_Permission 20 30 False] \<subseteq>
     rbytes [new_Permission 10 20 True] \<union> {0..<30} \<and>
   wbytes [new_Permission 0 10 False, new_Permission 10 20 True, new_Permission 20 30 False] \<subseteq>
     wbytes [new_Permission 10 20 True] \<and>
   {0..<30} \<subseteq> rbytes [new_Permission 0 10 False, new_Permission 10 20 True, new_Permission 20 30 False]"
proof -
  have "addPermission 0 30 False [new_Permission 10 20 True] False =
      Inr [new_Permission 0 10 False, new_Permission 10 20 True, new_Permission 20 30 False]"
    by (simp add: file_eval)
  from addPermission_effect [OF this] show ?thesis by (simp add: INT_MAX_def)
qed

text \<open>
  C29. On well-formed vectors below \<^verbatim>\<open>INT_MAX\<close> the write access after \<^verbatim>\<open>addPermission\<close> is
  exactly the old one and, for a write request, the range; a read request adds exactly its
  range to what is covered.
\<close>

theorem addPermission_exact_access:
  assumes "wf_perms perms" "addPermission start en w perms lk = Inr perms'"
    and "start \<le> INT_MAX" "small_perms perms"
  shows "wbytes perms' = wbytes perms \<union> (if w then {start..<en} else {}) \<and>
    (\<not> w \<longrightarrow> rbytes perms' = rbytes perms \<union> {start..<en})"
  using addPermission_exact [OF assms(1-3)] assms(4) by (simp add: small_perms_def)

theorem addPermission_exact_access_witness:
  "\<exists>ps. addPermission 5 30 False [new_Permission 0 10 True] False = Inr ps \<and>
     rbytes ps = rbytes [new_Permission 0 10 True] \<union> {5..<30} \<and> wbytes ps = wbytes [new_Permission 0 10 True]"
proof -
  let ?ps = "[new_Permission 0 10 True, new_Permission 10 30 False]"
  have a: "addPermission 5 30 False [new_Permission 0 10 True] False = Inr ?ps" by (simp add: file_eval)
  have "wbytes ?ps = wbytes [new_Permission 0 10 True] \<union> (if False then {5..<30} else {}) \<and>
      (\<not> False \<longrightarrow> rbytes ?ps = rbytes [new_Permission 0 10 True] \<union> {5..<30})"
    by (rule addPermission_exact_access [OF _ a]) (simp_all add: INT_MAX_def)
  then have "wbytes ?ps = wbytes [new_Permission 0 10 True]" "rbytes ?ps = rbytes [new_Permission 0 10 True] \<union> {5..<30}"
    unfolding if_False Un_empty_right by blast+
  then show ?thesis using a by blast
qed

text \<open>
  C26. Revocation is exact on well-formed vectors: precisely the bytes of the range are given up,
  for reading and for writing, and the vector stays well-formed.
\<close>

theorem revokePermission_exact_access:
  assumes "wf_perms perms" "start \<le> en"
  shows "rbytes (revokePermission start en perms) = rbytes perms - {start..<en} \<and>
    wbytes (revokePermission start en perms) = wbytes perms - {start..<en} \<and>
    wf_perms (revokePermission start en perms)"
  using assms by (rule revokePermission_exact)

theorem revokePermission_exact_access_witness:
  "wbytes (revokePermission 5 25 [new_Permission 0 10 True, new_Permission 12 20 True, new_Permission 20 30 False]) =
   wbytes [new_Permission 0 10 True, new_Permission 12 20 True, new_Permission 20 30 False] - {5..<25}"
  using revokePermission_exact_access
    [of "[new_Permission 0 10 True, new_Permission 12 20 True, new_Permission 20 30 False]" 5 25]
  by simp

section \<open>Where addPermission goes wrong\<close>

text \<open>
  The run of tokens a write replaces: all that touch the request when some later token does not, and
  only the first one when all later tokens do.
\<close>

lemma write_run:
  assumes "\<forall>p\<in>set A. \<not> isInclusiveShared p start en" "\<forall>p\<in>set M. isInclusiveShared p start en" "M \<noteq> []"
    and "\<not> isInclusiveShared b start en"
  shows "addPermission start en True (A @ M @ b # B) lk =
    addPermission_write start en (A @ M @ b # B) lk (length A) (length A + length M - 1)"
proof -
  obtain m M' where M: "M = m # M'" using assms(3) by (cases M) auto
  have "first_index (\<lambda>p. isInclusiveShared p start en) (A @ M @ b # B) = Some (length A)"
    using assms(1,2) by (auto simp: first_index_Some nth_append M)
  moreover have "first_index (\<lambda>p. \<not> isInclusiveShared p start en) (M' @ b # B) = Some (length M')"
    using assms(2,4) by (auto simp: first_index_Some nth_append M)
  ultimately show ?thesis by (simp add: addPermission_def M)
qed

lemma write_run_first:
  assumes "\<forall>p\<in>set A. \<not> isInclusiveShared p start en" "\<forall>p\<in>set (a # B). isInclusiveShared p start en"
  shows "addPermission start en True (A @ a # B) lk = addPermission_write start en (A @ a # B) lk (length A) (length A)"
proof -
  have "first_index (\<lambda>p. isInclusiveShared p start en) (A @ a # B) = Some (length A)"
    using assms by (auto simp: first_index_Some nth_append)
  moreover have "first_index (\<lambda>p. \<not> isInclusiveShared p start en) B = None"
    using assms(2) by (simp add: first_index_None)
  ultimately show ?thesis by (simp add: addPermission_def)
qed

text \<open>
  C39. When the first token that touches a write request is followed by at least one other and all
  that follow touch the request too, the search for the last one stays at the first: only that
  token is replaced. If the next one starts inside the request, the new write token and it overlap,
  and a well-formed vector is not well-formed any more.
\<close>

theorem addPermission_overlap:
  assumes wf: "wf_perms (A @ a # b # B)" and A: "\<forall>p\<in>set A. \<not> isInclusiveShared p start en"
    and B: "\<forall>p\<in>set (a # b # B). isInclusiveShared p start en" and b: "pstart b < en"
    and add: "addPermission start en True (A @ a # b # B) lk = Inr perms'"
  shows "\<not> wf_perms perms' \<and> (\<exists>G p. perms' = A @ G @ b # B \<and> p \<in> set G \<and> isWrite p \<and> pbytes p \<inter> pbytes b \<noteq> {})"
proof -
  define ns where "ns = (if isWrite a then min (pstart a) start else start)"
  define ne where "ne = (if isWrite a then max (pend a) en else en)"
  have "addPermission_write start en (A @ [a] @ b # B) lk (length A) (length A) = Inr perms'"
    using write_run_first [OF A B, of lk] add by simp
  then have "bindR (lock_if lk (new_Permission ns ne True))
      (\<lambda>p. Inr (A @ (write_left a start @ p # write_right a a en) @ b # B)) = Inr perms'"
    using addPermission_write_eq [of A "length A" "[a]" "length A" start en "b # B" lk]
    by (simp add: ns_def ne_def cong: if_cong)
  then obtain p where p: "lock_if lk (new_Permission ns ne True) = Inr p"
    and r: "perms' = A @ (write_left a start @ p # write_right a a en) @ b # B" by auto
  have w: "isWrite p" "pstart p = ns" "pend p = ne" using lock_if_keeps [OF p] by simp_all
  have "start \<le> pend a" "pend a \<le> pstart b" "pstart b < pend b"
    using B wf by (auto simp: isInclusiveShared_def split: if_splits)
  then have in_p: "pstart b \<in> pbytes p" "pstart b \<in> pbytes b"
    using b w by (auto simp: pbytes_def ns_def ne_def min_def max_def)
  then have "\<not> pend p \<le> pstart b" by (auto simp: pbytes_def)
  then have "\<not> wf_perms perms'" unfolding r by auto
  then show ?thesis using r w(1) in_p by (intro conjI exI [of _ "write_left a start @ p # write_right a a en"] exI [of _ p]) auto
qed

theorem addPermission_overlap_witness:
  "\<exists>perms'. addPermission 5 25 True [new_Permission 0 10 True, new_Permission 20 30 False] False = Inr perms' \<and> \<not> wf_perms perms'"
proof -
  have "addPermission 5 25 True ([] @ new_Permission 0 10 True # new_Permission 20 30 False # []) False =
      Inr [new_Permission 0 25 True, new_Permission 20 30 False]" by (simp add: file_eval)
  from addPermission_overlap [OF _ _ _ _ this] show ?thesis
    using \<open>addPermission 5 25 True _ False = _\<close> by (simp add: isInclusiveShared_def)
qed

text \<open>
  C40. When a write request touches several tokens of a well-formed vector and the last of them is a
  read token that reaches behind the request, the token made for the rest ends where the
  \<^emph>\<open>first\<close> touching token ended, which is inside the request: the client loses all its read access
  between the end of the request and the end of the last token.
\<close>

theorem addPermission_loses_reads:
  assumes wf: "wf_perms (A @ M @ b # B)" and A: "\<forall>p\<in>set A. \<not> isInclusiveShared p start en"
    and M: "\<forall>p\<in>set M. isInclusiveShared p start en" "1 < length M" and b: "\<not> isInclusiveShared b start en"
    and last: "\<not> isWrite (last M)" "en < pend (last M)"
    and add: "addPermission start en True (A @ M @ b # B) lk = Inr perms'"
  shows "{en..<pend (last M)} \<subseteq> rbytes (A @ M @ b # B) \<and> rbytes perms' \<inter> {en..<pend (last M)} = {}"
proof -
  have ne: "M \<noteq> []" using M(2) by auto
  obtain m N l where Ml: "M = m # N @ [l]"
    using M(2) by (cases M; cases "tl M" rule: rev_cases) auto
  have l: "last M = l" "hd M = m" by (simp_all add: Ml)
  have "addPermission_write start en (A @ M @ b # B) lk (length A) (length A + length M - 1) = Inr perms'"
    using write_run [OF A M(1) ne b, of B lk] add by simp
  then have "bindR (lock_if lk (new_Permission (if isWrite m then min (pstart m) start else start) en True))
      (\<lambda>p. Inr (A @ write_left m start @ p # write_right m l en @ b # B)) = Inr perms'"
    using addPermission_write_eq [of A "length A" M "length A + length M - 1" start en "b # B" lk] ne last(1)
    by (simp add: l cong: if_cong)
  then obtain p where p: "lock_if lk (new_Permission (if isWrite m then min (pstart m) start else start) en True) = Inr p"
    and r: "perms' = A @ write_left m start @ p # write_right m l en @ b # B" by auto
  have w: "pend p = en" using lock_if_keeps [OF p] by simp
  have o: "start \<le> pend m" "pend m \<le> pstart l" "pstart l \<le> en" "pstart m < pend m"
    using M(1) wf by (auto simp: Ml isInclusiveShared_def split: if_splits)
  have "{en..<pend l} \<subseteq> pbytes l" using o(3) by (auto simp: pbytes_def)
  then have sub: "{en..<pend (last M)} \<subseteq> rbytes (A @ M @ b # B)" using l by (auto simp: Ml)
  have "rbytes A \<inter> {en..<pend l} = {}" "rbytes (b # B) \<inter> {en..<pend l} = {}"
    using wf o by (fastforce simp: rbytes_def pbytes_def Ml)+
  moreover have "rbytes (write_left m start) \<inter> {en..<pend l} = {}" "rbytes (write_right m l en) \<inter> {en..<pend l} = {}"
    "pbytes p \<inter> {en..<pend l} = {}"
    using o w by (auto simp: write_left_def write_right_def pbytes_def)
  ultimately have "rbytes perms' \<inter> {en..<pend l} = {}" unfolding r by auto
  then show ?thesis using sub l by simp
qed

theorem addPermission_loses_reads_witness:
  "\<exists>perms'. addPermission 5 15 True [new_Permission 0 10 True, new_Permission 12 20 False, new_Permission 30 40 False] False =
      Inr perms' \<and> rbytes perms' \<inter> {15..<20} = {} \<and>
     {15..<20} \<subseteq> rbytes [new_Permission 0 10 True, new_Permission 12 20 False, new_Permission 30 40 False]"
proof -
  let ?M = "[new_Permission 0 10 True, new_Permission 12 20 False]"
  have a: "addPermission 5 15 True ([] @ ?M @ new_Permission 30 40 False # []) False =
      Inr [new_Permission 0 15 True, new_Permission 15 10 False, new_Permission 30 40 False]" by (simp add: file_eval)
  have "{15..<pend (last ?M)} \<subseteq> rbytes ([] @ ?M @ new_Permission 30 40 False # []) \<and>
      rbytes [new_Permission 0 15 True, new_Permission 15 10 False, new_Permission 30 40 False] \<inter> {15..<pend (last ?M)} = {}"
    by (rule addPermission_loses_reads [OF _ _ _ _ _ _ _ a]) (simp_all add: isInclusiveShared_def)
  then show ?thesis using a by simp
qed

text \<open>
  \<^verbatim>\<open>newStart < newEnd\<close> compares two \<^verbatim>\<open>int\<close>s, so beyond \<open>2\<^sup>3\<^sup>1\<close> bytes a granted read range is not
  recorded: after the call the first byte of the request is not covered.
\<close>

theorem addPermission_signed_gap:
  "addPermission 2147483392 2147483904 False [new_Permission 2147483664 2147483904 True] False =
     Inr [new_Permission 2147483664 2147483904 True] \<and>
   2147483392 \<notin> rbytes [new_Permission 2147483664 2147483904 True]"
  by (simp add: file_eval pbytes_def)

end
