(* ===== verification/System_Share.thy ===== *)
theory System_Share
  imports System MM_Properties File_Properties
begin

text \<open>
  Two clients of one file. When one of them asks for bytes the other one may have written, the
  manager's revocation makes the owner write them back to the file servers before the request is
  answered, and the reader gets them from there.
\<close>

section \<open>A revocation call\<close>

lemma callRevoke_ok:
  assumes cl: "wclients w ip = Some cl" and ok: "client_ok placed stored k cl w v"
    and i: "first_index (\<lambda>f. fname f = name) (openedFiles cl) = Some i"
    and free: "fst (registerWaiting 0 (word_of_nat x) (word_of_nat y) (permissions (openedFiles cl ! i))) = 0"
    and lim: "x \<le> y" "y < LIMIT"
  obtains w' where
    "callRevoke junk ip \<lparr>rv_name = name, rv_start = word_of_nat x, rv_end = word_of_nat y, rv_isWrite = wr\<rparr> w = Inr w'"
    "placed w' = placed w"
    "\<And>z b. x div 1024 \<le> z div 1024 \<Longrightarrow> z div 1024 \<le> y div 1024 \<Longrightarrow> v name z = Some b \<Longrightarrow>
       stored w' name (stripWidth (openedFiles cl ! i)) z = Some b"
proof -
  obtain cl' w1 where r: "client_revokePermission (dataStubs junk) name (word_of_nat x) (word_of_nat y) wr cl w = Inr (cl', w1)"
    "placed w1 = placed w"
    "\<And>z b. x div 1024 \<le> z div 1024 \<Longrightarrow> z div 1024 \<le> y div 1024 \<Longrightarrow> v name z = Some b \<Longrightarrow>
       stored w1 name (stripWidth (openedFiles cl ! i)) z = Some b"
    using revoked.revoke_ok [OF ok i free lim] by metis
  let ?w = "w1\<lparr>wclients := (wclients w1)(ip \<mapsto> cl')\<rparr>"
  have "wfs ?w = wfs w1" by simp
  from placed_cong [OF this] stored_cong [OF this] r show thesis
    by (intro that [of ?w]) (simp_all add: callRevoke_def RevokePermission_def cl)
qed

section \<open>Any number of owners\<close>

text \<open>
  A client at \<open>ip\<close> that a revocation of the bytes from \<open>x\<close> to \<open>y\<close> finds between two calls, and
  one that has given them up: no block of them cached, no access to any of them.
\<close>

definition revocable :: "string \<Rightarrow> nat \<Rightarrow> nat \<Rightarrow> World \<Rightarrow> string \<Rightarrow> bool" where
  "revocable name x y w ip \<longleftrightarrow> (\<exists>cl k i. wclients w ip = Some cl \<and> client_ok placed stored k cl w (\<lambda>_ _. None) \<and>
     first_index (\<lambda>f. fname f = name) (openedFiles cl) = Some i \<and>
     fst (registerWaiting 0 (word_of_nat x) (word_of_nat y) (permissions (openedFiles cl ! i))) = 0)"

definition released :: "string \<Rightarrow> nat \<Rightarrow> nat \<Rightarrow> World \<Rightarrow> string \<Rightarrow> bool" where
  "released name x y w ip \<longleftrightarrow> (\<exists>cl i. wclients w ip = Some cl \<and>
     first_index (\<lambda>f. fname f = name) (openedFiles cl) = Some i \<and>
     (\<forall>z. x div 1024 \<le> z div 1024 \<and> z div 1024 \<le> y div 1024 \<longrightarrow>
        cmap (cache cl) (descriptor (openedFiles cl ! i), blk z) = None) \<and>
     (\<forall>s e r. {s..<e} \<inter> {word_of_nat x..<word_of_nat y} \<noteq> {} \<longrightarrow>
        \<not> hasPermission s e r (permissions (openedFiles cl ! i))))"

lemma revocable_cong:
  "wclients w' ip = wclients w ip \<Longrightarrow> placed w' = placed w \<Longrightarrow> revocable name x y w' ip \<longleftrightarrow> revocable name x y w ip"
  by (simp add: revocable_def client_ok_def coherent_def files_ok_def)

lemma released_cong: "wclients w' ip = wclients w ip \<Longrightarrow> released name x y w' ip \<longleftrightarrow> released name x y w ip"
  by (simp add: released_def)

lemma first_index_fname:
  assumes "first_index (\<lambda>f. fname f = name) fs = Some i" "fname g = fname (fs ! i)"
  shows "first_index (\<lambda>f. fname f = name) (fs[i := g]) = Some i"
  using assms by (auto simp: first_index_Some)

lemma callRevoke_releases:
  assumes "revocable name x y w ip" and lim: "x \<le> y" "y < LIMIT"
  obtains w' where
    "callRevoke junk ip \<lparr>rv_name = name, rv_start = word_of_nat x, rv_end = word_of_nat y, rv_isWrite = wr\<rparr> w = Inr w'"
    "wmm w' = wmm w" "placed w' = placed w" "released name x y w' ip"
    "\<And>ip'. ip' \<noteq> ip \<Longrightarrow> wclients w' ip' = wclients w ip'"
proof -
  from assms(1) obtain cl k i where cl: "wclients w ip = Some cl" "client_ok placed stored k cl w (\<lambda>_ _. None)"
    "first_index (\<lambda>f. fname f = name) (openedFiles cl) = Some i"
    "fst (registerWaiting 0 (word_of_nat x) (word_of_nat y) (permissions (openedFiles cl ! i))) = 0"
    by (auto simp: revocable_def)
  obtain cl' w1 where r: "client_revokePermission (dataStubs junk) name (word_of_nat x) (word_of_nat y) wr cl w = Inr (cl', w1)"
    "placed w1 = placed w" "rest w1 = rest w"
    "openedFiles cl' = (openedFiles cl)[i := (openedFiles cl ! i)\<lparr>permissions :=
       revokePermission (word_of_nat x) (word_of_nat y) (permissions (openedFiles cl ! i))\<rparr>]"
    "\<And>z. x div 1024 \<le> z div 1024 \<Longrightarrow> z div 1024 \<le> y div 1024 \<Longrightarrow>
       cmap (cache cl') (descriptor (openedFiles cl ! i), blk z) = None"
    by (rule revoked.revoke_ok [OF cl(2-4) lim]) (rule that)
  have il: "i < length (openedFiles cl)" using cl(3) by (simp add: first_index_Some)
  let ?w = "w1\<lparr>wclients := (wclients w1)(ip \<mapsto> cl')\<rparr>"
  have "first_index (\<lambda>f. fname f = name) (openedFiles cl') = Some i"
    unfolding r(4) by (rule first_index_fname [OF cl(3)]) simp
  moreover have "descriptor (openedFiles cl' ! i) = descriptor (openedFiles cl ! i)"
    "permissions (openedFiles cl' ! i) = revokePermission (word_of_nat x) (word_of_nat y) (permissions (openedFiles cl ! i))"
    using il r(4) by simp_all
  ultimately have "released name x y ?w ip" using r(5) hasPermission_revoked by (auto simp: released_def)
  moreover have "placed ?w = placed w1" by (rule placed_cong) simp
  ultimately show thesis using r(1-3) cl(1)
    by (intro that [of ?w]) (simp_all add: callRevoke_def RevokePermission_def rest_def)
qed

lemma sendRevocations_release:
  assumes "\<forall>c\<in>set cs. \<exists>ip. stubs c = Some ip \<and> revocable name x y w ip" "distinct (map stubs cs)" "x \<le> y" "y < LIMIT"
  shows "\<exists>w'. sendRevocations (callRevoke junk) stubs
      (map (\<lambda>c. (c, \<lparr>rv_name = name, rv_start = word_of_nat x, rv_end = word_of_nat y, rv_isWrite = wr\<rparr>)) cs) w = Inr w' \<and>
    (\<forall>c\<in>set cs. \<exists>ip. stubs c = Some ip \<and> released name x y w' ip) \<and>
    (\<forall>ip. Some ip \<notin> stubs ` set cs \<longrightarrow> wclients w' ip = wclients w ip)"
  using assms(1,2)
proof (induction cs arbitrary: w)
  case (Cons c cs)
  from Cons.prems(1) obtain ip where ip: "stubs c = Some ip" "revocable name x y w ip" by auto
  obtain w1 where w1: "callRevoke junk ip \<lparr>rv_name = name, rv_start = word_of_nat x, rv_end = word_of_nat y, rv_isWrite = wr\<rparr> w = Inr w1"
    "placed w1 = placed w" "released name x y w1 ip" "\<And>ip'. ip' \<noteq> ip \<Longrightarrow> wclients w1 ip' = wclients w ip'"
    by (rule callRevoke_releases [OF ip(2) assms(3,4)]) (rule that)
  have new: "Some ip \<notin> stubs ` set cs" using Cons.prems(2) ip(1) by auto
  have "\<forall>c\<in>set cs. \<exists>ip. stubs c = Some ip \<and> revocable name x y w1 ip"
  proof
    fix c' assume c': "c' \<in> set cs"
    then obtain ip' where "stubs c' = Some ip'" "revocable name x y w ip'" using Cons.prems(1) by auto
    moreover from this have "ip' \<noteq> ip" using new c' by force
    ultimately show "\<exists>ip. stubs c' = Some ip \<and> revocable name x y w1 ip"
      using revocable_cong [OF w1(4) w1(2)] by blast
  qed
  then obtain w' where w': "sendRevocations (callRevoke junk) stubs
      (map (\<lambda>c. (c, \<lparr>rv_name = name, rv_start = word_of_nat x, rv_end = word_of_nat y, rv_isWrite = wr\<rparr>)) cs) w1 = Inr w'"
    "\<forall>c\<in>set cs. \<exists>ip. stubs c = Some ip \<and> released name x y w' ip"
    "\<forall>ip. Some ip \<notin> stubs ` set cs \<longrightarrow> wclients w' ip = wclients w1 ip"
    using Cons.IH [of w1] Cons.prems(2) by auto
  then have "released name x y w' ip" using w1(3) released_cong [of w' ip w1] new by blast
  then show ?case using w' ip(1) w1(1,4) by auto
qed simp

text \<open>
  The manager grants a request once all owners of conflicting tokens have answered, however many
  they are.
\<close>

lemma GetPermission_owners:
  assumes F: "files (wmm w) name = Some F" "fname F = name" "isOpenedBy me F"
    and owners: "map fst (filter (\<lambda>(c, ps). c \<noteq> me \<and>
      (\<exists>p\<in>set ps. conflicts (word_of_nat x) (word_of_nat y) wr p)) (clientPermissions F)) = cs"
      "\<forall>c\<in>set cs. \<exists>ip. clientStubs (wmm w) c = Some ip \<and> revocable name x y w ip" "distinct (map (clientStubs (wmm w)) cs)"
    and lim: "x \<le> y" "y < LIMIT"
  obtains reply w' where
    "rpc_GetPermission (stubsOf junk now me)
       \<lparr>pr_name = name, pr_start = word_of_nat x, pr_end = word_of_nat y, pr_isWrite = wr\<rparr> w = Inr (Status_OK, reply, w')"
    "{word_of_nat x..<word_of_nat y} \<subseteq> {pp_start reply..<pp_end reply}"
    "\<forall>c\<in>set cs. \<exists>ip. clientStubs (wmm w) c = Some ip \<and> released name x y w' ip"
    "\<forall>ip. Some ip \<notin> clientStubs (wmm w) ` set cs \<longrightarrow> wclients w' ip = wclients w ip"
proof -
  obtain permit f' msgs where g: "waitAndGetPermissionFor me (word_of_nat x) (word_of_nat y) wr F = Inr (permit, f', msgs)"
    using waitAndGetPermissionFor_returns [OF F(3)] by blast
  have msgs: "msgs = map (\<lambda>c. (c, \<lparr>rv_name = name, rv_start = word_of_nat x, rv_end = word_of_nat y, rv_isWrite = wr\<rparr>)) cs"
    by (rule waitAndGetPermissionFor_result [OF g]) (simp only: owners(1) F(2))
  obtain w1 where r: "sendRevocations (callRevoke junk) (clientStubs (wmm w)) msgs w = Inr w1"
    "\<forall>c\<in>set cs. \<exists>ip. clientStubs (wmm w) c = Some ip \<and> released name x y w1 ip"
    "\<forall>ip. Some ip \<notin> clientStubs (wmm w) ` set cs \<longrightarrow> wclients w1 ip = wclients w ip"
    unfolding msgs using sendRevocations_release [OF owners(2,3) lim] by blast
  have "(word_of_nat y :: uint32) \<le> INT_MAX"
    using lim(2) by (simp add: word_le_nat_alt unat_of_nat INT_MAX_def LIMIT_def take_bit_nat_eq_self)
  moreover have "(pstart permit = word_of_nat x \<and> pend permit = word_of_nat y) \<or> (pstart permit = 0 \<and> pend permit = INT_MAX)"
    by (rule granted_vector [OF g])
  ultimately have "{word_of_nat x..<word_of_nat y} \<subseteq> {pstart permit..<pend permit}" by auto
  let ?m = "(wmm w)\<lparr>files := (files (wmm w))(name \<mapsto> f')\<rparr>"
  show thesis
  proof (rule that)
    show "rpc_GetPermission (stubsOf junk now me)
       \<lparr>pr_name = name, pr_start = word_of_nat x, pr_end = word_of_nat y, pr_isWrite = wr\<rparr> w =
      Inr (Status_OK, \<lparr>pp_error = 0, pp_start = pstart permit, pp_end = pend permit\<rparr>, w1\<lparr>wmm := ?m\<rparr>)"
      using g r(1) F by (simp add: stubsOf_def GetPermission_def)
  qed (use r \<open>{word_of_nat x..<word_of_nat y} \<subseteq> _\<close> released_cong [of "w1\<lparr>wmm := ?m\<rparr>" _ w1] in auto)
qed

section \<open>Asking for bytes that one other client holds\<close>

lemma GetPermission_one_owner:
  assumes F: "files (wmm w) name = Some F" "fname F = name" "isOpenedBy me F"
    and owner: "map fst (filter (\<lambda>(c, ps). c \<noteq> me \<and>
      (\<exists>p\<in>set ps. conflicts (word_of_nat x) (word_of_nat y) wr p)) (clientPermissions F)) = [pa]"
      "clientStubs (wmm w) pa = Some ip" "wclients w ip = Some cl" "client_ok placed stored k cl w v"
    and i: "first_index (\<lambda>f. fname f = name) (openedFiles cl) = Some i"
    and free: "fst (registerWaiting 0 (word_of_nat x) (word_of_nat y) (permissions (openedFiles cl ! i))) = 0"
    and lim: "x \<le> y" "y < LIMIT"
  obtains reply w' where
    "rpc_GetPermission (stubsOf junk now me)
       \<lparr>pr_name = name, pr_start = word_of_nat x, pr_end = word_of_nat y, pr_isWrite = wr\<rparr> w = Inr (Status_OK, reply, w')"
    "placed w' = placed w"
    "\<And>z b. x div 1024 \<le> z div 1024 \<Longrightarrow> z div 1024 \<le> y div 1024 \<Longrightarrow> v name z = Some b \<Longrightarrow>
       stored w' name (stripWidth (openedFiles cl ! i)) z = Some b"
proof -
  obtain permit f' msgs where g: "waitAndGetPermissionFor me (word_of_nat x) (word_of_nat y) wr F = Inr (permit, f', msgs)"
    using waitAndGetPermissionFor_returns [OF F(3)] by blast
  have msgs: "msgs = [(pa, \<lparr>rv_name = name, rv_start = word_of_nat x, rv_end = word_of_nat y, rv_isWrite = wr\<rparr>)]"
    by (rule waitAndGetPermissionFor_result [OF g]) (simp only: owner(1) F(2) list.map)
  obtain w1 where r: "callRevoke junk ip \<lparr>rv_name = name, rv_start = word_of_nat x, rv_end = word_of_nat y, rv_isWrite = wr\<rparr> w = Inr w1"
    "placed w1 = placed w"
    "\<And>z b. x div 1024 \<le> z div 1024 \<Longrightarrow> z div 1024 \<le> y div 1024 \<Longrightarrow> v name z = Some b \<Longrightarrow>
       stored w1 name (stripWidth (openedFiles cl ! i)) z = Some b"
    using callRevoke_ok [OF owner(3,4) i free lim] by metis
  let ?m = "(wmm w)\<lparr>files := (files (wmm w))(name \<mapsto> f')\<rparr>"
  have "wfs (w1\<lparr>wmm := ?m\<rparr>) = wfs w1" by simp
  note c = placed_cong [OF this] stored_cong [OF this]
  show thesis
    by (rule that [of "\<lparr>pp_error = 0, pp_start = pstart permit, pp_end = pend permit\<rparr>" "w1\<lparr>wmm := ?m\<rparr>"])
       (use g msgs r F owner(2) c in \<open>simp_all add: stubsOf_def GetPermission_def\<close>)
qed

text \<open>What the reader knows after the reply: the owner's bytes of the range.\<close>

definition handed :: "string \<Rightarrow> nat \<Rightarrow> nat \<Rightarrow> (string \<Rightarrow> nat \<Rightarrow> uint8 option) \<Rightarrow> string \<Rightarrow> nat \<Rightarrow> uint8 option" where
  "handed name x n v = (\<lambda>m z. if m = name \<and> x \<le> z \<and> z < x + n then v name z else None)"

lemma acquire_from_owner:
  assumes F: "files (wmm w) name = Some F" "fname F = name" "isOpenedBy me F"
    and owner: "map fst (filter (\<lambda>(c, ps). c \<noteq> me \<and>
      (\<exists>p\<in>set ps. conflicts (word_of_nat x) (word_of_nat (x + n)) wr p)) (clientPermissions F)) = [pa]"
      "clientStubs (wmm w) pa = Some ip" "wclients w ip = Some cla" "client_ok placed stored ka cla w v"
    and i: "first_index (\<lambda>f. fname f = name) (openedFiles cla) = Some i"
    and free: "fst (registerWaiting 0 (word_of_nat x) (word_of_nat (x + n)) (permissions (openedFiles cla ! i))) = 0"
    and lim: "x + n < LIMIT"
    and me: "findDescriptor d (openedFiles cl) = Some j" "fname (openedFiles cl ! j) = name"
      "\<forall>p\<in>set (permissions (openedFiles cl ! j)). isWrite p \<longrightarrow> \<not> permitHeld p"
      "\<not> hasPermission (word_of_nat x) (word_of_nat (x + n)) wr (permissions (openedFiles cl ! j))"
  obtains ps w1 where
    "acquirePermission (stubsOf junk now me) d (word_of_nat x) (word_of_nat (x + n)) wr cl w =
       Inr (int j, cl\<lparr>openedFiles := (openedFiles cl)[j := (openedFiles cl ! j)\<lparr>permissions := ps\<rparr>]\<rparr>, w1)"
    "placed w1 = placed w"
    "\<And>z b. x div 1024 \<le> z div 1024 \<Longrightarrow> z div 1024 \<le> (x + n) div 1024 \<Longrightarrow> v name z = Some b \<Longrightarrow>
       stored w1 name (stripWidth (openedFiles cla ! i)) z = Some b"
proof -
  let ?f = "openedFiles cl ! j" and ?S = "stubsOf junk now me"
  obtain reply w1 where g: "rpc_GetPermission ?S
      \<lparr>pr_name = name, pr_start = word_of_nat x, pr_end = word_of_nat (x + n), pr_isWrite = wr\<rparr> w = Inr (Status_OK, reply, w1)"
    "placed w1 = placed w"
    "\<And>z b. x div 1024 \<le> z div 1024 \<Longrightarrow> z div 1024 \<le> (x + n) div 1024 \<Longrightarrow> v name z = Some b \<Longrightarrow>
       stored w1 name (stripWidth (openedFiles cla ! i)) z = Some b"
    by (rule GetPermission_one_owner [where junk = junk and now = now, OF F owner i free _ lim]) (assumption | simp)+
  obtain ps where ps: "addPermission (pp_start reply) (pp_end reply) wr (permissions ?f) True = Inr ps"
    using addPermission_returns me(3) by blast
  have "acquirePermission ?S d (word_of_nat x) (word_of_nat (x + n)) wr cl w =
      Inr (int j, cl\<lparr>openedFiles := (openedFiles cl)[j := ?f\<lparr>permissions := ps\<rparr>]\<rparr>, w1)"
    using me(1,2,4) g(1) ps by (simp add: acquirePermission_def Let_def del: of_nat_add)
  then show thesis using that g(2,3) by blast
qed

lemma acquire_one_owner:
  assumes F: "files (wmm w) name = Some F" "fname F = name" "isOpenedBy me F"
    and owner: "map fst (filter (\<lambda>(c, ps). c \<noteq> me \<and>
      (\<exists>p\<in>set ps. conflicts (word_of_nat x) (word_of_nat (x + n)) wr p)) (clientPermissions F)) = [pa]"
      "clientStubs (wmm w) pa = Some ip" "wclients w ip = Some cla" "client_ok placed stored ka cla w v"
    and i: "first_index (\<lambda>f. fname f = name) (openedFiles cla) = Some i"
    and free: "fst (registerWaiting 0 (word_of_nat x) (word_of_nat (x + n)) (permissions (openedFiles cla ! i))) = 0"
    and lim: "x + n < LIMIT"
    and me: "client_ok placed stored k cl w u" "findDescriptor d (openedFiles cl) = Some j"
      "fname (openedFiles cl ! j) = name" "stripWidth (openedFiles cl ! j) = stripWidth (openedFiles cla ! i)"
      "\<forall>p\<in>set (permissions (openedFiles cl ! j)). isWrite p \<longrightarrow> \<not> permitHeld p"
      "\<not> hasPermission (word_of_nat x) (word_of_nat (x + n)) wr (permissions (openedFiles cl ! j))"
      "\<forall>z. x \<le> z \<and> z < x + n \<longrightarrow> cmap (cache cl) (d, blk z) = None"
  obtains cl1 w1 where
    "acquirePermission (stubsOf junk now me) d (word_of_nat x) (word_of_nat (x + n)) wr cl w = Inr (int j, cl1, w1)"
    "client_ok placed stored k cl1 w1 (handed name x n v)" "fname (openedFiles cl1 ! j) = name"
proof -
  let ?f = "openedFiles cl ! j" and ?S = "stubsOf junk now me"
  obtain ps w1 where acq: "acquirePermission ?S d (word_of_nat x) (word_of_nat (x + n)) wr cl w =
       Inr (int j, cl\<lparr>openedFiles := (openedFiles cl)[j := ?f\<lparr>permissions := ps\<rparr>]\<rparr>, w1)"
    and g: "placed w1 = placed w"
    "\<And>z b. x div 1024 \<le> z div 1024 \<Longrightarrow> z div 1024 \<le> (x + n) div 1024 \<Longrightarrow> v name z = Some b \<Longrightarrow>
       stored w1 name (stripWidth (openedFiles cla ! i)) z = Some b"
    by (rule acquire_from_owner [where junk = junk and now = now, OF F owner i free lim me(2,3,5,6)]) (rule that)
  let ?g = "?f\<lparr>permissions := ps\<rparr>"
  let ?cl = "cl\<lparr>openedFiles := (openedFiles cl)[j := ?g]\<rparr>"
  have jl: "j < length (openedFiles cl)" "descriptor ?f = d"
    using me(2) by (simp_all add: findDescriptor_def first_index_Some)
  have co: "coherent placed stored (openedFiles cl) (cache cl) w u"
    and kb: "cache_books k (cache cl)" "stubReady cl" using me(1) by (simp_all add: client_ok_def)
  have files: "files_ok placed w (openedFiles cl)" using co by (simp add: coherent_def)
  have fa: "openedFiles cla ! i \<in> set (openedFiles cla)" "fname (openedFiles cla ! i) = name"
    using i by (simp_all add: first_index_Some)
  have "coherent placed stored (openedFiles cla) (cache cla) w v" using owner(4) by (simp add: client_ok_def)
  then have lims: "z < LIMIT" if "v name z = Some b" for z b
    using wired.coherentD(3) [OF _ fa(1), of "cache cla" w v z b] fa(2) that by simp
  have "z < LIMIT \<and> knows h (cache cl) (stored w1 (fname h) (stripWidth h) z) z b"
    if h: "h \<in> set (openedFiles cl)" "handed name x n v (fname h) z = Some b" for h z b
  proof -
    from h(2) have z: "fname h = name" "x \<le> z" "z < x + n" "v name z = Some b"
      by (auto simp: handed_def split: if_splits)
    then have "h = ?f" using wired.same_file(2) [OF files h(1), of ?f] jl(1) me(3) by simp
    moreover have "stored w1 name (stripWidth (openedFiles cla ! i)) z = Some b"
      using z by (intro g(2)) (simp_all add: div_le_mono)
    ultimately show ?thesis using me(3,4,7) jl(2) z lims by (simp add: knows_def)
  qed
  then have "coherent placed stored (openedFiles cl) (cache cl) w1 (handed name x n v)"
    using co g(1) by (simp add: coherent_def files_ok_def)
  then have "coherent placed stored (openedFiles ?cl) (cache ?cl) w1 (handed name x n v)"
    using coherent_fkey [OF fkey_update [OF jl(1), of ?g]] by (simp add: fkey_def)
  then have "client_ok placed stored k ?cl w1 (handed name x n v)" using kb by (simp add: client_ok_def)
  then show thesis using that [OF acq] jl(1) me(3) by simp
qed

end
