(* ===== verification/System_Create.thy ===== *)
theory System_Create
  imports System
begin

text \<open>
  \<^verbatim>\<open>CreateFile\<close> of the metadata manager with the \<^verbatim>\<open>CreateFile\<close> handlers of the file servers behind
  it: strip \<open>i\<close> goes to server \<open>i mod 5\<close>, and afterwards every byte of the file is on the
  server a client looks for it.
\<close>

lemma createStripes_append:
  "createStripes fc r (xs @ ys) w = bindR (createStripes fc r xs w) (createStripes fc r ys)"
  by (induction xs arbitrary: w) (auto simp: Let_def bindR_def split: sum.splits)

text \<open>The first \<open>m\<close> strips of a new file exist and are empty; nothing else has happened.\<close>

definition strips_made :: "string \<Rightarrow> uint32 \<Rightarrow> nat \<Rightarrow> World \<Rightarrow> bool" where
  "strips_made n W m w \<longleftrightarrow> (\<forall>j. \<not> lockHeld (wfs w j) \<and> fs_inv (wfs w j) \<and>
     (case fs_files (wfs w j) n of
        None \<Rightarrow> \<forall>i<m. i mod 5 \<noteq> j
      | Some g \<Rightarrow> stripWidth g = W \<and> (\<forall>i<m. i mod 5 = j \<longrightarrow> stripPaths g (int i) \<noteq> None) \<and>
          (\<forall>i p. stripPaths g i = Some p \<longrightarrow> disk (wfs w j) p = Some [])))"

lemma strips_madeD:
  assumes "strips_made n W m w"
  shows "\<not> lockHeld (wfs w j)" "fs_inv (wfs w j)"
    "fs_files (wfs w j) n = None \<Longrightarrow> i < m \<Longrightarrow> i mod 5 \<noteq> j"
    "fs_files (wfs w j) n = Some g \<Longrightarrow> stripWidth g = W"
    "fs_files (wfs w j) n = Some g \<Longrightarrow> i < m \<Longrightarrow> i mod 5 = j \<Longrightarrow> stripPaths g (int i) \<noteq> None"
    "fs_files (wfs w j) n = Some g \<Longrightarrow> stripPaths g q = Some p \<Longrightarrow> disk (wfs w j) p = Some []"
  using spec [OF assms [unfolded strips_made_def], of j] by (auto split: option.splits)

lemma make_strip:
  assumes s: "strips_made n W m w" and m: "m \<le> 2147483647"
  obtains w' where "callCreate (m mod 5) \<lparr>cs_name = n, cs_stripeWidth = W, cs_id = word_of_nat m\<rparr> w = Inr (Status_OK, w')"
    "strips_made n W (Suc m) w'" "wmm w' = wmm w" "wclients w' = wclients w"
proof -
  let ?j = "m mod 5" and ?id = "word_of_nat m :: uint32"
  let ?s = "wfs w ?j" and ?r = "\<lparr>cs_name = n, cs_stripeWidth = W, cs_id = ?id\<rparr>"
  have id: "sint ?id = int m" using m by (subst sint_unat) (simp_all add: INT_MAX_unat unat_of_nat)
  define f where "f = (case fs_files ?s n of None \<Rightarrow> new_FSFile n W | Some f \<Rightarrow> f)"
  define p where "p = stripeAddress (filesDirectory ?s) n ?id"
  define g where "g = f\<lparr>stripPaths := (stripPaths f)(int m \<mapsto> p)\<rparr>"
  define s' where "s' = ?s\<lparr>fs_files := (fs_files ?s)(n \<mapsto> g), disk := (disk ?s)(p \<mapsto> [])\<rparr>"
  have c: "FS_CreateFile ?r ?s = Inr (Status_OK, s')"
    using strips_madeD(1) [OF s] by (simp add: FS_CreateFile_def addStrip_def f_def p_def g_def s'_def id Let_def
        cong: option.case_cong)
  have inv: "fs_inv s'" by (rule FS_CreateFile_inv [OF c strips_madeD(2) [OF s]])
  have w: "stripWidth f = W" "stripPaths f i = Some q \<Longrightarrow> disk ?s q = Some []"
     "i' < m \<Longrightarrow> i' mod 5 = ?j \<Longrightarrow> stripPaths f (int i') \<noteq> None" for i q i'
    using strips_madeD(3-6) [OF s] by (auto simp: f_def new_FSFile_def split: option.splits)
  have "strips_made n W (Suc m) (w\<lparr>wfs := (wfs w)(?j := s')\<rparr>)"
    unfolding strips_made_def
  proof
    fix j
    show "\<not> lockHeld (wfs (w\<lparr>wfs := (wfs w)(?j := s')\<rparr>) j) \<and> fs_inv (wfs (w\<lparr>wfs := (wfs w)(?j := s')\<rparr>) j) \<and>
      (case fs_files (wfs (w\<lparr>wfs := (wfs w)(?j := s')\<rparr>) j) n of None \<Rightarrow> \<forall>i<Suc m. i mod 5 \<noteq> j
       | Some g \<Rightarrow> stripWidth g = W \<and> (\<forall>i<Suc m. i mod 5 = j \<longrightarrow> stripPaths g (int i) \<noteq> None) \<and>
          (\<forall>i p. stripPaths g i = Some p \<longrightarrow> disk (wfs (w\<lparr>wfs := (wfs w)(?j := s')\<rparr>) j) p = Some []))"
    proof (cases "j = ?j")
      case True
      then show ?thesis
        using strips_madeD(1) [OF s] inv w by (auto simp: s'_def g_def less_Suc_eq)
    next
      case False
      then show ?thesis
        using spec [OF s [unfolded strips_made_def], of j] by (auto simp: less_Suc_eq split: option.splits)
    qed
  qed
  then show thesis using that c by (simp add: callCreate_def)
qed

lemma make_strips:
  assumes "strips_made n W 0 w" "m \<le> 2147483647"
  shows "\<exists>w'. createStripes callCreate \<lparr>cf_name = n, cf_stripeWidth = W\<rparr> [0..<m] w = Inr w' \<and>
    strips_made n W m w' \<and> wmm w' = wmm w \<and> wclients w' = wclients w"
  using assms(2)
proof (induction m)
  case 0
  then show ?case using assms(1) by simp
next
  case (Suc m)
  then obtain w1 where w1: "createStripes callCreate \<lparr>cf_name = n, cf_stripeWidth = W\<rparr> [0..<m] w = Inr w1"
    "strips_made n W m w1" "wmm w1 = wmm w" "wclients w1 = wclients w" by auto
  obtain w2 where "callCreate (m mod 5) \<lparr>cs_name = n, cs_stripeWidth = W, cs_id = word_of_nat m\<rparr> w1 = Inr (Status_OK, w2)"
    "strips_made n W (Suc m) w2" "wmm w2 = wmm w1" "wclients w2 = wclients w1"
    using make_strip [OF w1(2)] Suc.prems by auto
  then show ?case using w1 Suc.prems by (simp add: createStripes_append Let_def NUM_FILE_SERVERS_def)
qed

lemma strips_made_placed:
  assumes s: "strips_made n W (unat W) w" and W: "W \<noteq> 0" "W \<le> INT_MAX"
  shows "placed w n W" "stored w n W x = None"
proof -
  have W0: "0 < unat W" using W(1) by (simp add: unat_gt_0)
  have serv: "serves (wfs w (serverOf W y)) n y \<and> map_option stripWidth (fs_files (wfs w (serverOf W y)) n) = Some W" for y
  proof -
    have lt: "y div 1024 mod unat W < unat W" using W0 by simp
    then obtain g where g: "fs_files (wfs w (serverOf W y)) n = Some g"
      using strips_madeD(3) [OF s, of "serverOf W y"] by (cases "fs_files (wfs w (serverOf W y)) n") (auto simp: serverOf_def)
    then show ?thesis
      using strips_madeD(1,4) [OF s] strips_madeD(5) [OF s g lt] W g by (simp add: serves_def stripAt_def serverOf_def)
  qed
  then show "placed w n W" using strips_madeD(2) [OF s] W by (simp add: placed_def)
  show "stored w n W x = None"
    using strips_madeD(6) [OF s, of "serverOf W x"]
    by (auto simp: stored_def fs_has_def fs_content_def split: option.splits)
qed

text \<open>Servers without a trace of the file are ready for it.\<close>

lemma strips_made_0:
  assumes "\<And>j. \<not> lockHeld (wfs w j) \<and> fs_inv (wfs w j) \<and> fs_files (wfs w j) n = None"
  shows "strips_made n W 0 w"
  using assms by (simp add: strips_made_def)

end
