(* ===== verification/Sessions.thy ===== *)
theory Sessions
  imports System_Create MM_Properties
begin

text \<open>
  A client that has the only open descriptor of a file: opening, writing, reading and closing,
  from the C interface down to the native files of the file servers.
\<close>

section \<open>The token of a client without rivals\<close>

abbreviation wholeFile :: Permission where
  "wholeFile \<equiv> new_Permission 0 INT_MAX True"

lemmas token_eval =
  addPermission_def addPermission_new_def lock_if_def Permission_lock_def new_Permission_def INT_MAX_def
  vinsert_def hasPermission_def isShared_def isInclusiveShared_def Permission_unlock_def unlockPermission_def

lemma whole_granted:
  assumes "files m n = Some F" "clientPermissions F = [(me, [])]"
  shows "GetPermission sr me \<lparr>pr_name = n, pr_start = a, pr_end = b, pr_isWrite = wr\<rparr> m w =
    Inr (Status_OK, \<lparr>pp_error = 0, pp_start = 0, pp_end = INT_MAX\<rparr>,
         m\<lparr>files := (files m)(n \<mapsto> F\<lparr>clientPermissions := [(me, [new_Permission 0 INT_MAX wr])]\<rparr>)\<rparr>, w)"
  using assms
  by (simp add: GetPermission_def isOpenedBy_def waitAndGetPermissionFor_def grantedRange_def token_eval Let_def)

lemma whole_covers:
  assumes "x + n \<le> LIMIT"
  shows "hasPermission (word_of_nat x) (word_of_nat (x + n)) wr [wholeFile]"
proof -
  have "\<not> (word_of_nat x :: uint32) < 0" "(word_of_nat (x + n) :: uint32) \<le> 2147483647"
    using assms by (simp_all add: word_le_nat_alt unat_of_nat LIMIT_def del: of_nat_add)
  then show ?thesis by (simp add: token_eval del: of_nat_add)
qed

lemma whole_added:
  "addPermission 0 INT_MAX True [] True = Inr [wholeFile\<lparr>permitHeld := True, locked := True\<rparr>]"
  by (simp add: token_eval)

lemma whole_unlocked:
  assumes "0 < n" "x + n \<le> LIMIT"
  shows "fst (unlockTokens (word_of_nat x) (word_of_nat (x + n)) [wholeFile\<lparr>permitHeld := b, locked := b\<rparr>]) = [wholeFile]"
proof -
  have "\<not> (word_of_nat (x + n) :: uint32) \<le> 0" "\<not> (2147483647 :: uint32) \<le> word_of_nat x"
    using assms by (simp_all add: word_le_nat_alt unat_of_nat LIMIT_def del: of_nat_add word_le_0_iff)
  then show ?thesis by (simp add: token_eval del: of_nat_add)
qed

section \<open>Sessions\<close>

text \<open>
  Client \<open>me\<close> at \<open>ip\<close> has the file of \<open>f\<close> open, the manager's record \<open>F\<close> of it has no other
  client, \<open>ps\<close> are its tokens and \<open>v\<close> the bytes it knows.
\<close>

definition session ::
  "string \<Rightarrow> string \<Rightarrow> (string \<Rightarrow> nat \<Rightarrow> uint8 option) \<Rightarrow> nat \<Rightarrow> Permission list \<Rightarrow> ClientFile \<Rightarrow> MMFile \<Rightarrow> World \<Rightarrow> bool" where
  "session me ip v k ps f F w \<longleftrightarrow>
     (\<exists>cl. wclients w ip = Some cl \<and> client_ok placed stored k cl w v \<and> openedFiles cl = [f]) \<and>
     descriptor f = 1 \<and> permissions f = ps \<and>
     files (wmm w) (fname f) = Some F \<and> fname F = fname f \<and> clientPermissions F = [(me, ps)]"

text \<open>The processes a call of this client leaves alone.\<close>

definition same_others :: "string \<Rightarrow> string \<Rightarrow> World \<Rightarrow> World \<Rightarrow> bool" where
  "same_others ip n w w' \<longleftrightarrow> (\<forall>ip'. ip' \<noteq> ip \<longrightarrow> wclients w' ip' = wclients w ip') \<and>
     (\<forall>n'. n' \<noteq> n \<longrightarrow> files (wmm w') n' = files (wmm w) n') \<and> placed w' = placed w"

lemma same_others_trans: "same_others ip n w w' \<Longrightarrow> same_others ip n w' w'' \<Longrightarrow> same_others ip n w w''"
  by (simp add: same_others_def)

lemma session_acquire:
  assumes s: "session me ip v k ps f F w" and ps: "ps = [] \<or> ps = [wholeFile]" and lim: "x + n \<le> LIMIT"
  obtains cl cl1 w1 b where "wclients w ip = Some cl"
    "acquirePermission (stubsOf junk now me) 1 (word_of_nat x) (word_of_nat (x + n)) True cl w = Inr (int 0, cl1, w1)"
    "client_ok placed stored k cl1 w1 v"
    "openedFiles cl1 = [f\<lparr>permissions := [wholeFile\<lparr>permitHeld := b, locked := b\<rparr>]\<rparr>]"
    "wfs w1 = wfs w" "wclients w1 = wclients w"
    "wmm w1 = (wmm w)\<lparr>files := (files (wmm w))(fname f \<mapsto> F\<lparr>clientPermissions := [(me, [wholeFile])]\<rparr>)\<rparr>"
proof -
  let ?S = "stubsOf junk now me" and ?a = "word_of_nat x :: uint32" and ?b = "word_of_nat (x + n) :: uint32"
  from s obtain cl where cl: "wclients w ip = Some cl" "client_ok placed stored k cl w v" "openedFiles cl = [f]"
    and f: "descriptor f = 1" "permissions f = ps"
    and F: "files (wmm w) (fname f) = Some F" "fname F = fname f" "clientPermissions F = [(me, ps)]"
    by (auto simp: session_def)
  have d: "findDescriptor 1 (openedFiles cl) = Some 0" using cl(3) f(1) by (simp add: findDescriptor_def)
  show thesis
  proof (cases "ps = []")
    case True
    let ?m = "(wmm w)\<lparr>files := (files (wmm w))(fname f \<mapsto> F\<lparr>clientPermissions := [(me, [wholeFile])]\<rparr>)\<rparr>"
    let ?g = "f\<lparr>permissions := [wholeFile\<lparr>permitHeld := True, locked := True\<rparr>]\<rparr>"
    let ?cl = "cl\<lparr>openedFiles := [?g]\<rparr>" and ?w = "w\<lparr>wmm := ?m\<rparr>"
    have "rpc_GetPermission ?S \<lparr>pr_name = fname f, pr_start = ?a, pr_end = ?b, pr_isWrite = True\<rparr> w =
        Inr (Status_OK, \<lparr>pp_error = 0, pp_start = 0, pp_end = INT_MAX\<rparr>, ?w)"
      using whole_granted [of "wmm w" "fname f" F me "callRevoke junk" ?a ?b True w] F True by (simp add: stubsOf_def)
    moreover have "\<not> hasPermission ?a ?b True (permissions f)" using True f(2) by (simp add: hasPermission_def)
    ultimately have "acquirePermission ?S 1 ?a ?b True cl w = Inr (int 0, ?cl, ?w)"
      using d cl(3) f(2) True whole_added by (simp add: acquirePermission_def)
    moreover have "client_ok placed stored k ?cl ?w v"
    proof -
      have "client_ok placed stored k cl ?w v" using cl(2) client_ok_cong [of ?w w k cl v] by simp
      then show ?thesis
        using coherent_fkey [of "[?g]" "[f]" placed stored] cl(3) by (simp add: client_ok_def fkey_def)
    qed
    ultimately show thesis using that [of cl ?cl ?w True] cl(1) by simp
  next
    case False
    then have p: "permissions (openedFiles cl ! 0) = [wholeFile]" using ps cl(3) f(2) by simp
    have "acquirePermission ?S 1 ?a ?b True cl w = Inr (int 0, cl, w)"
      by (rule acquire_held [OF d]) (simp only: p whole_covers [OF lim])
    moreover have "f\<lparr>permissions := [wholeFile\<lparr>permitHeld := False, locked := False\<rparr>]\<rparr> = f"
      using p cl(3) by (cases f) (simp add: new_Permission_def)
    moreover have "F\<lparr>clientPermissions := [(me, [wholeFile])]\<rparr> = F" using F(3) False ps by (cases F) simp
    moreover have "(files (wmm w))(fname f \<mapsto> F) = files (wmm w)" using F(1) by (simp add: fun_upd_idem)
    ultimately show thesis using that [of cl cl w False] cl by simp
  qed
qed

lemma session_write:
  assumes s: "session me ip v k ps f F w" and ps: "ps = [] \<or> ps = [wholeFile]"
    and lim: "0 < n" "x + n \<le> LIMIT" "n \<le> length buf" "k + rounds x n \<le> 1024"
  obtains hit w' f' k' where "sysWrite junk now me ip 1 buf (int n) (int x) w = Inr ((int n, hit), w')"
    "session me ip (vwrite v (fname f) x (take n buf)) k' [wholeFile] f' (F\<lparr>clientPermissions := [(me, [wholeFile])]\<rparr>) w'"
    "k' \<le> k + rounds x n" "fkey f' = fkey f" "hasModified f'" "getSize f' = max (getSize f) (word_of_nat (x + n))"
    "same_others ip (fname f) w w'"
proof -
  let ?S = "stubsOf junk now me"
  obtain cl cl1 w1 b where a: "wclients w ip = Some cl"
    "acquirePermission ?S 1 (word_of_nat x) (word_of_nat (x + n)) True cl w = Inr (int 0, cl1, w1)"
    "client_ok placed stored k cl1 w1 v"
    "openedFiles cl1 = [f\<lparr>permissions := [wholeFile\<lparr>permitHeld := b, locked := b\<rparr>]\<rparr>]"
    "wfs w1 = wfs w" "wclients w1 = wclients w"
    "wmm w1 = (wmm w)\<lparr>files := (files (wmm w))(fname f \<mapsto> F\<lparr>clientPermissions := [(me, [wholeFile])]\<rparr>)\<rparr>"
    by (rule session_acquire [where junk = junk and now = now, OF s ps lim(2)]) (rule that)
  let ?g = "openedFiles cl1 ! 0"
  obtain hit cl2 w2 k2 f2 where wr: "writeFile ?S 1 buf (int n) (int x) cl w = Inr (int n, hit, cl2, w2)"
    "client_ok placed stored k2 cl2 w2 (vwrite v (fname ?g) x (take n buf))" "k2 \<le> k + rounds x n"
    "openedFiles cl2 = (openedFiles cl1)[0 := f2]" "fkey f2 = fkey ?g"
    "permissions f2 = fst (unlockTokens (word_of_nat x) (word_of_nat (x + n)) (permissions ?g))"
    "hasModified f2" "getSize f2 = max (getSize ?g) (word_of_nat (x + n))" "rest w2 = rest w1"
    by (rule wired.writeFile_ok [OF a(2,3) lim(2,3,4)]) (rule that)
  let ?w = "w2\<lparr>wclients := (wclients w2)(ip \<mapsto> cl2)\<rparr>"
  have r: "wmm w2 = wmm w1" "wclients w2 = wclients w1" using wr(9) by (simp_all add: rest_def)
  have f2: "fkey f2 = fkey f" "fname f2 = fname f" using wr(5) a(4) by (simp_all add: fkey_def)
  have p2: "permissions f2 = [wholeFile]" using wr(6) a(4) whole_unlocked [OF lim(1,2)] by simp
  have "sysWrite junk now me ip 1 buf (int n) (int x) w = Inr ((int n, hit), ?w)"
    using a(1) wr(1) by (simp add: sysWrite_def asClient_def pfs_write_def)
  moreover have "client_ok placed stored k2 cl2 ?w (vwrite v (fname f) x (take n buf))"
    using wr(2) a(4) client_ok_cong [of ?w w2] by simp
  then have "session me ip (vwrite v (fname f) x (take n buf)) k2 [wholeFile] f2 (F\<lparr>clientPermissions := [(me, [wholeFile])]\<rparr>) ?w"
    using s wr(4) a(4,7) r f2 p2 by (auto simp: session_def fkey_def)
  moreover have "placed ?w = placed w"
    using wr(9) placed_cong [of ?w w2] placed_cong [OF a(5)] by (simp add: rest_def)
  then have "same_others ip (fname f) w ?w" using a(6,7) r by (simp add: same_others_def)
  moreover have "getSize ?g = getSize f" using a(4) by (simp add: getSize_def)
  ultimately show thesis using that [of hit ?w k2 f2] wr(3,7,8) f2(1) by simp
qed

lemma session_read:
  assumes s: "session me ip v k [wholeFile] f F w" and lim: "0 < n" "x + n \<le> LIMIT" "k + rounds x n \<le> 1024"
  obtains bytes hit w' f' k' where "sysRead junk now me ip 1 (int n) (int x) w = Inr ((int n, bytes, hit), w')"
    "length bytes = n" "\<And>j b. j < n \<Longrightarrow> v (fname f) (x + j) = Some b \<Longrightarrow> bytes ! j = b"
    "session me ip v k' [wholeFile] f' F w'" "k' \<le> k + rounds x n" "fkey f' = fkey f"
    "hasModified f' = hasModified f" "getSize f' = getSize f" "same_others ip (fname f) w w'"
proof -
  let ?S = "stubsOf junk now me"
  from s obtain cl where cl: "wclients w ip = Some cl" "client_ok placed stored k cl w v" "openedFiles cl = [f]"
    and f: "descriptor f = 1" "permissions f = [wholeFile]"
    and F: "files (wmm w) (fname f) = Some F" "fname F = fname f" "clientPermissions F = [(me, [wholeFile])]"
    by (auto simp: session_def)
  have d: "findDescriptor 1 (openedFiles cl) = Some 0" using cl(3) f(1) by (simp add: findDescriptor_def)
  have p: "permissions (openedFiles cl ! 0) = [wholeFile]" using cl(3) f(2) by simp
  have acq: "acquirePermission ?S 1 (word_of_nat x) (word_of_nat (x + n)) False cl w = Inr (int 0, cl, w)"
    by (rule acquire_held [OF d]) (simp only: p whole_covers [OF lim(2)])
  let ?g = "fst (unlockPermission (word_of_nat x) (word_of_nat (x + n)) (openedFiles cl ! 0))"
  obtain bytes hit cl2 w2 k2 where rd: "readFile ?S 1 (int n) (int x) cl w = Inr (int n, bytes, hit, cl2, w2)" "length bytes = n"
    "\<And>j b. j < n \<Longrightarrow> v (fname (openedFiles cl ! 0)) (x + j) = Some b \<Longrightarrow> bytes ! j = b"
    "client_ok placed stored k2 cl2 w2 v" "k2 \<le> k + rounds x n" "openedFiles cl2 = (openedFiles cl)[0 := ?g]"
    "rest w2 = rest w"
    by (rule wired.readFile_ok [OF acq cl(2) lim(2,3)]) (rule that)
  let ?w = "w2\<lparr>wclients := (wclients w2)(ip \<mapsto> cl2)\<rparr>"
  have r: "wmm w2 = wmm w" "wclients w2 = wclients w" "placed w2 = placed w" using rd(7) by (simp_all add: rest_def)
  have g: "fkey ?g = fkey f" "permissions ?g = [wholeFile]" "hasModified ?g = hasModified f" "getSize ?g = getSize f"
    using cl(3) f(2) whole_unlocked [OF lim(1,2), of False] by (simp_all add: fkey_def new_Permission_def)
  have "sysRead junk now me ip 1 (int n) (int x) w = Inr ((int n, bytes, hit), ?w)"
    using cl(1) rd(1) by (simp add: sysRead_def asClient_def pfs_read_def)
  moreover have "client_ok placed stored k2 cl2 ?w v" using rd(4) client_ok_cong [of ?w w2] by simp
  then have "session me ip v k2 [wholeFile] ?g F ?w"
    using rd(6) cl(3) f F g r by (simp add: session_def fkey_def)
  moreover have "same_others ip (fname f) w ?w"
    using r placed_cong [of ?w w2] by (simp add: same_others_def)
  ultimately show thesis using that [of bytes hit ?w k2 ?g] rd(2,3,5) cl(3) g by simp
qed

section \<open>Opening and closing\<close>

text \<open>A file nobody has open; \<open>u\<close> are bytes the servers have.\<close>

definition idle :: "string \<Rightarrow> uint32 \<Rightarrow> (nat \<Rightarrow> uint8 option) \<Rightarrow> MMFile \<Rightarrow> World \<Rightarrow> bool" where
  "idle n W u F w \<longleftrightarrow> placed w n W \<and> (\<forall>z b. u z = Some b \<longrightarrow> z < LIMIT \<and> stored w n W z = Some b) \<and>
     files (wmm w) n = Some F \<and> fname F = n \<and> stripWidth F = W \<and> clientPermissions F = []"

definition only :: "string \<Rightarrow> (nat \<Rightarrow> uint8 option) \<Rightarrow> string \<Rightarrow> nat \<Rightarrow> uint8 option" where
  "only n u = (\<lambda>m. if m = n then u else (\<lambda>_. None))"

definition fresh :: "(nat \<Rightarrow> CacheBlock) \<Rightarrow> PFSClient" where
  "fresh mem = (new_PFSClient mem)\<lparr>stubReady := True\<rparr>"

lemma fresh_cache: "cache_books 0 (cache (fresh mem))" "cmap (cache (fresh mem)) = Map.empty"
  using new_Cache_spec [of mem] by (simp_all add: fresh_def new_PFSClient_def cache_books_def)

lemma session_open:
  assumes i: "idle n W u F w" and cl: "wclients w ip = Some (fresh mem)"
  obtains w' f where "sysOpen junk now me ip n w = Inr (1, w')"
    "session me ip (only n u) 0 [] f (F\<lparr>clientPermissions := [(me, [])]\<rparr>) w'"
    "fkey f = (n, 1, W)" "\<not> hasModified f" "getSize f = getSize F" "same_others ip n w w'"
proof -
  let ?F = "F\<lparr>clientPermissions := [(me, [])]\<rparr>"
  have F: "placed w n W" "files (wmm w) n = Some F" "fname F = n" "stripWidth F = W" "clientPermissions F = []"
    using i by (simp_all add: idle_def)
  define f where "f = setSize (getSize F) \<lparr>fname = n, pst_mtime = pst_mtime F, pst_ctime = pst_ctime F, pst_size = 0,
     stripWidth = W, permissions = [], hasModified = False, descriptor = (1 :: uint32)\<rparr>"
  let ?cl = "(fresh mem)\<lparr>openedFiles := [f], descriptorCount := 1\<rparr>"
  let ?w = "w\<lparr>wmm := (wmm w)\<lparr>files := (files (wmm w))(n \<mapsto> ?F)\<rparr>, wclients := (wclients w)(ip \<mapsto> ?cl)\<rparr>"
  have sz: "ucast (ucast (getSize F) :: uint64) = getSize F" using getSize_setSize [of "getSize F" F] by (simp add: getSize_def setSize_def)
  have f: "fname f = n" "descriptor f = 1" "stripWidth f = W" "permissions f = []" "\<not> hasModified f" "getSize f = getSize F"
    unfolding f_def getSize_setSize by (simp_all add: setSize_def)
  have "rpc_OpenFile (stubsOf junk now me) n w = Inr (Status_OK,
      \<lparr>st_error = 0, st_lastModified = pst_mtime F, st_creationTime = pst_ctime F, st_fileSize = ucast (getSize F), st_stripWidth = W\<rparr>,
      w\<lparr>wmm := (wmm w)\<lparr>files := (files (wmm w))(n \<mapsto> ?F)\<rparr>\<rparr>)"
    using F by (simp add: stubsOf_def OpenFile_def MMFile_open_def getSize_def)
  then have "sysOpen junk now me ip n w = Inr (1, ?w)"
    using cl by (simp add: sysOpen_def asClient_def pfs_open_def openFile_def fresh_def new_PFSClient_def new_ClientFile_def
      Let_def f_def setSize_def sz)
  moreover have co: "coherent placed stored [f] (cache (fresh mem)) w (only n u)"
    using i F(1) f fresh_cache(2) [of mem]
    by (auto simp: coherent_def files_ok_def keys_ok_def knows_def only_def idle_def)
  then have "client_ok placed stored 0 ?cl w (only n u)"
    using fresh_cache(1) [of mem] by (simp add: client_ok_def fresh_def)
  then have "client_ok placed stored 0 ?cl ?w (only n u)" using client_ok_cong [of ?w w] by simp
  then have "session me ip (only n u) 0 [] f ?F ?w" using f F by (simp add: session_def)
  moreover have "same_others ip n w ?w" using placed_cong [of ?w w] by (simp add: same_others_def)
  ultimately show thesis using that [of ?w f] f by (simp add: fkey_def)
qed

text \<open>The manager's record after the close.\<close>

definition closedFile :: "int \<Rightarrow> ClientFile \<Rightarrow> MMFile \<Rightarrow> MMFile" where
  "closedFile now f F =
    (if hasModified f then setSize (max (getSize f) (getSize F)) (F\<lparr>pst_mtime := now\<rparr>) else F)\<lparr>clientPermissions := []\<rparr>"

lemma closedFile_sel:
  "pst_ctime (closedFile now f F) = pst_ctime F" "pst_mtime (closedFile now f F) = (if hasModified f then now else pst_mtime F)"
  "getSize (closedFile now f F) = (if hasModified f then max (getSize f) (getSize F) else getSize F)"
proof -
  have "getSize (G\<lparr>clientPermissions := ps\<rparr>) = getSize G" for G :: MMFile and ps by (simp add: getSize_def)
  then show "getSize (closedFile now f F) = (if hasModified f then max (getSize f) (getSize F) else getSize F)"
    unfolding closedFile_def by simp
qed (simp_all add: closedFile_def setSize_def)

text \<open>All blocks of the file lie under the token and leave the cache.\<close>

lemma whole_blocks: "z < LIMIT \<Longrightarrow> unat (pstart wholeFile) div 1024 \<le> z div 1024 \<and> z div 1024 \<le> unat (pend wholeFile) div 1024"
  by (auto simp: new_Permission_def INT_MAX_def LIMIT_def intro!: div_le_mono)

lemma session_close:
  assumes s: "session me ip v k [wholeFile] f F w" and W: "stripWidth F = stripWidth f"
  obtains w' cl where "sysClose junk now me ip 1 w = Inr (0, w')"
    "idle (fname f) (stripWidth f) (v (fname f)) (closedFile now f F) w'" "same_others ip (fname f) w w'"
    "wclients w' ip = Some cl" "stubReady cl" "openedFiles cl = []" "cmap (cache cl) = Map.empty" "cache_books k (cache cl)"
proof -
  let ?S = "stubsOf junk now me" and ?n = "fname f"
  from s obtain cl where cl: "wclients w ip = Some cl" "client_ok placed stored k cl w v" "openedFiles cl = [f]"
    and f: "descriptor f = 1" "permissions f = [wholeFile]"
    and F: "files (wmm w) ?n = Some F" "fname F = ?n" "clientPermissions F = [(me, [wholeFile])]"
    by (auto simp: session_def)
  have d: "findDescriptor 1 (openedFiles cl) = Some 0" using cl(3) f(1) by (simp add: findDescriptor_def)
  have ps: "\<forall>p\<in>set (permissions (openedFiles cl ! 0)). pend p < 4294966272 \<and> pstart p \<le> pend p"
    using cl(3) f(2) by (simp add: new_Permission_def INT_MAX_def)
  obtain c w1 where e: "\<And>w2. rpc_CloseFile ?S \<lparr>cl_name = fname (openedFiles cl ! 0), cl_hasModified = hasModified (openedFiles cl ! 0),
        cl_size = getSize (openedFiles cl ! 0)\<rparr> w1 = Inr (Status_OK, w2) \<Longrightarrow>
      closeFile ?S 1 cl w = Inr (0, cl\<lparr>openedFiles := verase 0 (0 + 1) (openedFiles cl), cache := c\<rparr>, w2)"
    "coherent placed stored (openedFiles cl) c w1 v" "cache_books k c"
    "\<And>p z. p \<in> set (permissions (openedFiles cl ! 0)) \<Longrightarrow> unat (pstart p) div 1024 \<le> z div 1024 \<Longrightarrow>
       z div 1024 \<le> unat (pend p) div 1024 \<Longrightarrow> cmap c (1, blk z) = None"
    "\<And>p z b. p \<in> set (permissions (openedFiles cl ! 0)) \<Longrightarrow> unat (pstart p) div 1024 \<le> z div 1024 \<Longrightarrow>
       z div 1024 \<le> unat (pend p) div 1024 \<Longrightarrow> v (fname (openedFiles cl ! 0)) z = Some b \<Longrightarrow>
       stored w1 (fname (openedFiles cl ! 0)) (stripWidth (openedFiles cl ! 0)) z = Some b"
    "rest w1 = rest w"
    by (rule wired.closeFile_ok [OF cl(2) d _ ps]) (simp, rule that)
  have r: "wmm w1 = wmm w" "wclients w1 = wclients w" "placed w1 = placed w" using e(6) by (simp_all add: rest_def)
  let ?m = "(wmm w)\<lparr>files := (files (wmm w))(?n \<mapsto> closedFile now f F)\<rparr>"
  have "rpc_CloseFile ?S \<lparr>cl_name = ?n, cl_hasModified = hasModified f, cl_size = getSize f\<rparr> w1 =
      Inr (Status_OK, w1\<lparr>wmm := ?m\<rparr>)"
    using F r by (simp add: stubsOf_def CloseFile_def MMFile_close_def closedFile_def setSize_def)
  with e(1) cl(3) have cf: "closeFile ?S 1 cl w = Inr (0, cl\<lparr>openedFiles := [], cache := c\<rparr>, w1\<lparr>wmm := ?m\<rparr>)"
    by (simp add: verase_def)
  let ?cl = "cl\<lparr>openedFiles := [], cache := c\<rparr>"
  let ?w = "w1\<lparr>wmm := ?m, wclients := (wclients w1)(ip \<mapsto> ?cl)\<rparr>"
  have "sysClose junk now me ip 1 w = Inr (0, ?w)"
    using cl(1) cf by (simp add: sysClose_def asClient_def pfs_close_def)
  moreover have "idle ?n (stripWidth f) (v ?n) (closedFile now f F) ?w"
  proof -
    have st: "stored ?w = stored w1" "placed ?w = placed w" using stored_cong [of ?w w1] placed_cong [of ?w w1] r by simp_all
    have v: "z < LIMIT \<and> stored w1 ?n (stripWidth f) z = Some b" if "v ?n z = Some b" for z b
    proof -
      have z: "z < LIMIT" using wired.coherentD(3) [OF e(2), of f z b] cl(3) that by simp
      then show ?thesis using e(5) [of wholeFile z b] whole_blocks [OF z] cl(3) f(2) that by simp
    qed
    have "placed w ?n (stripWidth f)" using cl(2,3) by (simp add: client_ok_def coherent_def files_ok_def)
    then show ?thesis
      using st v F W by (simp add: idle_def closedFile_def setSize_def)
  qed
  moreover have "cmap c = Map.empty"
  proof
    fix key show "cmap c key = None"
    proof (rule ccontr)
      assume "cmap c key \<noteq> None"
      then obtain dm where "cmap c key = Some dm" by blast
      then have "(\<exists>x<LIMIT. snd key = blk x) \<and> fst key \<in> descriptor ` set (openedFiles cl)"
        using e(2) unfolding coherent_def keys_ok_def by blast
      then obtain z where z: "z < LIMIT" "key = (1, blk z)" using cl(3) f(1) by (cases key) auto
      then show False
        using e(4) [of wholeFile z] whole_blocks [OF z(1)] cl(3) f(2) \<open>cmap c key \<noteq> None\<close> by simp
    qed
  qed
  moreover have "same_others ip ?n w ?w" using r placed_cong [of ?w w1] by (simp add: same_others_def)
  ultimately show thesis using that [of ?w ?cl] e(3) cl(2) by (simp add: client_ok_def)
qed

section \<open>Starting and ending a process\<close>

lemma start_process:
  assumes "wclients w (''0.0.0.0:400'' @ no) = Some (new_PFSClient mem)"
  obtains w' where "sysInitialize junk now me no w = Inr ((), w')" "wclients w' = (wclients w)(''0.0.0.0:400'' @ no \<mapsto> fresh mem)"
    "wfs w' = wfs w" "files (wmm w') = files (wmm w)"
  using assms by (simp add: sysInitialize_def asClient_def initialize_def stubsOf_def ClientStart_def fresh_def)

lemma delete_empty:
  fixes w :: 'w
  assumes "cache_inv c" "cmap c = Map.empty"
  shows "delete_Cache fl (c, w) = Inr w"
proof -
  obtain bs where bs: "\<And>fl u. delete_Cache fl (c, u::'w) = runAll fl bs u"
    "\<forall>b\<in>set bs. cmap c (ckey b) = Some (data b, dirty b) \<and> wf_block b \<and> \<not> clean b"
    by (rule delete_Cache_spec [OF assms(1), where 'a = 'w]) blast
  have "bs = []" using bs(2) assms(2) by (cases bs) auto
  then show ?thesis using bs(1) by simp
qed

lemma end_process:
  assumes "wclients w ip = Some cl" "cmap (cache cl) = Map.empty" "cache_books k (cache cl)"
  shows "sysFinalize junk now me ip w = Inr ((), w)"
proof -
  have "finalize (stubsOf junk now me) cl w = Inr w"
    using assms delete_empty [of "cache cl"] by (simp add: finalize_def cache_books_def)
  moreover have "w\<lparr>wclients := (wclients w)(ip \<mapsto> cl)\<rparr> = w" using assms(1) by (cases w) (simp add: fun_upd_idem)
  ultimately show ?thesis using assms(1) by (simp add: sysFinalize_def asClient_def)
qed

end
