(* ===== verification/Test_Programs.thy ===== *)
theory Test_Programs
  imports Sessions
begin

text \<open>
  The three test programs \<^verbatim>\<open>test1-c1.cpp\<close>, \<^verbatim>\<open>test1-c2.cpp\<close> and \<^verbatim>\<open>test1-c3.cpp\<close>, to be run one after
  the other by three client processes. \<open>inputs\<close> are the native files a program can open, \<open>heap\<close> is what
  \<^verbatim>\<open>malloc\<close>ed memory holds. A program that leaves by \<^verbatim>\<open>exit\<close> yields \<open>None\<close>, one that gets to its
  end the values it prints.
\<close>

section \<open>The programs\<close>

definition ONEKB :: nat where
  "ONEKB = 1024"

text \<open>The pointer behind the last argument is null.\<close>

definition argAt :: "string list \<Rightarrow> nat \<Rightarrow> string result" where
  "argAt argv i = (if i < length argv then Inr (argv ! i) else Inl NullDeref)"

text \<open>\<^verbatim>\<open>strcpy(input_fname, argv[1])\<close> into an array of 20 characters.\<close>

definition copyName :: "string \<Rightarrow> string result" where
  "copyName s = (if length s < 20 then Inr s else Inl OutOfRange)"

text \<open>\<^verbatim>\<open>buf = malloc(size); pread(ifdes, buf, n, off)\<close>; nothing is read when the file could not be opened.\<close>

definition loadBuf :: "(nat \<Rightarrow> uint8) \<Rightarrow> nat \<Rightarrow> uint8 list option \<Rightarrow> nat \<Rightarrow> nat \<Rightarrow> uint8 list" where
  "loadBuf heap sz file n off =
    map (\<lambda>i. case file of
               None \<Rightarrow> heap i
             | Some content \<Rightarrow> if i < n \<and> off + i < length content then content ! (off + i) else heap i) [0..<sz]"

text \<open>\<^verbatim>\<open>initialize(argc, argv)\<close>, the check of \<^verbatim>\<open>argc\<close> and the copy of the name; the address of the client and the name.\<close>

definition startClient ::
  "(nat \<Rightarrow> uint8) \<Rightarrow> int \<Rightarrow> string \<Rightarrow> string list \<Rightarrow> World \<Rightarrow> ((string \<times> string) option \<times> World) result" where
  "startClient junk now me argv w =
    bindR (argAt argv 2) (\<lambda>no.
    bindR (sysInitialize junk now me no w) (\<lambda>(_, w1).
    if length argv < 2 then Inr (None, w1)
    else bindR (copyName (argv ! 1)) (\<lambda>input_fname. Inr (Some (''0.0.0.0:400'' @ no, input_fname), w1))))"

definition test1_c1 ::
  "(nat \<Rightarrow> uint8) \<Rightarrow> int \<Rightarrow> string \<Rightarrow> string list \<Rightarrow> (string \<rightharpoonup> uint8 list) \<Rightarrow> (nat \<Rightarrow> uint8) \<Rightarrow> World \<Rightarrow> (int option \<times> World) result" where
  "test1_c1 junk now me argv inputs heap w =
    bindR (startClient junk now me argv w) (\<lambda>(started, w1).
    case started of None \<Rightarrow> Inr (None, w1) | Some (ip, input_fname) \<Rightarrow>
    let buf = loadBuf heap (5 * ONEKB) (inputs input_fname) (4 * ONEKB) 0 in
    bindR (sysCreate junk now me ip ''pfs_file1'' 3 w1) (\<lambda>(err_value, w2).
    if err_value < 0 then Inr (None, w2)
    else bindR (sysOpen junk now me ip ''pfs_file1'' w2) (\<lambda>(fdes, w3).
    if fdes < 0 then Inr (None, w3)
    else bindR (sysWrite junk now me ip fdes buf (int (4 * ONEKB)) 0 w3) (\<lambda>((err_value, cache_hit), w4).
    bindR (sysClose junk now me ip fdes w4) (\<lambda>(_, w5).
    bindR (sysFinalize junk now me ip w5) (\<lambda>(_, w6). Inr (Some err_value, w6)))))))"

definition test1_c2 ::
  "(nat \<Rightarrow> uint8) \<Rightarrow> int \<Rightarrow> string \<Rightarrow> string list \<Rightarrow> (string \<rightharpoonup> uint8 list) \<Rightarrow> (nat \<Rightarrow> uint8) \<Rightarrow> World \<Rightarrow> (int option \<times> World) result" where
  "test1_c2 junk now me argv inputs heap w =
    bindR (startClient junk now me argv w) (\<lambda>(started, w1).
    case started of None \<Rightarrow> Inr (None, w1) | Some (ip, input_fname) \<Rightarrow>
    let buf = loadBuf heap (5 * ONEKB) (inputs input_fname) (4 * ONEKB) (4 * ONEKB) in
    bindR (sysOpen junk now me ip ''pfs_file1'' w1) (\<lambda>(fdes, w2).
    if fdes < 0 then Inr (None, w2)
    else bindR (sysWrite junk now me ip fdes buf (int (4 * ONEKB)) (int (4 * ONEKB)) w2) (\<lambda>((err_value, cache_hit), w3).
    bindR (sysClose junk now me ip fdes w3) (\<lambda>(_, w4).
    bindR (sysFinalize junk now me ip w4) (\<lambda>(_, w5). Inr (Some err_value, w5))))))"

text \<open>
  The third program prints the times and the size, two counts and the string that starts at \<^verbatim>\<open>buf\<close>,
  into which it has read; \<open>out_buf\<close> is the content of the buffer.
\<close>

record Output =
  out_stat :: "(int \<times> int \<times> uint64) option"
  out_written :: int
  out_read :: int
  out_buf :: "uint8 list"

definition test1_c3 ::
  "(nat \<Rightarrow> uint8) \<Rightarrow> int \<Rightarrow> string \<Rightarrow> string list \<Rightarrow> (string \<rightharpoonup> uint8 list) \<Rightarrow> (nat \<Rightarrow> uint8) \<Rightarrow> World \<Rightarrow> (Output option \<times> World) result" where
  "test1_c3 junk now me argv inputs heap w =
    bindR (startClient junk now me argv w) (\<lambda>(started, w1).
    case started of None \<Rightarrow> Inr (None, w1) | Some (ip, input_fname) \<Rightarrow>
    let buf = loadBuf heap (4 * ONEKB) (inputs input_fname) (3 * ONEKB) (8 * ONEKB) in
    bindR (sysOpen junk now me ip ''pfs_file1'' w1) (\<lambda>(fdes, w2).
    if fdes < 0 then Inr (None, w2)
    else bindR (sysStat junk now me ip fdes w2) (\<lambda>((_, mystat), w3).
    bindR (sysWrite junk now me ip fdes buf (int (3 * ONEKB)) (int (8 * ONEKB)) w3) (\<lambda>((written, _), w4).
    bindR (sysRead junk now me ip fdes (int (2 * ONEKB)) (int ONEKB) w4) (\<lambda>((nread, bytes, _), w5).
    let buf' = bytes @ drop (length bytes) buf in
    bindR (sysClose junk now me ip fdes w5) (\<lambda>(_, w6).
    bindR (sysDelete junk now me ip ''pfs_file1'' w6) (\<lambda>(_, w7).
    bindR (sysFinalize junk now me ip w7) (\<lambda>(_, w8).
      Inr (Some \<lparr>out_stat = mystat, out_written = written, out_read = nread, out_buf = buf'\<rparr>, w8)))))))))"

section \<open>Their parts\<close>

lemma idle_cong:
  "wfs w' = wfs w \<Longrightarrow> files (wmm w') n = files (wmm w) n \<Longrightarrow> idle n W u F w' = idle n W u F w"
  using placed_cong [of w' w] stored_cong [of w' w] by (simp add: idle_def)

lemma loadBuf_length [simp]: "length (loadBuf heap sz file n off) = sz"
  by (simp add: loadBuf_def)

text \<open>The arguments of a test program.\<close>

definition testArgs :: "string \<Rightarrow> string \<Rightarrow> string list \<Rightarrow> bool" where
  "testArgs file no argv \<longleftrightarrow> 3 \<le> length argv \<and> argv ! 1 = file \<and> length file < 20 \<and> argv ! 2 = no"

lemma startClient_ok:
  assumes "testArgs file no argv" "sysInitialize junk now me no w = Inr ((), w1)"
  shows "startClient junk now me argv w = Inr (Some (''0.0.0.0:400'' @ no, file), w1)"
  using assms by (simp add: testArgs_def startClient_def argAt_def copyName_def)

text \<open>Open, write, close and leave.\<close>

lemma write_session:
  assumes i: "idle name W u F w" and cl: "wclients w ip = Some (fresh mem)"
    and lim: "0 < n" "x + n \<le> LIMIT" "n \<le> length buf" "rounds x n \<le> 1024"
  obtains w2 w3 w4 hit F' where "sysOpen junk now me ip name w = Inr (1, w2)"
    "sysWrite junk now me ip 1 buf (int n) (int x) w2 = Inr ((int n, hit), w3)"
    "sysClose junk now me ip 1 w3 = Inr (0, w4)" "sysFinalize junk now me ip w4 = Inr ((), w4)"
    "idle name W (vwrite (only name u) name x (take n buf) name) F' w4" "same_others ip name w w4"
    "pst_ctime F' = pst_ctime F" "pst_mtime F' = now" "getSize F' = max (getSize F) (word_of_nat (x + n))"
proof -
  obtain w2 f where o: "sysOpen junk now me ip name w = Inr (1, w2)"
    "session me ip (only name u) 0 [] f (F\<lparr>clientPermissions := [(me, [])]\<rparr>) w2"
    "fkey f = (name, 1, W)" "\<not> hasModified f" "getSize f = getSize F" "same_others ip name w w2"
    by (rule session_open [OF i cl]) (rule that)
  have f: "fname f = name" "stripWidth f = W" using o(3) by (simp_all add: fkey_def)
  have r: "0 + rounds x n \<le> 1024" using lim(4) by simp
  obtain hit w3 f' k where wr: "sysWrite junk now me ip 1 buf (int n) (int x) w2 = Inr ((int n, hit), w3)"
    "session me ip (vwrite (only name u) (fname f) x (take n buf)) k [wholeFile] f'
       (F\<lparr>clientPermissions := [(me, [])], clientPermissions := [(me, [wholeFile])]\<rparr>) w3"
    "fkey f' = fkey f" "hasModified f'" "getSize f' = max (getSize f) (word_of_nat (x + n))" "same_others ip (fname f) w2 w3"
    by (rule session_write [OF o(2) _ lim(1-3) r]) (simp, rule that)
  have f': "fname f' = name" "stripWidth f' = W" using wr(3) f by (simp_all add: fkey_def)
  let ?F = "F\<lparr>clientPermissions := [(me, [])], clientPermissions := [(me, [wholeFile])]\<rparr>"
  have W: "stripWidth ?F = stripWidth f'" using f' i by (simp add: idle_def)
  obtain w4 cl4 where c: "sysClose junk now me ip 1 w3 = Inr (0, w4)"
    "idle (fname f') (stripWidth f') (vwrite (only name u) (fname f) x (take n buf) (fname f')) (closedFile now f' ?F) w4"
    "same_others ip (fname f') w3 w4" "wclients w4 ip = Some cl4" "cmap (cache cl4) = Map.empty" "cache_books k (cache cl4)"
    by (rule session_close [OF wr(2) W]) (rule that)
  have "getSize ?F = getSize F" by (simp add: getSize_def)
  then have F': "pst_ctime (closedFile now f' ?F) = pst_ctime F" "pst_mtime (closedFile now f' ?F) = now"
    "getSize (closedFile now f' ?F) = max (getSize F) (word_of_nat (x + n))"
    using wr(4,5) o(5) by (simp_all add: closedFile_sel max.commute max.left_commute del: of_nat_add)
  have "same_others ip name w w4"
    by (rule same_others_trans [OF same_others_trans [OF o(6) wr(6) [unfolded f]] c(3) [unfolded f']])
  then show thesis by (rule that [OF o(1) wr(1) c(1) end_process [OF c(4-6)] c(2) [unfolded f f'] _ F'])
qed

text \<open>Creating a file on servers that have never seen it.\<close>

lemma create_idle:
  assumes "wclients w ip = Some (fresh mem)" "files (wmm w) name = None"
    and "\<And>j. \<not> lockHeld (wfs w j) \<and> fs_inv (wfs w j) \<and> fs_files (wfs w j) name = None"
    and W: "W \<noteq> 0" "W \<le> INT_MAX" "word_of_int width = W"
  obtains w' where "sysCreate junk now me ip name width w = Inr (0, w')"
    "idle name W (\<lambda>_. None) (new_MMFile name now now W) w'" "wclients w' = wclients w"
    "\<And>n. n \<noteq> name \<Longrightarrow> files (wmm w') n = files (wmm w) n" "\<And>x. stored w' name W x = None"
proof -
  have "unat W \<le> 2147483647" using W(2) by (simp add: INT_MAX_unat)
  from make_strips [OF strips_made_0 [OF assms(3)] this, of W] obtain w1 where w1:
    "createStripes callCreate \<lparr>cf_name = name, cf_stripeWidth = W\<rparr> [0..<unat W] w = Inr w1"
    "strips_made name W (unat W) w1" "wmm w1 = wmm w" "wclients w1 = wclients w" by blast
  let ?m = "(wmm w)\<lparr>files := (files (wmm w))(name \<mapsto> new_MMFile name now now W)\<rparr>"
  let ?w = "w1\<lparr>wmm := ?m\<rparr>"
  have "rpc_CreateFile (stubsOf junk now me) \<lparr>cf_name = name, cf_stripeWidth = W\<rparr> w = Inr (Status_OK, ?w)"
    using assms(2) w1(1) by (simp add: stubsOf_def CreateFile_def Let_def)
  then have "sysCreate junk now me ip name width w = Inr (0, ?w\<lparr>wclients := (wclients w1)(ip \<mapsto> fresh mem)\<rparr>)"
    using assms(1) W(3)
    by (simp add: sysCreate_def asClient_def pfs_create_def createFile_def fresh_def)
  moreover have "?w\<lparr>wclients := (wclients w1)(ip \<mapsto> fresh mem)\<rparr> = ?w"
    using assms(1) w1(4) by (cases w1) (simp add: fun_upd_idem)
  moreover have "idle name W (\<lambda>_. None) (new_MMFile name now now W) ?w"
    using strips_made_placed(1) [OF w1(2) W(1,2)] placed_cong [of ?w w1] by (simp add: idle_def new_MMFile_def)
  moreover have "stored ?w name W x = None" for x
    using strips_made_placed(2) [OF w1(2) W(1,2)] stored_cong [of ?w w1] by simp
  ultimately show thesis using that [of ?w] w1(4) by simp
qed

lemma rounds_small: "rounds 0 4096 = 4" "rounds 4096 4096 = 4" "rounds 8192 3072 = 3" "rounds 1024 2048 = 2"
  by (simp_all add: rounds_def)

abbreviation testFile :: string where
  "testFile \<equiv> ''pfs_file1''"

lemma c1_run:
  assumes args: "testArgs file no argv" and cl: "wclients w (''0.0.0.0:400'' @ no) = Some (new_PFSClient mem)" and "files (wmm w) testFile = None"
    and "\<And>j. \<not> lockHeld (wfs w j) \<and> fs_inv (wfs w j) \<and> fs_files (wfs w j) testFile = None"
  obtains w' F where "test1_c1 junk now me argv inputs heap w = Inr (Some 4096, w')"
    "idle testFile 3 (vwrite (\<lambda>_ _. None) testFile 0 (take 4096 (loadBuf heap 5120 (inputs file) 4096 0)) testFile) F w'"
    "\<And>ip. ip \<noteq> ''0.0.0.0:400'' @ no \<Longrightarrow> wclients w' ip = wclients w ip"
    "\<And>n. n \<noteq> testFile \<Longrightarrow> files (wmm w') n = files (wmm w) n"
    "pst_ctime F = now" "pst_mtime F = now" "getSize F = 4096"
proof -
  let ?ip = "''0.0.0.0:400'' @ no" and ?buf = "loadBuf heap 5120 (inputs file) 4096 0"
  obtain w1 where w1: "sysInitialize junk now me no w = Inr ((), w1)" "wclients w1 = (wclients w)(?ip \<mapsto> fresh mem)"
    "wfs w1 = wfs w" "files (wmm w1) = files (wmm w)"
    by (rule start_process [OF cl]) (rule that)
  have "wclients w1 ?ip = Some (fresh mem)" "files (wmm w1) testFile = None"
    "\<And>j. \<not> lockHeld (wfs w1 j) \<and> fs_inv (wfs w1 j) \<and> fs_files (wfs w1 j) testFile = None"
    using w1 assms(3,4) by simp_all
  from create_idle [OF this, of 3 3 junk now me] obtain w2 where w2: "sysCreate junk now me ?ip testFile 3 w1 = Inr (0, w2)"
    "idle testFile 3 (\<lambda>_. None) (new_MMFile testFile now now 3) w2" "wclients w2 = wclients w1"
    "\<And>n. n \<noteq> testFile \<Longrightarrow> files (wmm w2) n = files (wmm w1) n"
    by (simp add: INT_MAX_def) blast
  have cl2: "wclients w2 ?ip = Some (fresh mem)" using w2(3) w1(2) by simp
  have lim: "0 < (4096::nat)" "0 + 4096 \<le> LIMIT" "4096 \<le> length ?buf" "rounds 0 4096 \<le> 1024"
    by (simp_all add: LIMIT_def rounds_small)
  obtain w3 w4 w5 hit F where s: "sysOpen junk now me ?ip testFile w2 = Inr (1, w3)"
    "sysWrite junk now me ?ip 1 ?buf (int 4096) (int 0) w3 = Inr ((int 4096, hit), w4)"
    "sysClose junk now me ?ip 1 w4 = Inr (0, w5)" "sysFinalize junk now me ?ip w5 = Inr ((), w5)"
    "idle testFile 3 (vwrite (only testFile (\<lambda>_. None)) testFile 0 (take 4096 ?buf) testFile) F w5"
    "same_others ?ip testFile w2 w5"
    and F: "pst_ctime F = pst_ctime (new_MMFile testFile now now 3)" "pst_mtime F = now"
      "getSize F = max (getSize (new_MMFile testFile now now 3)) (word_of_nat (0 + 4096))"
    by (rule write_session [OF w2(2) cl2 lim]) (rule that)
  have "test1_c1 junk now me argv inputs heap w = Inr (Some 4096, w5)"
    using startClient_ok [OF args w1(1)] w2(1) s(1-4) by (simp add: test1_c1_def ONEKB_def Let_def)
  moreover have "only testFile (\<lambda>_. None) = (\<lambda>_ _. None)" by (auto simp: only_def)
  ultimately show thesis
    using that [of w5 F] s(5,6) F w1(2,4) w2(3,4) by (simp add: same_others_def new_MMFile_def getSize_def)
qed

lemma c2_run:
  assumes args: "testArgs file no argv" and cl: "wclients w (''0.0.0.0:400'' @ no) = Some (new_PFSClient mem)" and i: "idle testFile 3 u F w"
  obtains w' F' where "test1_c2 junk now me argv inputs heap w = Inr (Some 4096, w')"
    "idle testFile 3 (vwrite (only testFile u) testFile 4096 (take 4096 (loadBuf heap 5120 (inputs file) 4096 4096)) testFile) F' w'"
    "\<And>ip. ip \<noteq> ''0.0.0.0:400'' @ no \<Longrightarrow> wclients w' ip = wclients w ip"
    "\<And>n. n \<noteq> testFile \<Longrightarrow> files (wmm w') n = files (wmm w) n"
    "pst_ctime F' = pst_ctime F" "pst_mtime F' = now" "getSize F' = max (getSize F) 8192"
proof -
  let ?ip = "''0.0.0.0:400'' @ no" and ?buf = "loadBuf heap 5120 (inputs file) 4096 4096"
  obtain w1 where w1: "sysInitialize junk now me no w = Inr ((), w1)" "wclients w1 = (wclients w)(?ip \<mapsto> fresh mem)"
    "wfs w1 = wfs w" "files (wmm w1) = files (wmm w)"
    by (rule start_process [OF cl]) (rule that)
  have i1: "idle testFile 3 u F w1" using idle_cong [OF w1(3)] w1(4) i by simp
  have cl1: "wclients w1 ?ip = Some (fresh mem)" using w1(2) by simp
  have lim: "0 < (4096::nat)" "4096 + 4096 \<le> LIMIT" "4096 \<le> length ?buf" "rounds 4096 4096 \<le> 1024"
    by (simp_all add: LIMIT_def rounds_small)
  obtain w2 w3 w4 hit F' where s: "sysOpen junk now me ?ip testFile w1 = Inr (1, w2)"
    "sysWrite junk now me ?ip 1 ?buf (int 4096) (int 4096) w2 = Inr ((int 4096, hit), w3)"
    "sysClose junk now me ?ip 1 w3 = Inr (0, w4)" "sysFinalize junk now me ?ip w4 = Inr ((), w4)"
    "idle testFile 3 (vwrite (only testFile u) testFile 4096 (take 4096 ?buf) testFile) F' w4"
    "same_others ?ip testFile w1 w4"
    "pst_ctime F' = pst_ctime F" "pst_mtime F' = now" "getSize F' = max (getSize F) (word_of_nat (4096 + 4096))"
    by (rule write_session [OF i1 cl1 lim]) (rule that)
  have "test1_c2 junk now me argv inputs heap w = Inr (Some 4096, w4)"
    using startClient_ok [OF args w1(1)] s(1-4) by (simp add: test1_c2_def ONEKB_def Let_def)
  then show thesis using that [of w4 F'] s(5-9) w1(2,4) by (simp add: same_others_def)
qed

lemma session_stat:
  assumes "session me ip v k ps f F w"
  shows "sysStat junk now me ip 1 w = Inr ((0, Some (pst_ctime F, pst_mtime F, ucast (getSize F))), w)"
proof -
  from assms obtain cl where cl: "wclients w ip = Some cl" "stubReady cl" "openedFiles cl = [f]"
    and f: "descriptor f = 1" "files (wmm w) (fname f) = Some F"
    by (auto simp: session_def client_ok_def)
  have "requestName 1 (openedFiles cl) = fname f" using cl(3) f(1) by (simp add: requestName_def findDescriptor_def)
  moreover have "w\<lparr>wclients := (wclients w)(ip \<mapsto> cl)\<rparr> = w" using cl(1) by (cases w) (simp add: fun_upd_idem)
  ultimately show ?thesis
    using cl(1,2) f(2) by (simp add: sysStat_def asClient_def pfs_fstat_def getFileStat_def stubsOf_def GetFileDesc_def new_FileStatReply_def)
qed

lemma delete_idle:
  assumes "idle name W u F w" "wclients w ip = Some cl" "stubReady cl"
  shows "sysDelete junk now me ip name w = Inr (0, w\<lparr>wmm := (wmm w)\<lparr>files := (files (wmm w))(name := None)\<rparr>\<rparr>)"
proof -
  have "w\<lparr>wmm := m, wclients := (wclients w)(ip \<mapsto> cl)\<rparr> = w\<lparr>wmm := m\<rparr>" for m
    using assms(2) by (cases w) (simp add: fun_upd_idem)
  then show ?thesis
    using assms by (simp add: sysDelete_def asClient_def pfs_delete_def deleteFile_def stubsOf_def DeleteFile_def idle_def isOpen_def)
qed

lemma c3_run:
  assumes args: "testArgs file no argv" and cl: "wclients w (''0.0.0.0:400'' @ no) = Some (new_PFSClient mem)" and i: "idle testFile 3 u F w"
    and u: "length bytes = 2048" "\<And>j. j < 2048 \<Longrightarrow> u (1024 + j) = Some (bytes ! j)"
  obtains w' where "test1_c3 junk now me argv inputs heap w =
      Inr (Some \<lparr>out_stat = Some (pst_ctime F, pst_mtime F, ucast (getSize F)), out_written = 3072, out_read = 2048,
                 out_buf = bytes @ drop 2048 (loadBuf heap 4096 (inputs file) 3072 8192)\<rparr>, w')"
    "files (wmm w') = (files (wmm w))(testFile := None)"
proof -
  let ?ip = "''0.0.0.0:400'' @ no" and ?buf = "loadBuf heap 4096 (inputs file) 3072 8192"
  obtain w1 where w1: "sysInitialize junk now me no w = Inr ((), w1)" "wclients w1 = (wclients w)(?ip \<mapsto> fresh mem)"
    "wfs w1 = wfs w" "files (wmm w1) = files (wmm w)"
    by (rule start_process [OF cl]) (rule that)
  have i1: "idle testFile 3 u F w1" using idle_cong [OF w1(3)] w1(4) i by simp
  have cl1: "wclients w1 ?ip = Some (fresh mem)" using w1(2) by simp
  let ?F1 = "F\<lparr>clientPermissions := [(me, [])]\<rparr>"
  obtain w2 f where o: "sysOpen junk now me ?ip testFile w1 = Inr (1, w2)" "session me ?ip (only testFile u) 0 [] f ?F1 w2"
    "fkey f = (testFile, 1, 3)" "same_others ?ip testFile w1 w2"
    by (rule session_open [OF i1 cl1]) (rule that)
  have f: "fname f = testFile" "stripWidth f = 3" using o(3) by (simp_all add: fkey_def)
  have lim: "0 < (3072::nat)" "8192 + 3072 \<le> LIMIT" "3072 \<le> length ?buf" "0 + rounds 8192 3072 \<le> 1024"
    "0 < (2048::nat)" "1024 + 2048 \<le> LIMIT" by (simp_all add: LIMIT_def rounds_small)
  let ?F2 = "?F1\<lparr>clientPermissions := [(me, [wholeFile])]\<rparr>"
  let ?v = "vwrite (only testFile u) (fname f) 8192 (take 3072 ?buf)"
  obtain hit w3 f3 k3 where wr: "sysWrite junk now me ?ip 1 ?buf (int 3072) (int 8192) w2 = Inr ((int 3072, hit), w3)"
    "session me ?ip ?v k3 [wholeFile] f3 ?F2 w3" "k3 \<le> 0 + rounds 8192 3072" "fkey f3 = fkey f" "same_others ?ip (fname f) w2 w3"
    by (rule session_write [OF o(2) _ lim(1-4)]) (simp, rule that)
  have k3: "k3 + rounds 1024 2048 \<le> 1024" using wr(3) by (simp add: rounds_small)
  obtain rb hit' w4 f4 k4 where rd: "sysRead junk now me ?ip 1 (int 2048) (int 1024) w3 = Inr ((int 2048, rb, hit'), w4)"
    "length rb = 2048" "\<And>j b. j < 2048 \<Longrightarrow> ?v (fname f3) (1024 + j) = Some b \<Longrightarrow> rb ! j = b"
    "session me ?ip ?v k4 [wholeFile] f4 ?F2 w4" "fkey f4 = fkey f3" "same_others ?ip (fname f3) w3 w4"
    by (rule session_read [OF wr(2) lim(5,6) k3]) (rule that)
  have f34: "fname f3 = testFile" "fname f4 = testFile" "stripWidth f4 = 3" using wr(4) rd(5) f by (simp_all add: fkey_def)
  have W: "stripWidth ?F2 = stripWidth f4" using f34 i by (simp add: idle_def)
  obtain w5 cl5 where c: "sysClose junk now me ?ip 1 w4 = Inr (0, w5)"
    "idle (fname f4) (stripWidth f4) (?v (fname f4)) (closedFile now f4 ?F2) w5" "same_others ?ip (fname f4) w4 w5"
    "wclients w5 ?ip = Some cl5" "stubReady cl5" "cmap (cache cl5) = Map.empty" "cache_books k4 (cache cl5)"
    by (rule session_close [OF rd(4) W]) (rule that)
  let ?w6 = "w5\<lparr>wmm := (wmm w5)\<lparr>files := (files (wmm w5))(testFile := None)\<rparr>\<rparr>"
  have del: "sysDelete junk now me ?ip testFile w5 = Inr (0, ?w6)"
    using delete_idle [OF c(2) c(4,5)] f34 by simp
  have fin: "sysFinalize junk now me ?ip ?w6 = Inr ((), ?w6)" using end_process [of ?w6 ?ip cl5 k4] c(4,6,7) by simp
  have "rb = bytes"
    using rd(2,3) u f f34 by (intro nth_equalityI) (simp_all add: vwrite_def only_def)
  then have "test1_c3 junk now me argv inputs heap w = Inr (Some \<lparr>out_stat = Some (pst_ctime F, pst_mtime F, ucast (getSize F)),
      out_written = 3072, out_read = 2048, out_buf = bytes @ drop 2048 ?buf\<rparr>, ?w6)"
    using startClient_ok [OF args w1(1)] o(1) session_stat [OF o(2)] wr(1) rd(1) c(1) del fin u(1)
    by (simp add: test1_c3_def ONEKB_def Let_def getSize_def)
  moreover have "same_others ?ip testFile w1 w5"
    using same_others_trans [OF same_others_trans [OF same_others_trans [OF o(4) wr(5) [unfolded f]] rd(6) [unfolded f34]] c(3) [unfolded f34]] .
  then have "files (wmm ?w6) = (files (wmm w))(testFile := None)"
    using w1(4) by (auto simp: same_others_def)
  ultimately show thesis by (rule that)
qed

section \<open>The whole test\<close>

lemma boot_ready:
  "\<not> lockHeld (wfs (boot ips mem) j)" "fs_inv (wfs (boot ips mem) j)" "fs_files (wfs (boot ips mem) j) n = None"
  "files (wmm (boot ips mem)) n = None" "ip \<in> ips \<Longrightarrow> wclients (boot ips mem) ip = Some (new_PFSClient mem)"
proof -
  show "fs_inv (wfs (boot ips mem) j)" unfolding boot_wfs by (rule fs_reachable_inv [OF fs_reachable.init])
qed (simp_all add: boot_def pfs_MM_main_def pfs_file_server_main_def Let_def new_FileServer_def new_MetadataManager_def)

lemma test1_run:
  obtains w1 w2 w3 where
    "test1_c1 junk now1 ''a'' [''test1-c1'', ''input'', ''1''] inputs heap1 (boot {''0.0.0.0:4001'', ''0.0.0.0:4002'', ''0.0.0.0:4003''} mem) = Inr (Some 4096, w1)"
    "test1_c2 junk now2 ''b'' [''test1-c2'', ''input'', ''2''] inputs heap2 w1 = Inr (Some 4096, w2)"
    "test1_c3 junk now3 ''c'' [''test1-c3'', ''input'', ''3''] inputs heap3 w2 =
       Inr (Some \<lparr>out_stat = Some (now1, now2, 8192), out_written = 3072, out_read = 2048,
                  out_buf = take 2048 (drop 1024 (loadBuf heap1 5120 (inputs ''input'') 4096 0)) @
                            drop 2048 (loadBuf heap3 4096 (inputs ''input'') 3072 8192)\<rparr>, w3)"
    "files (wmm w3) = Map.empty"
proof -
  let ?w = "boot {''0.0.0.0:4001'', ''0.0.0.0:4002'', ''0.0.0.0:4003''} mem"
  let ?b1 = "loadBuf heap1 5120 (inputs ''input'') 4096 0" and ?b2 = "loadBuf heap2 5120 (inputs ''input'') 4096 4096"
  let ?u1 = "vwrite (\<lambda>_ _. None) testFile 0 (take 4096 ?b1) testFile"
  let ?u2 = "vwrite (only testFile ?u1) testFile 4096 (take 4096 ?b2) testFile"
  have args: "testArgs ''input'' [c] [p, ''input'', [c]]" for c p by (simp add: testArgs_def)
  have w: "wclients ?w (''0.0.0.0:400'' @ ''1'') = Some (new_PFSClient mem)"
    "\<And>j. \<not> lockHeld (wfs ?w j) \<and> fs_inv (wfs ?w j) \<and> fs_files (wfs ?w j) testFile = None"
    using boot_ready [where mem = mem] by simp_all
  obtain w1 F1 where r1: "test1_c1 junk now1 ''a'' [''test1-c1'', ''input'', ''1''] inputs heap1 ?w = Inr (Some 4096, w1)" "idle testFile 3 ?u1 F1 w1"
    "\<And>ip. ip \<noteq> ''0.0.0.0:400'' @ ''1'' \<Longrightarrow> wclients w1 ip = wclients ?w ip"
    "\<And>n. n \<noteq> testFile \<Longrightarrow> files (wmm w1) n = files (wmm ?w) n" "pst_ctime F1 = now1" "getSize F1 = 4096"
    by (rule c1_run [OF args w(1) boot_ready(4) w(2)]) (rule that)
  have c2: "wclients w1 (''0.0.0.0:400'' @ ''2'') = Some (new_PFSClient mem)" using r1(3) boot_ready(5) by simp
  obtain w2 F2 where r2: "test1_c2 junk now2 ''b'' [''test1-c2'', ''input'', ''2''] inputs heap2 w1 = Inr (Some 4096, w2)" "idle testFile 3 ?u2 F2 w2"
    "\<And>ip. ip \<noteq> ''0.0.0.0:400'' @ ''2'' \<Longrightarrow> wclients w2 ip = wclients w1 ip"
    "\<And>n. n \<noteq> testFile \<Longrightarrow> files (wmm w2) n = files (wmm w1) n"
    "pst_ctime F2 = pst_ctime F1" "pst_mtime F2 = now2" "getSize F2 = max (getSize F1) 8192"
    by (rule c2_run [OF args c2 r1(2)]) (rule that)
  have c3: "wclients w2 (''0.0.0.0:400'' @ ''3'') = Some (new_PFSClient mem)" using r1(3) r2(3) boot_ready(5) by simp
  have u: "?u2 (1024 + j) = Some (take 2048 (drop 1024 ?b1) ! j)" if "j < 2048" for j
    using that by (simp add: vwrite_def only_def)
  obtain w3 where r3: "test1_c3 junk now3 ''c'' [''test1-c3'', ''input'', ''3''] inputs heap3 w2 =
       Inr (Some \<lparr>out_stat = Some (pst_ctime F2, pst_mtime F2, ucast (getSize F2)), out_written = 3072, out_read = 2048,
                  out_buf = take 2048 (drop 1024 ?b1) @ drop 2048 (loadBuf heap3 4096 (inputs ''input'') 3072 8192)\<rparr>, w3)"
    "files (wmm w3) = (files (wmm w2))(testFile := None)"
    by (rule c3_run [OF args c3 r2(2) _ u]) (simp, assumption, rule that)
  have "files (wmm w3) = Map.empty" using r3(2) r2(4) r1(4) boot_ready(4) by fastforce
  moreover have "getSize F2 = 8192" using r2(7) r1(6) by simp
  ultimately show thesis using that [OF r1(1) r2(1)] r3(1) r2(5,6) r1(5) by simp
qed

end
