(* ===== verification/Client_Program.thy ===== *)
theory Client_Program
  imports Test_Programs
begin

text \<open>
  The test program \<^verbatim>\<open>pfs-client.cpp\<close>: it fills the bytes \<open>start\<close> to \<open>end\<close> of a file with a given
  byte and reads them back.
\<close>

section \<open>The program\<close>

text \<open>
  \<^verbatim>\<open>atoi\<close> of the C library: white space, a sign and the digits up to the first other character. The
  behaviour is undefined when the value is not an \<^verbatim>\<open>int\<close>.
\<close>

fun digits :: "int \<Rightarrow> string \<Rightarrow> int" where
  "digits acc [] = acc"
| "digits acc (c # cs) = (if 48 \<le> (of_char c :: int) \<and> (of_char c :: int) \<le> 57 then digits (10 * acc + (of_char c - 48)) cs else acc)"

definition atoi :: "string \<Rightarrow> int result" where
  "atoi s =
    (let t = dropWhile (\<lambda>c. c \<in> {CHR '' '', CHR 0x09, CHR 0x0A, CHR 0x0B, CHR 0x0C, CHR 0x0D}) s;
         v = (case t of
                [] \<Rightarrow> 0
              | c # cs \<Rightarrow> if c = CHR ''-'' then - digits 0 cs else if c = CHR ''+'' then digits 0 cs else digits 0 t)
     in if - (2 ^ 31) \<le> v \<and> v < 2 ^ 31 then Inr v else Inl SignedOverflow)"

text \<open>What the program prints: the result of the create, the two counts and the bytes it read.\<close>

record ClientOutput =
  co_create :: int
  co_written :: int
  co_read :: int
  co_bytes :: "uint8 list"

text \<open>
  \<open>argv\<close> are the arguments, \<open>heap\<close> what memory from \<^verbatim>\<open>new\<close> holds. The names are copied into arrays of
  20 bytes. A negative size gives \<^verbatim>\<open>malloc\<close> nothing to allocate and is a huge \<^verbatim>\<open>size_t\<close> for \<^verbatim>\<open>pfs_write\<close>;
  \<^verbatim>\<open>new char[]\<close> of it throws. A program that leaves by \<^verbatim>\<open>exit\<close> yields \<open>None\<close>.
\<close>

definition pfs_client_main ::
  "(nat \<Rightarrow> uint8) \<Rightarrow> int \<Rightarrow> string \<Rightarrow> string list \<Rightarrow> (nat \<Rightarrow> uint8) \<Rightarrow> World \<Rightarrow> (ClientOutput option \<times> World) result" where
  "pfs_client_main junk now me argv heap w =
    (if length argv < 6 then Inr (None, w)
     else
       bindR (atoi (argv ! 3)) (\<lambda>start.
       bindR (atoi (argv ! 4)) (\<lambda>en.
       let ip = ''0.0.0.0:400'' @ argv ! 2 in
       bindR (sysInitialize junk now me (argv ! 2) w) (\<lambda>(_, w1).
       bindR (copyName (argv ! 1)) (\<lambda>_.
         bindR (if en > 0 then atoi (argv ! 5) else Inr 0) (\<lambda>x.
         let buf = replicate (nat en) (word_of_int x);
             n = en - start
         in if n \<noteq> sint (word_of_int n :: 32 word) then Inl SignedOverflow
         else
           bindR (sysCreate junk now me ip (argv ! 1) 7 w1) (\<lambda>(created, w2).
           bindR (sysOpen junk now me ip (argv ! 1) w2) (\<lambda>(fdes, w3).
           if fdes < 0 then Inr (None, w3)
           else
             bindR (sysWrite junk now me ip fdes buf (n mod 2 ^ 64) start w3) (\<lambda>((written, _), w4).
             if n < 0 then Inl UncaughtException
             else
               bindR (sysRead junk now me ip fdes n start w4) (\<lambda>((nread, bytes, _), w5).
               let out = map (\<lambda>i. if i < length bytes then bytes ! i else heap i) [0..<nat n] in
               bindR (sysClose junk now me ip fdes w5) (\<lambda>(_, w6).
               bindR (sysFinalize junk now me ip w6) (\<lambda>(_, w7).
                 Inr (Some \<lparr>co_create = created, co_written = written, co_read = nread, co_bytes = out\<rparr>, w7)))))))))))))"

section \<open>A run\<close>

text \<open>Creating a file that exists is refused; the program goes on with the file there is.\<close>

lemma create_again:
  assumes "wclients w ip = Some (fresh mem)" "files (wmm w) name = Some F"
  shows "sysCreate junk now me ip name width w = Inr (- 1, w)"
  using assms by (cases w) (simp add: sysCreate_def asClient_def pfs_create_def createFile_def fresh_def stubsOf_def
    CreateFile_def fun_upd_idem errorOf_def status_ok_def Status_OK_def Status_CANCELLED_def)

lemma sint_length:
  fixes n :: nat
  shows "n \<le> LIMIT \<Longrightarrow> sint (word_of_int (int n) :: 32 word) = int n"
  by (simp, subst sint_unat) (simp_all add: INT_MAX_unat unat_of_nat LIMIT_def)

text \<open>The arguments of a run that fills \<open>n\<close> bytes from \<open>x\<close> on with \<open>b\<close>.\<close>

definition fillArgs :: "string \<Rightarrow> string \<Rightarrow> nat \<Rightarrow> nat \<Rightarrow> int \<Rightarrow> string list \<Rightarrow> bool" where
  "fillArgs name no x n b argv \<longleftrightarrow> 6 \<le> length argv \<and> argv ! 1 = name \<and> length name < 20 \<and> argv ! 2 = no \<and>
     atoi (argv ! 3) = Inr (int x) \<and> atoi (argv ! 4) = Inr (int (x + n)) \<and> atoi (argv ! 5) = Inr b \<and>
     0 < n \<and> x + n \<le> LIMIT \<and> 2 * rounds x n \<le> 1024"

lemma client_run:
  assumes args: "fillArgs name no x n b argv" and ip: "ip = ''0.0.0.0:400'' @ no"
    and w1: "sysInitialize junk now me no w = Inr ((), w1)"
    and w2: "sysCreate junk now me ip name 7 w1 = Inr (r, w2)"
    and i: "idle name W u F w2" and cl: "wclients w2 ip = Some (fresh mem)"
  obtains w' F' where "pfs_client_main junk now me argv heap w =
      Inr (Some \<lparr>co_create = r, co_written = int n, co_read = int n, co_bytes = replicate n (word_of_int b)\<rparr>, w')"
    "idle name W (vwrite (only name u) name x (replicate n (word_of_int b)) name) F' w'"
    "same_others ip name w2 w'" "pst_ctime F' = pst_ctime F" "pst_mtime F' = now"
    "getSize F' = max (getSize F) (word_of_nat (x + n))"
proof -
  have argv: "6 \<le> length argv" "argv ! 1 = name" "length name < 20" "argv ! 2 = no" "atoi (argv ! 3) = Inr (int x)"
      "atoi (argv ! 4) = Inr (int (x + n))" "atoi (argv ! 5) = Inr b"
    and lim: "0 < n" "x + n \<le> LIMIT" "2 * rounds x n \<le> 1024" using args by (simp_all add: fillArgs_def)
  let ?buf = "replicate (x + n) (word_of_int b :: uint8)"
  let ?out = "replicate n (word_of_int b :: uint8)"
  have tk: "take n ?buf = ?out" by (simp add: min_def)
  obtain w3 f where o: "sysOpen junk now me ip name w2 = Inr (1, w3)"
    "session me ip (only name u) 0 [] f (F\<lparr>clientPermissions := [(me, [])]\<rparr>) w3"
    "fkey f = (name, 1, W)" "\<not> hasModified f" "getSize f = getSize F" "same_others ip name w2 w3"
    by (rule session_open [OF i cl]) (rule that)
  have f: "fname f = name" "stripWidth f = W" using o(3) by (simp_all add: fkey_def)
  have k: "0 + rounds x n \<le> 1024" "n \<le> length ?buf" using lim(3) by simp_all
  let ?F = "F\<lparr>clientPermissions := [(me, [])], clientPermissions := [(me, [wholeFile])]\<rparr>"
  let ?v = "vwrite (only name u) (fname f) x (take n ?buf)"
  obtain hit w4 f4 k4 where wr: "sysWrite junk now me ip 1 ?buf (int n) (int x) w3 = Inr ((int n, hit), w4)"
    "session me ip ?v k4 [wholeFile] f4 ?F w4" "k4 \<le> 0 + rounds x n" "fkey f4 = fkey f" "hasModified f4"
    "getSize f4 = max (getSize f) (word_of_nat (x + n))" "same_others ip (fname f) w3 w4"
    by (rule session_write [OF o(2) _ lim(1,2) k(2,1)]) (simp, rule that)
  have k4: "k4 + rounds x n \<le> 1024" using wr(3) lim(3) by simp
  have f4: "fname f4 = name" using wr(4) f by (simp add: fkey_def)
  obtain bytes hit' w5 f5 k5 where rd: "sysRead junk now me ip 1 (int n) (int x) w4 = Inr ((int n, bytes, hit'), w5)"
    "length bytes = n" "\<And>j b. j < n \<Longrightarrow> ?v (fname f4) (x + j) = Some b \<Longrightarrow> bytes ! j = b"
    "session me ip ?v k5 [wholeFile] f5 ?F w5" "fkey f5 = fkey f4" "hasModified f5 = hasModified f4" "getSize f5 = getSize f4"
    "same_others ip (fname f4) w4 w5"
    by (rule session_read [OF wr(2) lim(1,2) k4]) (rule that)
  have f5: "fname f5 = name" "stripWidth f5 = W" using rd(5) wr(4) f by (simp_all add: fkey_def)
  have W: "stripWidth ?F = stripWidth f5" using f5 i by (simp add: idle_def)
  obtain w6 cl6 where c: "sysClose junk now me ip 1 w5 = Inr (0, w6)"
    "idle (fname f5) (stripWidth f5) (?v (fname f5)) (closedFile now f5 ?F) w6" "same_others ip (fname f5) w5 w6"
    "wclients w6 ip = Some cl6" "cmap (cache cl6) = Map.empty" "cache_books k5 (cache cl6)"
    by (rule session_close [OF rd(4) W]) (rule that)
  have "bytes = ?out" using rd(2,3) f f4 by (intro nth_equalityI) (simp_all add: vwrite_def)
  then have out: "map (\<lambda>i. if i < length bytes then bytes ! i else heap i) [0..<n] = ?out"
    by (intro nth_equalityI) simp_all
  have n: "sint (word_of_int (int n) :: 32 word) = int n" "int n mod 2 ^ 64 = int n"
    using sint_length [of n] lim(2) by (simp_all add: LIMIT_def)
  have "pfs_client_main junk now me argv heap w =
      Inr (Some \<lparr>co_create = r, co_written = int n, co_read = int n, co_bytes = ?out\<rparr>, w6)"
    using argv lim(1) w1 w2 o(1) wr(1) rd(1) c(1) end_process [OF c(4-6)] out n
    by (simp add: pfs_client_main_def copyName_def Let_def ip nat_int_add)
  moreover have "getSize ?F = getSize F" by (simp add: getSize_def)
  then have F': "pst_ctime (closedFile now f5 ?F) = pst_ctime F" "pst_mtime (closedFile now f5 ?F) = now"
    "getSize (closedFile now f5 ?F) = max (getSize F) (word_of_nat (x + n))"
    using wr(5,6) rd(6,7) o(5) by (simp_all add: closedFile_sel max.commute max.left_commute del: of_nat_add)
  moreover have "same_others ip name w2 w6"
    using same_others_trans [OF same_others_trans [OF same_others_trans [OF o(6) wr(7) [unfolded f]] rd(8) [unfolded f4]] c(3) [unfolded f5]] .
  ultimately show thesis using that c(2) unfolding tk f f5 by blast
qed

text \<open>The first run of all creates the file; a later one finds it.\<close>

lemma client_first:
  assumes args: "fillArgs name no x n b argv" and cl: "wclients w (''0.0.0.0:400'' @ no) = Some (new_PFSClient mem)"
    and "files (wmm w) name = None"
    and "\<And>j. \<not> lockHeld (wfs w j) \<and> fs_inv (wfs w j) \<and> fs_files (wfs w j) name = None"
  obtains w' F' where "pfs_client_main junk now me argv heap w =
      Inr (Some \<lparr>co_create = 0, co_written = int n, co_read = int n, co_bytes = replicate n (word_of_int b)\<rparr>, w')"
    "idle name 7 (vwrite (\<lambda>_ _. None) name x (replicate n (word_of_int b)) name) F' w'"
    "\<And>ip. ip \<noteq> ''0.0.0.0:400'' @ no \<Longrightarrow> wclients w' ip = wclients w ip" "getSize F' = word_of_nat (x + n)"
proof -
  let ?ip = "''0.0.0.0:400'' @ no"
  obtain w1 where w1: "sysInitialize junk now me no w = Inr ((), w1)" "wclients w1 = (wclients w)(?ip \<mapsto> fresh mem)"
    "wfs w1 = wfs w" "files (wmm w1) = files (wmm w)"
    by (rule start_process [OF cl]) (rule that)
  have "wclients w1 ?ip = Some (fresh mem)" "files (wmm w1) name = None"
    "\<And>j. \<not> lockHeld (wfs w1 j) \<and> fs_inv (wfs w1 j) \<and> fs_files (wfs w1 j) name = None"
    using w1 assms(3,4) by simp_all
  from create_idle [OF this, of 7 7 junk now me] obtain w2 where w2: "sysCreate junk now me ?ip name 7 w1 = Inr (0, w2)"
    "idle name 7 (\<lambda>_. None) (new_MMFile name now now 7) w2" "wclients w2 = wclients w1"
    by (simp add: INT_MAX_def) blast
  have cl2: "wclients w2 ?ip = Some (fresh mem)" using w2(3) w1(2) by simp
  obtain w' F' where r: "pfs_client_main junk now me argv heap w =
      Inr (Some \<lparr>co_create = 0, co_written = int n, co_read = int n, co_bytes = replicate n (word_of_int b)\<rparr>, w')"
    "idle name 7 (vwrite (only name (\<lambda>_. None)) name x (replicate n (word_of_int b)) name) F' w'"
    "same_others ?ip name w2 w'" "getSize F' = max (getSize (new_MMFile name now now 7)) (word_of_nat (x + n))"
    by (rule client_run [OF args refl w1(1) w2(1,2) cl2]) (rule that)
  have "only name (\<lambda>_. None) = (\<lambda>_ _. None)" by (auto simp: only_def)
  moreover have "getSize (new_MMFile name now now 7) = 0" by (simp add: new_MMFile_def getSize_def)
  ultimately show thesis using that [of w' F'] r w1(2) w2(3) by (simp add: same_others_def del: of_nat_add)
qed

lemma client_next:
  assumes args: "fillArgs name no x n b argv" and cl: "wclients w (''0.0.0.0:400'' @ no) = Some (new_PFSClient mem)"
    and i: "idle name W u F w"
  obtains w' F' where "pfs_client_main junk now me argv heap w =
      Inr (Some \<lparr>co_create = - 1, co_written = int n, co_read = int n, co_bytes = replicate n (word_of_int b)\<rparr>, w')"
    "idle name W (vwrite (only name u) name x (replicate n (word_of_int b)) name) F' w'"
    "\<And>ip. ip \<noteq> ''0.0.0.0:400'' @ no \<Longrightarrow> wclients w' ip = wclients w ip"
    "getSize F' = max (getSize F) (word_of_nat (x + n))"
proof -
  let ?ip = "''0.0.0.0:400'' @ no"
  obtain w1 where w1: "sysInitialize junk now me no w = Inr ((), w1)" "wclients w1 = (wclients w)(?ip \<mapsto> fresh mem)"
    "wfs w1 = wfs w" "files (wmm w1) = files (wmm w)"
    by (rule start_process [OF cl]) (rule that)
  have i1: "idle name W u F w1" using idle_cong [OF w1(3)] w1(4) i by simp
  have cl1: "wclients w1 ?ip = Some (fresh mem)" using w1(2) by simp
  have cr: "sysCreate junk now me ?ip name 7 w1 = Inr (- 1, w1)" using create_again [OF cl1] i1 by (simp add: idle_def)
  obtain w' F' where r: "pfs_client_main junk now me argv heap w =
      Inr (Some \<lparr>co_create = - 1, co_written = int n, co_read = int n, co_bytes = replicate n (word_of_int b)\<rparr>, w')"
    "idle name W (vwrite (only name u) name x (replicate n (word_of_int b)) name) F' w'"
    "same_others ?ip name w1 w'" "getSize F' = max (getSize F) (word_of_nat (x + n))"
    by (rule client_run [OF args refl w1(1) cr i1 cl1]) (rule that)
  then show thesis using that [of w' F'] w1(2) by (simp add: same_others_def del: of_nat_add)
qed

end
