(* ===== verification/System_Properties.thy ===== *)
theory System_Properties
  imports Cache_Properties System_Share Client_Program
begin

text \<open>
  The properties of the system as a whole: the client library, the metadata manager and the file
  servers, with the real handlers behind every call.
\<close>

section \<open>A client that has written three bytes\<close>

text \<open>A state of the system for the witnesses: a file of width 3 with one client, which wrote to it.\<close>

abbreviation demoIp :: string where
  "demoIp \<equiv> ''0.0.0.0:4001''"

definition demoView :: "string \<Rightarrow> nat \<Rightarrow> uint8 option" where
  "demoView = vwrite (\<lambda>_ _. None) ''f'' 0 [1, 2, 3]"

lemma rounds_demo: "rounds 0 3 = 1"
  by (simp add: rounds_def)

lemma demo_file:
  obtains w where "idle ''f'' 3 (\<lambda>_. None) (new_MMFile ''f'' 5 5 3) w" "wclients w demoIp = Some (fresh demo_mem)"
    "files (wmm w) ''g'' = None"
proof -
  let ?w = "boot {demoIp} demo_mem"
  have cl: "wclients ?w (''0.0.0.0:400'' @ ''1'') = Some (new_PFSClient demo_mem)" using boot_ready(5) by simp
  obtain w1 where w1: "sysInitialize (\<lambda>_. 0) 5 ''a'' ''1'' ?w = Inr ((), w1)"
    "wclients w1 = (wclients ?w)(''0.0.0.0:400'' @ ''1'' \<mapsto> fresh demo_mem)" "wfs w1 = wfs ?w" "files (wmm w1) = files (wmm ?w)"
    by (rule start_process [OF cl]) (rule that)
  have pre: "wclients w1 demoIp = Some (fresh demo_mem)" "files (wmm w1) ''f'' = None"
    "\<And>j. \<not> lockHeld (wfs w1 j) \<and> fs_inv (wfs w1 j) \<and> fs_files (wfs w1 j) ''f'' = None"
    using w1 boot_ready by simp_all
  have W: "(3 :: uint32) \<noteq> 0" "(3 :: uint32) \<le> INT_MAX" "word_of_int 3 = (3 :: uint32)" by (simp_all add: INT_MAX_def)
  obtain w2 where w2: "idle ''f'' 3 (\<lambda>_. None) (new_MMFile ''f'' 5 5 3) w2" "wclients w2 = wclients w1"
    "\<And>n. n \<noteq> ''f'' \<Longrightarrow> files (wmm w2) n = files (wmm w1) n"
    by (rule create_idle [where junk = "\<lambda>_. 0" and now = 5 and me = "''a''", OF pre W]) (rule that)
  show thesis using w2 w1(4) pre(1) boot_ready(4) by (intro that [of w2]) simp_all
qed

lemma demo_session:
  obtains w f F k where "session ''a'' demoIp demoView k [wholeFile] f F w" "k \<le> 1"
    "fname f = ''f''" "descriptor f = 1" "stripWidth f = 3" "files (wmm w) ''g'' = None"
proof -
  obtain w where w: "idle ''f'' 3 (\<lambda>_. None) (new_MMFile ''f'' 5 5 3) w" "wclients w demoIp = Some (fresh demo_mem)"
    "files (wmm w) ''g'' = None" by (rule demo_file)
  obtain w1 f where o: "session ''a'' demoIp (only ''f'' (\<lambda>_. None)) 0 [] f ((new_MMFile ''f'' 5 5 3)\<lparr>clientPermissions := [(''a'', [])]\<rparr>) w1"
    "fkey f = (''f'', 1, 3)" "same_others demoIp ''f'' w w1"
    by (rule session_open [where junk = "\<lambda>_. 0" and now = 5, OF w(1,2)]) (rule that)
  have lim: "0 < (3::nat)" "0 + 3 \<le> LIMIT" "3 \<le> length [1, 2, 3 :: uint8]" "0 + rounds 0 3 \<le> 1024"
    by (simp_all add: LIMIT_def rounds_demo)
  obtain w2 f' F' k where s: "session ''a'' demoIp (vwrite (only ''f'' (\<lambda>_. None)) (fname f) 0 (take 3 [1, 2, 3])) k [wholeFile] f' F' w2"
    "k \<le> 0 + rounds 0 3" "fkey f' = fkey f" "same_others demoIp (fname f) w1 w2"
    by (rule session_write [where junk = "\<lambda>_. 0" and now = 5, OF o(1) _ lim]) (simp, rule that)
  have "only ''f'' (\<lambda>_. None) = (\<lambda>_ _. None)" by (auto simp: only_def)
  then show thesis
    using s o(2,3) w(3) by (intro that [of k f' F' w2]) (simp_all add: fkey_def demoView_def rounds_demo same_others_def)
qed

lemma demo_client:
  obtains w cl k where "wclients w demoIp = Some cl" "client_ok placed stored k cl w demoView" "k \<le> 1"
    "findDescriptor 1 (openedFiles cl) = Some 0" "fname (openedFiles cl ! 0) = ''f''" "stripWidth (openedFiles cl ! 0) = 3"
    "permissions (openedFiles cl ! 0) = [wholeFile]" "length (openedFiles cl) = 1"
proof -
  obtain w f F k where s: "session ''a'' demoIp demoView k [wholeFile] f F w" "k \<le> 1"
    "fname f = ''f''" "descriptor f = 1" "stripWidth f = 3"
    by (rule demo_session)
  then obtain cl where "wclients w demoIp = Some cl" "client_ok placed stored k cl w demoView" "openedFiles cl = [f]"
    "permissions f = [wholeFile]" by (auto simp: session_def)
  then show thesis using that [of w cl k] s by (simp add: findDescriptor_def)
qed

section \<open>The client library on the file servers\<close>

text \<open>
  C7. When \<^verbatim>\<open>pfs_create\<close> returns 0 for a name the servers do not know, every byte of the new file
  has its strip on the file server that the client library asks for it, with the width the client
  uses, and no byte is stored yet.
\<close>

theorem created_file_is_placed:
  assumes "wclients w ip = Some (fresh mem)" "files (wmm w) name = None"
    and "\<forall>j. \<not> lockHeld (wfs w j) \<and> fs_inv (wfs w j) \<and> fs_files (wfs w j) name = None"
    and "0 < width" "width \<le> 2147483647"
  shows "\<exists>w'. sysCreate junk now me ip name width w = Inr (0, w') \<and>
    (\<forall>f x. stripWidth f = word_of_int width \<and> x < LIMIT \<longrightarrow>
       (\<exists>j<5. fileServerIndex (blk x) f = Inr j \<and> serves (wfs w' j) name x) \<and> stored w' name (word_of_int width) x = None)"
proof -
  let ?W = "word_of_int width :: uint32"
  have u: "uint ?W = width" using assms(4,5) by (simp add: uint_word_of_int_eq take_bit_int_eq_self)
  then have W: "?W \<noteq> 0" "?W \<le> INT_MAX" using assms(4,5) by (auto simp: INT_MAX_def word_le_def)
  obtain w' where w': "sysCreate junk now me ip name width w = Inr (0, w')"
    "idle name ?W (\<lambda>_. None) (new_MMFile name now now ?W) w'" "\<And>x. stored w' name ?W x = None"
    by (rule create_idle [OF assms(1,2) spec [OF assms(3)] W refl]) (rule that)
  have "fileServerIndex (blk x) f = Inr (serverOf ?W x) \<and> serves (wfs w' (serverOf ?W x)) name x"
    if "stripWidth f = ?W" "x < LIMIT" for f x
    using that w'(2) W(1) fileServerIndex_blk [of x f] by (simp add: idle_def placed_def serverOf_def)
  then show ?thesis using w'(1,3) serverOf_less by blast
qed

theorem created_file_is_placed_witness:
  "\<exists>w'. sysCreate (\<lambda>_. 0) 5 ''a'' demoIp ''f'' 3 ((boot {} demo_mem)\<lparr>wclients := [demoIp \<mapsto> fresh demo_mem]\<rparr>) = Inr (0, w')"
proof -
  have "\<forall>j. \<not> lockHeld (wfs (boot {} demo_mem) j) \<and> fs_inv (wfs (boot {} demo_mem) j) \<and> fs_files (wfs (boot {} demo_mem) j) ''f'' = None"
    using boot_ready by blast
  then have "\<exists>w'. sysCreate (\<lambda>_. 0) 5 ''a'' demoIp ''f'' 3 ((boot {} demo_mem)\<lparr>wclients := [demoIp \<mapsto> fresh demo_mem]\<rparr>) = Inr (0, w') \<and>
      (\<forall>f x. stripWidth f = word_of_int 3 \<and> x < LIMIT \<longrightarrow>
        (\<exists>j<5. fileServerIndex (blk x) f = Inr j \<and> serves (wfs w' j) ''f'' x) \<and> stored w' ''f'' (word_of_int 3) x = None)"
    by (intro created_file_is_placed [where mem = demo_mem]) (simp_all add: boot_ready(4))
  then show ?thesis by blast
qed

text \<open>
  C4. A read of a range for which \<^verbatim>\<open>acquirePermission\<close> succeeded returns as many bytes as were
  asked for; each of them that the client knows, from its cache or from the file servers, has the
  value it knows, and the view of the client stays the same.
\<close>

theorem readFile_refines:
  assumes "acquirePermission (stubsOf junk now me) d (word_of_nat x) (word_of_nat (x + n)) False cl w = Inr (int i, cl1, w1)"
    and "client_ok placed stored k cl1 w1 v" "x + n \<le> LIMIT" "k + rounds x n \<le> 1024"
  shows "\<exists>bytes hit cl2 w2 k2. readFile (stubsOf junk now me) d (int n) (int x) cl w = Inr (int n, bytes, hit, cl2, w2) \<and>
    length bytes = n \<and> (\<forall>j<n. \<forall>b. v (fname (openedFiles cl1 ! i)) (x + j) = Some b \<longrightarrow> bytes ! j = b) \<and>
    client_ok placed stored k2 cl2 w2 v \<and> k2 \<le> k + rounds x n \<and> stored w2 = stored w1"
proof -
  obtain bytes hit cl2 w2 k2 where r: "readFile (stubsOf junk now me) d (int n) (int x) cl w = Inr (int n, bytes, hit, cl2, w2)"
    "length bytes = n" "\<And>j b. j < n \<Longrightarrow> v (fname (openedFiles cl1 ! i)) (x + j) = Some b \<Longrightarrow> bytes ! j = b"
    "client_ok placed stored k2 cl2 w2 v" "k2 \<le> k + rounds x n" "stored w2 = stored w1"
    by (rule wired.readFile_ok [OF assms]) (rule that)
  then show ?thesis by blast
qed

theorem readFile_refines_witness:
  "\<exists>cl w cl2 w2 hit. readFile (stubsOf (\<lambda>_. 0) 5 ''a'') 1 3 0 cl w = Inr (3, [1, 2, 3], hit, cl2, w2)"
proof -
  obtain w cl k where c: "client_ok placed stored k cl w demoView" "k \<le> 1"
    "findDescriptor 1 (openedFiles cl) = Some 0" "fname (openedFiles cl ! 0) = ''f''"
    "permissions (openedFiles cl ! 0) = [wholeFile]"
    by (rule demo_client)
  have "hasPermission (word_of_nat 0) (word_of_nat (0 + 3)) False (permissions (openedFiles cl ! 0))"
    unfolding c(5) by (rule whole_covers) (simp add: LIMIT_def)
  from readFile_refines [OF acquire_held [OF c(3) this, of "stubsOf (\<lambda>_. 0) 5 ''a''" w] c(1)] obtain bytes hit cl2 w2
    where r: "readFile (stubsOf (\<lambda>_. 0) 5 ''a'') 1 (int 3) (int 0) cl w = Inr (int 3, bytes, hit, cl2, w2)" "length bytes = 3"
      "\<forall>j<3. \<forall>b. demoView (fname (openedFiles cl ! 0)) (0 + j) = Some b \<longrightarrow> bytes ! j = b"
    using c(2) by (auto simp: LIMIT_def rounds_demo)
  have "bytes = [1, 2, 3]"
    using r(2,3) c(4) by (intro nth_equalityI) (auto simp: demoView_def vwrite_def)
  then have "readFile (stubsOf (\<lambda>_. 0) 5 ''a'') 1 3 0 cl w = Inr (3, [1, 2, 3], hit, cl2, w2)" using r(1) by simp
  then show ?thesis by blast
qed

text \<open>
  C5. A write of a range for which \<^verbatim>\<open>acquirePermission\<close> succeeded returns the number of bytes,
  changes what the client knows of the file to the new bytes in exactly that range, and raises the
  recorded size to the end of the range. The bytes stay in the cache: the file servers are as before.
\<close>

theorem writeFile_refines:
  assumes "acquirePermission (stubsOf junk now me) d (word_of_nat x) (word_of_nat (x + n)) True cl w = Inr (int i, cl1, w1)"
    and "client_ok placed stored k cl1 w1 v" "x + n \<le> LIMIT" "n \<le> length buf" "k + rounds x n \<le> 1024"
  shows "\<exists>hit cl2 w2 k2. writeFile (stubsOf junk now me) d buf (int n) (int x) cl w = Inr (int n, hit, cl2, w2) \<and>
    client_ok placed stored k2 cl2 w2 (vwrite v (fname (openedFiles cl1 ! i)) x (take n buf)) \<and> k2 \<le> k + rounds x n \<and>
    hasModified (openedFiles cl2 ! i) \<and>
    getSize (openedFiles cl2 ! i) = max (getSize (openedFiles cl1 ! i)) (word_of_nat (x + n)) \<and> stored w2 = stored w1"
proof -
  obtain hit cl2 w2 k2 f2 where r: "writeFile (stubsOf junk now me) d buf (int n) (int x) cl w = Inr (int n, hit, cl2, w2)"
    "client_ok placed stored k2 cl2 w2 (vwrite v (fname (openedFiles cl1 ! i)) x (take n buf))" "k2 \<le> k + rounds x n"
    "openedFiles cl2 = (openedFiles cl1)[i := f2]" "hasModified f2"
    "getSize f2 = max (getSize (openedFiles cl1 ! i)) (word_of_nat (x + n))" "stored w2 = stored w1"
    by (rule wired.writeFile_ok [OF assms]) (rule that)
  then have "openedFiles cl2 ! i = f2" using acquire_result(1) [OF assms(1)] by simp
  then show ?thesis using r by (intro exI [of _ hit] exI [of _ cl2] exI [of _ w2] exI [of _ k2]) (simp del: of_nat_add)
qed

theorem writeFile_refines_witness:
  "\<exists>cl w hit cl2 w2 k. writeFile (stubsOf (\<lambda>_. 0) 5 ''a'') 1 [9, 9] 2 1022 cl w = Inr (2, hit, cl2, w2) \<and>
     client_ok placed stored k cl2 w2 (vwrite demoView ''f'' 1022 [9, 9])"
proof -
  obtain w cl k where c: "client_ok placed stored k cl w demoView" "k \<le> 1"
    "findDescriptor 1 (openedFiles cl) = Some 0" "fname (openedFiles cl ! 0) = ''f''"
    "permissions (openedFiles cl ! 0) = [wholeFile]"
    by (rule demo_client)
  have "hasPermission (word_of_nat 1022) (word_of_nat (1022 + 2)) True (permissions (openedFiles cl ! 0))"
    unfolding c(5) by (rule whole_covers) (simp add: LIMIT_def)
  note acq = acquire_held [OF c(3) this, of "stubsOf (\<lambda>_. 0) 5 ''a''" w]
  have lim: "1022 + 2 \<le> LIMIT" "2 \<le> length [9, 9 :: uint8]" "k + rounds 1022 2 \<le> 1024"
    using c(2) by (simp_all add: LIMIT_def rounds_def)
  obtain hit cl2 w2 k2 where "writeFile (stubsOf (\<lambda>_. 0) 5 ''a'') 1 [9, 9] (int 2) (int 1022) cl w = Inr (int 2, hit, cl2, w2)"
    "client_ok placed stored k2 cl2 w2 (vwrite demoView (fname (openedFiles cl ! 0)) 1022 (take 2 [9, 9]))"
    using writeFile_refines [OF acq c(1) lim] by blast
  then have "writeFile (stubsOf (\<lambda>_. 0) 5 ''a'') 1 [9, 9] 2 1022 cl w = Inr (2, hit, cl2, w2) \<and>
     client_ok placed stored k2 cl2 w2 (vwrite demoView ''f'' 1022 [9, 9])" using c(4) by simp
  then show ?thesis by blast
qed

text \<open>
  C3. What a client writes under its token it reads back, no matter how often the flusher and the
  harvester of its cache run between the two calls.
\<close>

theorem write_then_read:
  assumes "client_ok placed stored k cl w v" "findDescriptor d (openedFiles cl) = Some i"
    and "hasPermission (word_of_nat x) (word_of_nat (x + n)) True (permissions (openedFiles cl ! i))"
    and "x + n \<le> LIMIT" "n \<le> length buf" "k + 2 * rounds x n \<le> 1024"
  shows "\<exists>hit cl1 w1. writeFile (stubsOf junk now me) d buf (int n) (int x) cl w = Inr (int n, hit, cl1, w1) \<and>
    (\<forall>cl2 w2. (client_thread (stubsOf junk now me))\<^sup>*\<^sup>* (cl1, w1) (cl2, w2) \<longrightarrow>
      (\<exists>hit' cl3 w3. readFile (stubsOf junk now me) d (int n) (int x) cl2 w2 = Inr (int n, take n buf, hit', cl3, w3)))"
  by (rule wired.write_read [OF assms])

theorem write_then_read_witness:
  "\<exists>cl w hit cl1 w1 hit' cl3 w3. writeFile (stubsOf (\<lambda>_. 0) 5 ''a'') 1 [9, 8] 2 1023 cl w = Inr (2, hit, cl1, w1) \<and>
     readFile (stubsOf (\<lambda>_. 0) 5 ''a'') 1 2 1023 cl1 w1 = Inr (2, [9, 8], hit', cl3, w3)"
proof -
  obtain w cl k where c: "client_ok placed stored k cl w demoView" "k \<le> 1"
    "findDescriptor 1 (openedFiles cl) = Some 0" "permissions (openedFiles cl ! 0) = [wholeFile]"
    by (rule demo_client)
  have p: "hasPermission (word_of_nat 1023) (word_of_nat (1023 + 2)) True (permissions (openedFiles cl ! 0))"
    unfolding c(4) by (rule whole_covers) (simp add: LIMIT_def)
  have lim: "1023 + 2 \<le> LIMIT" "2 \<le> length [9, 8 :: uint8]" "k + 2 * rounds 1023 2 \<le> 1024"
    using c(2) by (simp_all add: LIMIT_def rounds_def)
  obtain hit cl1 w1 hit' cl3 w3 where
    "writeFile (stubsOf (\<lambda>_. 0) 5 ''a'') 1 [9, 8] (int 2) (int 1023) cl w = Inr (int 2, hit, cl1, w1)"
    "readFile (stubsOf (\<lambda>_. 0) 5 ''a'') 1 (int 2) (int 1023) cl1 w1 = Inr (int 2, take 2 [9, 8], hit', cl3, w3)"
    using write_then_read [OF c(1,3) p lim, of "\<lambda>_. 0" 5 "''a''"] by blast
  then have "writeFile (stubsOf (\<lambda>_. 0) 5 ''a'') 1 [9, 8] 2 1023 cl w = Inr (2, hit, cl1, w1) \<and>
     readFile (stubsOf (\<lambda>_. 0) 5 ''a'') 1 2 1023 cl1 w1 = Inr (2, [9, 8], hit', cl3, w3)" by simp
  then show ?thesis by blast
qed

text \<open>
  C6. When a revocation reaches a client that is between two calls, it returns; then the client has
  no access to the range and no block of it in its cache, and every byte of these blocks that the
  client knew is on the file servers.
\<close>

theorem revocation_publishes:
  assumes "client_ok placed stored k cl w v" "first_index (\<lambda>f. fname f = name) (openedFiles cl) = Some i"
    and "fst (registerWaiting 0 (word_of_nat x) (word_of_nat y) (permissions (openedFiles cl ! i))) = 0"
    and "x \<le> y" "y < LIMIT"
  shows "\<exists>cl' w'. RevokePermission (dataStubs junk)
      \<lparr>rv_name = name, rv_start = word_of_nat x, rv_end = word_of_nat y, rv_isWrite = wr\<rparr> cl w = Inr (Status_OK, cl', w') \<and>
    client_ok placed stored k cl' w' v \<and>
    (\<forall>z. x div 1024 \<le> z div 1024 \<and> z div 1024 \<le> y div 1024 \<longrightarrow>
      cmap (cache cl') (descriptor (openedFiles cl ! i), blk z) = None \<and>
      (\<forall>b. v name z = Some b \<longrightarrow> stored w' name (stripWidth (openedFiles cl ! i)) z = Some b)) \<and>
    (\<forall>s e wr'. {s..<e} \<inter> {word_of_nat x..<word_of_nat y} \<noteq> {} \<longrightarrow>
      \<not> hasPermission s e wr' (permissions (openedFiles cl' ! i)))"
proof -
  obtain cl' w' where r: "client_revokePermission (dataStubs junk) name (word_of_nat x) (word_of_nat y) wr cl w = Inr (cl', w')"
    "client_ok placed stored k cl' w' v"
    "openedFiles cl' = (openedFiles cl)[i := (openedFiles cl ! i)\<lparr>permissions :=
       revokePermission (word_of_nat x) (word_of_nat y) (permissions (openedFiles cl ! i))\<rparr>]"
    "\<And>z. x div 1024 \<le> z div 1024 \<Longrightarrow> z div 1024 \<le> y div 1024 \<Longrightarrow>
       cmap (cache cl') (descriptor (openedFiles cl ! i), blk z) = None"
    "\<And>z b. x div 1024 \<le> z div 1024 \<Longrightarrow> z div 1024 \<le> y div 1024 \<Longrightarrow> v name z = Some b \<Longrightarrow>
       stored w' name (stripWidth (openedFiles cl ! i)) z = Some b"
    by (rule revoked.revoke_ok [OF assms]) (rule that)
  have "i < length (openedFiles cl)" using assms(2) by (simp add: first_index_Some)
  then have "permissions (openedFiles cl' ! i) = revokePermission (word_of_nat x) (word_of_nat y) (permissions (openedFiles cl ! i))"
    using r(3) by simp
  then show ?thesis using r(1,2,4,5) hasPermission_revoked by (intro exI [of _ cl'] exI [of _ w']) (simp add: RevokePermission_def)
qed

lemma demo_unlocked: "fst (registerWaiting 0 (word_of_nat x) (word_of_nat y) [wholeFile]) = 0"
  by (simp add: addWaitingSemaphore_def new_Permission_def)

lemma demo_first:
  assumes "length (openedFiles cl) = 1" "fname (openedFiles cl ! 0) = name"
  shows "first_index (\<lambda>f. fname f = name) (openedFiles cl) = Some 0"
  using assms by (simp add: first_index_Some)

theorem revocation_publishes_witness:
  "\<exists>cl w cl' w'. RevokePermission (dataStubs (\<lambda>_. 0))
      \<lparr>rv_name = ''f'', rv_start = 0, rv_end = 3, rv_isWrite = False\<rparr> cl w = Inr (Status_OK, cl', w') \<and>
    stored w' ''f'' 3 1 = Some 2"
proof -
  obtain w cl k where c: "client_ok placed stored k cl w demoView" "length (openedFiles cl) = 1"
    "fname (openedFiles cl ! 0) = ''f''" "stripWidth (openedFiles cl ! 0) = 3"
    "permissions (openedFiles cl ! 0) = [wholeFile]"
    by (rule demo_client)
  have free: "fst (registerWaiting 0 (word_of_nat 0) (word_of_nat 3) (permissions (openedFiles cl ! 0))) = 0"
    unfolding c(5) by (rule demo_unlocked)
  have lim: "(0::nat) \<le> 3" "3 < LIMIT" by (simp_all add: LIMIT_def)
  obtain cl' w' where r: "RevokePermission (dataStubs (\<lambda>_. 0))
      \<lparr>rv_name = ''f'', rv_start = word_of_nat 0, rv_end = word_of_nat 3, rv_isWrite = False\<rparr> cl w = Inr (Status_OK, cl', w')"
    "\<forall>z. 0 div 1024 \<le> z div 1024 \<and> z div 1024 \<le> 3 div 1024 \<longrightarrow>
      cmap (cache cl') (descriptor (openedFiles cl ! 0), blk z) = None \<and>
      (\<forall>b. demoView ''f'' z = Some b \<longrightarrow> stored w' ''f'' (stripWidth (openedFiles cl ! 0)) z = Some b)"
    using revocation_publishes [OF c(1) demo_first [OF c(2,3)] free lim, of "\<lambda>_. 0" False] by blast
  have "stored w' ''f'' 3 1 = Some 2"
    using r(2) [rule_format, of 1] c(4) by (simp add: demoView_def vwrite_def)
  then show ?thesis using r(1) by auto
qed

section \<open>Two clients\<close>

text \<open>The system of the witnesses with a second client that has the file open and no token.\<close>

lemma demo_two:
  obtains w F cla ka cl where "files (wmm w) ''f'' = Some F" "fname F = ''f''"
    "clientPermissions F = [(''b'', []), (''a'', [wholeFile])]" "clientStubs (wmm w) ''a'' = Some demoIp"
    "wclients w demoIp = Some cla" "client_ok placed stored ka cla w demoView" "length (openedFiles cla) = 1"
    "fname (openedFiles cla ! 0) = ''f''" "stripWidth (openedFiles cla ! 0) = 3" "permissions (openedFiles cla ! 0) = [wholeFile]"
    "client_ok placed stored 0 cl w (\<lambda>_ _. None)" "findDescriptor 1 (openedFiles cl) = Some 0"
    "fname (openedFiles cl ! 0) = ''f''" "stripWidth (openedFiles cl ! 0) = 3" "permissions (openedFiles cl ! 0) = []"
    "cmap (cache cl) = Map.empty"
proof -
  obtain w0 f F0 k where s: "session ''a'' demoIp demoView k [wholeFile] f F0 w0" "k \<le> 1"
    "fname f = ''f''" "descriptor f = 1" "stripWidth f = 3" by (rule demo_session)
  then obtain cla where cla: "wclients w0 demoIp = Some cla" "client_ok placed stored k cla w0 demoView" "openedFiles cla = [f]"
    and F0: "permissions f = [wholeFile]" "files (wmm w0) ''f'' = Some F0" "fname F0 = ''f''"
    by (auto simp: session_def)
  let ?F = "F0\<lparr>clientPermissions := [(''b'', []), (''a'', [wholeFile])]\<rparr>"
  let ?w = "w0\<lparr>wmm := (wmm w0)\<lparr>files := (files (wmm w0))(''f'' \<mapsto> ?F), clientStubs := (clientStubs (wmm w0))(''a'' \<mapsto> demoIp)\<rparr>\<rparr>"
  let ?cl = "(fresh demo_mem)\<lparr>openedFiles := [f\<lparr>permissions := []\<rparr>]\<rparr>"
  have "placed w0 ''f'' 3"
    using cla(2,3) s(3,5) by (simp add: client_ok_def coherent_def files_ok_def)
  then have "client_ok placed stored 0 ?cl w0 (\<lambda>_ _. None)"
    using fresh_cache [of demo_mem] s(3,5)
    by (simp add: client_ok_def coherent_def files_ok_def keys_ok_def fresh_def)
  then have "client_ok placed stored 0 ?cl ?w (\<lambda>_ _. None)" using client_ok_cong [of ?w w0] by simp
  moreover have "client_ok placed stored k cla ?w demoView" using cla(2) client_ok_cong [of ?w w0] by simp
  ultimately show thesis
    using that [of ?w ?F cla k ?cl] cla(1,3) F0 s(3-5) fresh_cache(2) [of demo_mem] by (simp add: findDescriptor_def)
qed

text \<open>A cache with the first block of descriptor 1.\<close>

lemma demo_block:
  obtains c where "cache_inv c" "cmap c (1, blk 0) = Some (replicate 1024 7, replicate 1024 False)"
proof -
  have a: "(0::uint32) AND 1023 = 0" "(1024::nat) \<le> length (replicate 1024 (7::uint8))" by simp_all
  obtain c where c: "addBlock 1 0 (replicate 1024 7) (new_Cache demo_mem) = Inr c" "cache_inv c"
    "cmap c = (cmap (new_Cache demo_mem))((1, 0) \<mapsto> (take 1024 (replicate 1024 7), replicate 1024 False))"
    by (rule addBlock_spec [OF new_Cache_spec(1) a, of demo_mem 1])
       (simp_all add: new_Cache_spec)
  then show thesis by (intro that [of c]) (simp_all add: blk_def)
qed

text \<open>
  C2. When exactly one other client holds a token in conflict with a read, that is a write token
  that meets the range, and is between two calls, the manager revokes it and the reader gets the
  bytes as the owner last knew them, also those the owner had not written to the file servers yet.
  The reader must have no block of the range in its cache: see C15 for one that has.
\<close>

theorem handover:
  assumes "files (wmm w) name = Some F" "fname F = name" "isOpenedBy me F"
    and "map fst (filter (\<lambda>(c, ps). c \<noteq> me \<and>
      (\<exists>p\<in>set ps. conflicts (word_of_nat x) (word_of_nat (x + n)) False p)) (clientPermissions F)) = [pa]"
      "clientStubs (wmm w) pa = Some ip" "wclients w ip = Some cla" "client_ok placed stored ka cla w v"
    and "first_index (\<lambda>f. fname f = name) (openedFiles cla) = Some i"
      "fst (registerWaiting 0 (word_of_nat x) (word_of_nat (x + n)) (permissions (openedFiles cla ! i))) = 0"
    and "x + n < LIMIT"
    and "client_ok placed stored k cl w u" "findDescriptor d (openedFiles cl) = Some j"
      "fname (openedFiles cl ! j) = name" "stripWidth (openedFiles cl ! j) = stripWidth (openedFiles cla ! i)"
      "\<forall>p\<in>set (permissions (openedFiles cl ! j)). isWrite p \<longrightarrow> \<not> permitHeld p"
      "\<not> hasPermission (word_of_nat x) (word_of_nat (x + n)) False (permissions (openedFiles cl ! j))"
      "\<forall>z. x \<le> z \<and> z < x + n \<longrightarrow> cmap (cache cl) (d, blk z) = None"
    and "k + rounds x n \<le> 1024"
  shows "\<exists>bytes hit cl2 w2. readFile (stubsOf junk now me) d (int n) (int x) cl w = Inr (int n, bytes, hit, cl2, w2) \<and>
    length bytes = n \<and> (\<forall>m<n. \<forall>b. v name (x + m) = Some b \<longrightarrow> bytes ! m = b)"
proof -
  obtain cl1 w1 where a:
    "acquirePermission (stubsOf junk now me) d (word_of_nat x) (word_of_nat (x + n)) False cl w = Inr (int j, cl1, w1)"
    "client_ok placed stored k cl1 w1 (handed name x n v)" "fname (openedFiles cl1 ! j) = name"
    by (rule acquire_one_owner [where junk = junk and now = now, OF assms(1-17)]) (rule that)
  have lim: "x + n \<le> LIMIT" using assms(10) by simp
  obtain bytes hit cl2 w2 k2 where r: "readFile (stubsOf junk now me) d (int n) (int x) cl w = Inr (int n, bytes, hit, cl2, w2)"
    "length bytes = n" "\<And>m b. m < n \<Longrightarrow> handed name x n v (fname (openedFiles cl1 ! j)) (x + m) = Some b \<Longrightarrow> bytes ! m = b"
    by (rule wired.readFile_ok [OF a(1,2) lim assms(18)]) (rule that)
  then have "\<forall>m<n. \<forall>b. v name (x + m) = Some b \<longrightarrow> bytes ! m = b" using a(3) by (simp add: handed_def)
  then show ?thesis using r(1,2) by blast
qed

lemma demo_conflict:
  "map fst (filter (\<lambda>(c, ps). c \<noteq> ''b'' \<and> (\<exists>p\<in>set ps. conflicts (word_of_nat 0) (word_of_nat (0 + 3)) False p))
     [(''b'', []), (''a'', [wholeFile])]) = [''a'']"
  by (simp add: conflicts_def isShared_def new_Permission_def INT_MAX_def)

lemma demo_free: "fst (registerWaiting 0 (word_of_nat 0) (word_of_nat (0 + 3)) [wholeFile]) = 0"
  by (rule demo_unlocked)

theorem handover_witness:
  "\<exists>cl w hit cl2 w2. readFile (stubsOf (\<lambda>_. 0) 5 ''b'') 1 3 0 cl w = Inr (3, [1, 2, 3], hit, cl2, w2)"
proof -
  obtain w F cla ka cl where m: "files (wmm w) ''f'' = Some F" "fname F = ''f''"
    "clientPermissions F = [(''b'', []), (''a'', [wholeFile])]" "clientStubs (wmm w) ''a'' = Some demoIp"
    "wclients w demoIp = Some cla" "client_ok placed stored ka cla w demoView" "length (openedFiles cla) = 1"
    "fname (openedFiles cla ! 0) = ''f''" "stripWidth (openedFiles cla ! 0) = 3" "permissions (openedFiles cla ! 0) = [wholeFile]"
    and r: "client_ok placed stored 0 cl w (\<lambda>_ _. None)" "findDescriptor 1 (openedFiles cl) = Some 0"
    "fname (openedFiles cl ! 0) = ''f''" "stripWidth (openedFiles cl ! 0) = 3" "permissions (openedFiles cl ! 0) = []"
    "cmap (cache cl) = Map.empty"
    by (rule demo_two) (rule that)
  have "\<exists>bytes hit cl2 w2. readFile (stubsOf (\<lambda>_. 0) 5 ''b'') 1 (int 3) (int 0) cl w = Inr (int 3, bytes, hit, cl2, w2) \<and>
    length bytes = 3 \<and> (\<forall>m<3. \<forall>b. demoView ''f'' (0 + m) = Some b \<longrightarrow> bytes ! m = b)"
    by (rule handover [OF m(1,2) _ _ m(4-6) demo_first [OF m(7,8)] _ _ r(1-3)])
       (simp_all only: m(3,9,10) r(4-6) demo_conflict demo_free, simp_all add: isOpenedBy_def m(3) LIMIT_def hasPermission_def rounds_demo)
  then obtain bytes hit cl2 w2 where b: "readFile (stubsOf (\<lambda>_. 0) 5 ''b'') 1 3 0 cl w = Inr (3, bytes, hit, cl2, w2)"
    "length bytes = 3" "\<forall>m<3. \<forall>b. demoView ''f'' m = Some b \<longrightarrow> bytes ! m = b" by auto
  then have "bytes = [1, 2, 3]" by (intro nth_equalityI) (auto simp: demoView_def vwrite_def)
  then show ?thesis using b(1) by blast
qed

text \<open>
  C10. A request for a token is always answered, and with \<^verbatim>\<open>OK\<close>, however many other clients hold
  tokens in conflict with it, when each of them listens at an address of its own and is between two
  calls. The granted token covers the request. When the answer arrives, all those clients have no
  access to any byte of the range and no block of it in their caches, and no other client has
  changed.
\<close>

theorem grant_after_all_owners:
  assumes "files (wmm w) name = Some F" "fname F = name" "isOpenedBy me F"
    and "map fst (filter (\<lambda>(c, ps). c \<noteq> me \<and>
      (\<exists>p\<in>set ps. conflicts (word_of_nat x) (word_of_nat y) wr p)) (clientPermissions F)) = cs"
    and "\<forall>c\<in>set cs. \<exists>ip. clientStubs (wmm w) c = Some ip \<and> revocable name x y w ip"
      "distinct (map (clientStubs (wmm w)) cs)"
    and "x \<le> y" "y < LIMIT"
  shows "\<exists>reply w'. rpc_GetPermission (stubsOf junk now me)
       \<lparr>pr_name = name, pr_start = word_of_nat x, pr_end = word_of_nat y, pr_isWrite = wr\<rparr> w = Inr (Status_OK, reply, w') \<and>
    {word_of_nat x..<word_of_nat y} \<subseteq> {pp_start reply..<pp_end reply} \<and>
    (\<forall>c\<in>set cs. \<exists>ip. clientStubs (wmm w) c = Some ip \<and> released name x y w' ip) \<and>
    (\<forall>ip. Some ip \<notin> clientStubs (wmm w) ` set cs \<longrightarrow> wclients w' ip = wclients w ip)"
proof -
  obtain reply w' where "rpc_GetPermission (stubsOf junk now me)
       \<lparr>pr_name = name, pr_start = word_of_nat x, pr_end = word_of_nat y, pr_isWrite = wr\<rparr> w = Inr (Status_OK, reply, w')"
    "{word_of_nat x..<word_of_nat y} \<subseteq> {pp_start reply..<pp_end reply}"
    "\<forall>c\<in>set cs. \<exists>ip. clientStubs (wmm w) c = Some ip \<and> released name x y w' ip"
    "\<forall>ip. Some ip \<notin> clientStubs (wmm w) ` set cs \<longrightarrow> wclients w' ip = wclients w ip"
    by (rule GetPermission_owners [OF assms]) (rule that)
  then show ?thesis by blast
qed

theorem grant_after_all_owners_witness:
  "\<exists>w reply w'. rpc_GetPermission (stubsOf (\<lambda>_. 0) 5 ''b'')
       \<lparr>pr_name = ''f'', pr_start = 0, pr_end = 3, pr_isWrite = False\<rparr> w = Inr (Status_OK, reply, w') \<and>
     (\<exists>cl. wclients w demoIp = Some cl \<and> hasPermission 0 3 True (permissions (openedFiles cl ! 0))) \<and>
     released ''f'' 0 3 w' demoIp"
proof -
  obtain w F cla ka cl where m: "files (wmm w) ''f'' = Some F" "fname F = ''f''"
    "clientPermissions F = [(''b'', []), (''a'', [wholeFile])]" "clientStubs (wmm w) ''a'' = Some demoIp"
    "wclients w demoIp = Some cla" "client_ok placed stored ka cla w demoView" "length (openedFiles cla) = 1"
    "fname (openedFiles cla ! 0) = ''f''" "permissions (openedFiles cla ! 0) = [wholeFile]"
    by (rule demo_two) (rule that)
  have "client_ok placed stored ka cla w (\<lambda>_ _. None)"
    using m(6) by (simp add: client_ok_def coherent_def)
  then have r: "revocable ''f'' 0 (0 + 3) w demoIp"
    using m(5,9) demo_first [OF m(7,8)] demo_free unfolding revocable_def by auto
  have "\<exists>reply w'. rpc_GetPermission (stubsOf (\<lambda>_. 0) 5 ''b'')
       \<lparr>pr_name = ''f'', pr_start = word_of_nat 0, pr_end = word_of_nat (0 + 3), pr_isWrite = False\<rparr> w = Inr (Status_OK, reply, w') \<and>
    {word_of_nat 0..<word_of_nat (0 + 3)} \<subseteq> {pp_start reply..<pp_end reply} \<and>
    (\<forall>c\<in>set [''a'']. \<exists>ip. clientStubs (wmm w) c = Some ip \<and> released ''f'' 0 (0 + 3) w' ip) \<and>
    (\<forall>ip. Some ip \<notin> clientStubs (wmm w) ` set [''a''] \<longrightarrow> wclients w' ip = wclients w ip)"
    by (rule grant_after_all_owners [OF m(1,2)])
       (use m(4) r in \<open>simp_all only: m(3) demo_conflict\<close>, use m(4) r in \<open>simp_all add: isOpenedBy_def m(3) LIMIT_def\<close>)
  moreover have "hasPermission (word_of_nat 0) (word_of_nat (0 + 3)) True (permissions (openedFiles cla ! 0))"
    unfolding m(9) by (rule whole_covers) (simp add: LIMIT_def)
  ultimately show ?thesis using m(4,5) by auto
qed

text \<open>
  C15. A reader that has the block in its cache from an earlier read of other bytes of it gets those
  old bytes: the request for the token makes the owner write the new ones to the file servers, but
  nothing removes the block from the reader's cache and \<^verbatim>\<open>readFile\<close> serves it from there.
\<close>

theorem stale_block:
  assumes "files (wmm w) name = Some F" "fname F = name" "isOpenedBy me F"
    and "map fst (filter (\<lambda>(c, ps). c \<noteq> me \<and>
      (\<exists>p\<in>set ps. conflicts (word_of_nat x) (word_of_nat (x + n)) False p)) (clientPermissions F)) = [pa]"
      "clientStubs (wmm w) pa = Some ip" "wclients w ip = Some cla" "client_ok placed stored ka cla w v"
    and "first_index (\<lambda>f. fname f = name) (openedFiles cla) = Some i"
      "fst (registerWaiting 0 (word_of_nat x) (word_of_nat (x + n)) (permissions (openedFiles cla ! i))) = 0"
    and "x + n < LIMIT"
    and "findDescriptor d (openedFiles cl) = Some j" "fname (openedFiles cl ! j) = name"
      "\<forall>p\<in>set (permissions (openedFiles cl ! j)). isWrite p \<longrightarrow> \<not> permitHeld p"
      "\<not> hasPermission (word_of_nat x) (word_of_nat (x + n)) False (permissions (openedFiles cl ! j))"
    and "stubReady cl" "cache_inv (cache cl)" "cmap (cache cl) (d, blk x) = Some (old, m)" "length old = 1024"
    and "0 < n" "n + x mod 1024 \<le> 1024"
  shows "\<exists>cl2 w2. readFile (stubsOf junk now me) d (int n) (int x) cl w =
      Inr (int n, take n (drop (x mod 1024) old), True, cl2, w2) \<and>
    (\<forall>q<n. \<forall>b. v name (x + q) = Some b \<longrightarrow> stored w2 name (stripWidth (openedFiles cla ! i)) (x + q) = Some b)"
proof -
  obtain ps w1 where a: "acquirePermission (stubsOf junk now me) d (word_of_nat x) (word_of_nat (x + n)) False cl w =
       Inr (int j, cl\<lparr>openedFiles := (openedFiles cl)[j := (openedFiles cl ! j)\<lparr>permissions := ps\<rparr>]\<rparr>, w1)"
    "\<And>z b. x div 1024 \<le> z div 1024 \<Longrightarrow> z div 1024 \<le> (x + n) div 1024 \<Longrightarrow> v name z = Some b \<Longrightarrow>
       stored w1 name (stripWidth (openedFiles cla ! i)) z = Some b"
    by (rule acquire_from_owner [where junk = junk and now = now, OF assms(1-14)]) (rule that)
  have "\<exists>cl2. readFile (stubsOf junk now me) d (int n) (int x) cl w =
      Inr (int n, take n (drop (x mod 1024) old), True, cl2, w1)"
    using assms(15-20) by (intro readFile_cached [OF a(1)]) simp_all
  moreover have "stored w1 name (stripWidth (openedFiles cla ! i)) (x + q) = Some b"
    if "q < n" "v name (x + q) = Some b" for q b
    using that by (intro a(2)) (simp_all add: div_le_mono)
  ultimately show ?thesis by blast
qed

theorem stale_block_witness:
  "\<exists>cl w cl2 w2. readFile (stubsOf (\<lambda>_. 0) 5 ''b'') 1 3 0 cl w = Inr (3, [7, 7, 7], True, cl2, w2) \<and>
     stored w2 ''f'' 3 0 = Some 1"
proof -
  obtain w F cla ka cl0 where m: "files (wmm w) ''f'' = Some F" "fname F = ''f''"
    "clientPermissions F = [(''b'', []), (''a'', [wholeFile])]" "clientStubs (wmm w) ''a'' = Some demoIp"
    "wclients w demoIp = Some cla" "client_ok placed stored ka cla w demoView" "length (openedFiles cla) = 1"
    "fname (openedFiles cla ! 0) = ''f''" "stripWidth (openedFiles cla ! 0) = 3" "permissions (openedFiles cla ! 0) = [wholeFile]"
    and r: "client_ok placed stored 0 cl0 w (\<lambda>_ _. None)" "findDescriptor 1 (openedFiles cl0) = Some 0"
    "fname (openedFiles cl0 ! 0) = ''f''" "permissions (openedFiles cl0 ! 0) = []"
    by (rule demo_two) (rule that)
  obtain c where c: "cache_inv c" "cmap c (1, blk 0) = Some (replicate 1024 7, replicate 1024 False)"
    by (rule demo_block)
  let ?cl = "cl0\<lparr>cache := c\<rparr>"
  have "\<exists>cl2 w2. readFile (stubsOf (\<lambda>_. 0) 5 ''b'') 1 (int 3) (int 0) ?cl w =
      Inr (int 3, take 3 (drop (0 mod 1024) (replicate 1024 7)), True, cl2, w2) \<and>
    (\<forall>q<3. \<forall>b. demoView ''f'' (0 + q) = Some b \<longrightarrow> stored w2 ''f'' (stripWidth (openedFiles cla ! 0)) (0 + q) = Some b)"
    by (rule stale_block [OF m(1,2) _ _ m(4-6) demo_first [OF m(7,8)], where m = "replicate 1024 False" and j = 0])
       (use r c in \<open>simp_all only: m(3,9,10) demo_conflict demo_free\<close>,
        use r c in \<open>simp_all add: isOpenedBy_def m(3) LIMIT_def hasPermission_def client_ok_def\<close>)
  then obtain cl2 w2 where b: "readFile (stubsOf (\<lambda>_. 0) 5 ''b'') 1 3 0 ?cl w = Inr (3, take 3 (replicate 1024 7), True, cl2, w2)"
    "\<forall>q<3. \<forall>b. demoView ''f'' q = Some b \<longrightarrow> stored w2 ''f'' 3 q = Some b" using m(9) by auto
  have "stored w2 ''f'' 3 0 = Some 1" using b(2) [rule_format, of 0 1] by (simp add: demoView_def vwrite_def)
  moreover have "take 3 (replicate 1024 (7::uint8)) = [7, 7, 7]" by (simp add: numeral_3_eq_3)
  ultimately show ?thesis using b(1) by auto
qed

end
