(* ===== verification/System_Defects.thy ===== *)
theory System_Defects
  imports System_Properties
begin

text \<open>
  Behaviour of the system that its users do not expect: results that look like success, calls that
  never return, and state that outlives the file it belongs to.
\<close>

section \<open>Defects that span components\<close>

text \<open>
  C16. \<^verbatim>\<open>pfs_open\<close> of a name that does not exist returns the status code 1, which is not negative and
  is the descriptor of the first file a client opens: a program that checks for a negative result
  goes on and writes to that file.
\<close>

theorem failed_open_aliases:
  assumes "session me ip v k [wholeFile] f F w" "files (wmm w) other = None"
    and "0 < n" "x + n \<le> LIMIT" "n \<le> length buf" "k + rounds x n \<le> 1024"
  shows "\<exists>hit w' k' f' F'. sysOpen junk now me ip other w = Inr (1, w) \<and>
    sysWrite junk now me ip 1 buf (int n) (int x) w = Inr ((int n, hit), w') \<and>
    session me ip (vwrite v (fname f) x (take n buf)) k' [wholeFile] f' F' w'"
proof -
  from assms(1) obtain cl where cl: "wclients w ip = Some cl" "stubReady cl" by (auto simp: session_def client_ok_def)
  moreover have "w\<lparr>wclients := (wclients w)(ip \<mapsto> cl)\<rparr> = w" using cl(1) by (cases w) (simp add: fun_upd_idem)
  ultimately have o: "sysOpen junk now me ip other w = Inr (1, w)"
    using assms(2) by (simp add: sysOpen_def asClient_def pfs_open_def openFile_def stubsOf_def OpenFile_def
      status_ok_def Status_OK_def Status_CANCELLED_def)
  obtain hit w' f' k' where "sysWrite junk now me ip 1 buf (int n) (int x) w = Inr ((int n, hit), w')"
    "session me ip (vwrite v (fname f) x (take n buf)) k' [wholeFile] f' (F\<lparr>clientPermissions := [(me, [wholeFile])]\<rparr>) w'"
    by (rule session_write [where junk = junk and now = now, OF assms(1) _ assms(3-6)]) (simp, rule that)
  then show ?thesis using o by blast
qed

theorem failed_open_aliases_witness:
  "\<exists>w w' hit. sysOpen (\<lambda>_. 0) 5 ''a'' demoIp ''g'' w = Inr (1, w) \<and>
     sysWrite (\<lambda>_. 0) 5 ''a'' demoIp 1 [9] 1 0 w = Inr ((1, hit), w') \<and> files (wmm w) ''g'' = None"
proof -
  obtain w f F k where s: "session ''a'' demoIp demoView k [wholeFile] f F w" "k \<le> 1" "files (wmm w) ''g'' = None"
    by (rule demo_session)
  have lim: "0 < (1::nat)" "0 + 1 \<le> LIMIT" "1 \<le> length [9 :: uint8]" "k + rounds 0 1 \<le> 1024"
    using s(2) by (simp_all add: LIMIT_def rounds_def)
  obtain hit w' where "sysOpen (\<lambda>_. 0) 5 ''a'' demoIp ''g'' w = Inr (1, w)"
    "sysWrite (\<lambda>_. 0) 5 ''a'' demoIp 1 [9] (int 1) (int 0) w = Inr ((int 1, hit), w')"
    using failed_open_aliases [OF s(1,3) lim, of "\<lambda>_. 0" 5] by blast
  then show ?thesis using s(3) by auto
qed



text \<open>
  The flag \<^verbatim>\<open>bool foundAt\<close> of \<^verbatim>\<open>closeFile\<close> is an index no larger than 1: closing the third open file
  sends its name with the size and the flag of the second one, and forgets the second one.
\<close>

theorem close_forgets_another:
  assumes "stubReady cl" "openedFiles cl = [f0, f1, f2]" "descriptor f0 \<noteq> descriptor f2" "descriptor f1 \<noteq> descriptor f2"
    and "permissions f1 = []"
    and "rpc_CloseFile S \<lparr>cl_name = fname f2, cl_hasModified = hasModified f1, cl_size = getSize f1\<rparr> w = Inr (Status_OK, w')"
  shows "closeFile S (descriptor f2) cl w = Inr (0, cl\<lparr>openedFiles := [f0, f2]\<rparr>, w')"
  using assms by (simp add: closeFile_def foundAtBool_def findDescriptor_def requestName_def verase_def)

lemma aligned_top:
  fixes a :: uint32
  assumes "1024 dvd unat a" "4294966272 \<le> en"
  shows "a \<le> en"
proof -
  have "unat a < 4294967296" using unsigned_less [of a] by simp
  then have "unat a \<le> 4294966272" using assms(1) by (auto elim!: dvdE)
  then show ?thesis using assms(2) by (simp add: word_le_nat_alt)
qed

lemma evictRange_endless:
  assumes "4294966272 \<le> en" "1024 dvd unat a"
  shows "\<exists>e. evictRange fl n d a en cw = Inl e"
  using assms(2)
proof (induction n arbitrary: a cw)
  case 0
  then show ?case using aligned_top [OF _ assms(1)] by simp
next
  case (Suc n)
  have "1024 dvd unat (a + 1024)"
    using Suc.prems by (simp add: unat_word_ariths dvd_mod)
  then show ?case using Suc aligned_top [OF _ assms(1)] by (cases "evictBlock fl d a cw") simp_all
qed

lemma evictRange_ends:
  assumes "coherent placed stored fs c w v" "cache_books k c" "en < 4294966272"
  shows "\<exists>cw. evictRange (flush (dataStubs junk) fs) evictFuel d (blockStart start) en (c, w) = Inr cw"
proof -
  let ?q = "unat start div 1024"
  have y: "unat en < 4294966272" using assms(3) by (simp add: word_less_nat_alt)
  have "unat start < 4294967296" using unsigned_less [of start] by simp
  then have "?q * 1024 < 4294967296" by simp
  then have bs: "unat (blockStart start) = ?q * 1024"
    by (simp add: blockStart_def unat_div_distrib unat_word_ariths)
  have bw: "blockStart start = word_of_nat (?q * 1024)" unfolding bs [symmetric] by simp
  show ?thesis
  proof (cases "?q \<le> unat en div 1024 + 1")
    case True
    have "unat en div 1024 + 1 \<le> ?q + evictFuel" using y by (simp add: evictFuel_def)
    from revoked.evictRange_ok [OF assms(1,2) y True this, of junk d] show ?thesis unfolding bw by auto
  next
    case False
    then have "unat en < ?q * 1024" by simp
    then have "\<not> blockStart start \<le> en" using bs by (simp add: word_le_nat_alt)
    then have "evictRange (flush (dataStubs junk) fs) n d (blockStart start) en (c, w) = Inr (c, w)" for n
      by (cases n) simp_all
    then show ?thesis by blast
  qed
qed

text \<open>
  C30. Addresses are 32 bits wide. A revocation that reaches a client between two calls, for a file
  it has open, returns if and only if its end is not in the last block of the address space: the
  loop over the blocks up to such an end wraps around, so that no number of rounds is enough for it,
  whatever a flush does.
\<close>

theorem revocation_ends_iff:
  assumes "client_ok placed stored k cl w v" "first_index (\<lambda>f. fname f = name) (openedFiles cl) = Some i"
    and "fst (registerWaiting 0 start en (permissions (openedFiles cl ! i))) = 0"
  shows "((\<exists>r. RevokePermission (dataStubs junk)
        \<lparr>rv_name = name, rv_start = start, rv_end = en, rv_isWrite = wr\<rparr> cl w = Inr r) \<longleftrightarrow> en < 4294966272) \<and>
    (4294966272 \<le> en \<longrightarrow> (\<forall>(fl :: CacheBlock \<Rightarrow> World \<Rightarrow> World result) m d cw. \<exists>e. evictRange fl m d (blockStart start) en cw = Inl e))"
proof -
  let ?f = "openedFiles cl ! i"
  let ?g = "?f\<lparr>permissions := revokePermission start en (permissions ?f)\<rparr>"
  let ?fs = "(openedFiles cl)[i := ?g]"
  have il: "i < length (openedFiles cl)" using assms(2) by (simp add: first_index_Some)
  have "coherent placed stored ?fs (cache cl) w v"
    using assms(1) by (intro coherent_fkey [OF fkey_update [OF il]]) (simp_all add: fkey_def client_ok_def)
  moreover have "cache_books k (cache cl)" using assms(1) by (simp add: client_ok_def)
  ultimately have ends: "\<exists>cw. evictRange (flush (dataStubs junk) ?fs) evictFuel (descriptor ?f) (blockStart start) en (cache cl, w) = Inr cw"
    if "en < 4294966272" using that by (rule evictRange_ends)
  have "1024 dvd unat (blockStart start)" by (simp add: blockStart_def unat_word_ariths dvd_mod)
  then have never: "\<exists>e. evictRange fl m d (blockStart start) en cw = Inl e"
    if "4294966272 \<le> en" for fl :: "CacheBlock \<Rightarrow> World \<Rightarrow> World result" and m d cw
    using evictRange_endless [OF that] by blast
  have "RevokePermission (dataStubs junk) \<lparr>rv_name = name, rv_start = start, rv_end = en, rv_isWrite = wr\<rparr> cl w =
      bindR (evictRange (flush (dataStubs junk) ?fs) evictFuel (descriptor ?f) (blockStart start) en (cache cl, w))
        (\<lambda>(c, w'). Inr (Status_OK, cl\<lparr>openedFiles := ?fs, cache := c\<rparr>, w'))"
    using assms(2) registerWaiting_none [OF assms(3)]
    by (simp add: RevokePermission_def client_revokePermission_def client_revokeBegin_def client_revokeFinish_def
        Let_def bindR_assoc split_def)
  note eq = this
  show ?thesis
  proof (cases "en < 4294966272")
    case True
    with ends obtain c w' where "evictRange (flush (dataStubs junk) ?fs) evictFuel (descriptor ?f) (blockStart start) en (cache cl, w) = Inr (c, w')"
      by auto
    moreover have "\<not> 4294966272 \<le> en" using True by (simp only: not_le)
    ultimately show ?thesis unfolding eq using True by simp
  next
    case False
    then have top: "4294966272 \<le> en" by (simp only: not_less)
    from never [OF top] obtain e
      where "evictRange (flush (dataStubs junk) ?fs) evictFuel (descriptor ?f) (blockStart start) en (cache cl, w) = Inl e" by blast
    then show ?thesis unfolding eq using False never [OF top] by simp
  qed
qed

theorem revocation_ends_iff_witness:
  "\<exists>cl w r. (RevokePermission (dataStubs (\<lambda>_. 0)) \<lparr>rv_name = ''f'', rv_start = 7, rv_end = 5000, rv_isWrite = True\<rparr> cl w = Inr r) \<and>
    \<not> (\<exists>r. RevokePermission (dataStubs (\<lambda>_. 0)) \<lparr>rv_name = ''f'', rv_start = 7, rv_end = 4294966272, rv_isWrite = True\<rparr> cl w = Inr r)"
proof -
  obtain w cl k where c: "client_ok placed stored k cl w demoView" "length (openedFiles cl) = 1"
    "fname (openedFiles cl ! 0) = ''f''" "permissions (openedFiles cl ! 0) = [wholeFile]"
    by (rule demo_client)
  have free: "fst (registerWaiting 0 s e (permissions (openedFiles cl ! 0))) = 0" for s e
    unfolding c(4) by (simp add: addWaitingSemaphore_def new_Permission_def)
  note ends = revocation_ends_iff [OF c(1) demo_first [OF c(2,3)] free, THEN conjunct1]
  let ?r = "\<lambda>e. \<lparr>rv_name = ''f'', rv_start = 7, rv_end = e, rv_isWrite = True\<rparr>"
  have "\<exists>r. RevokePermission (dataStubs (\<lambda>_. 0)) (?r 5000) cl w = Inr r"
    by (rule ends [THEN iffD2]) simp
  moreover have "\<not> (\<exists>r. RevokePermission (dataStubs (\<lambda>_. 0)) (?r 4294966272) cl w = Inr r)"
    unfolding ends by simp
  ultimately show ?thesis by blast
qed

text \<open>Creating strips keeps the width of a record that a server has already.\<close>

definition keeps_widths :: "World \<Rightarrow> World \<Rightarrow> bool" where
  "keeps_widths w w' \<longleftrightarrow> wmm w' = wmm w \<and> wclients w' = wclients w \<and> (\<forall>j. \<not> lockHeld (wfs w' j)) \<and>
     (\<forall>j n V. map_option stripWidth (fs_files (wfs w j) n) = Some V \<longrightarrow>
       map_option stripWidth (fs_files (wfs w' j) n) = Some V)"

lemma callCreate_keeps:
  assumes "\<forall>j. \<not> lockHeld (wfs w j)"
  shows "\<exists>w'. callCreate i r w = Inr (Status_OK, w') \<and> keeps_widths w w'"
proof -
  let ?f = "case fs_files (wfs w i) (cs_name r) of None \<Rightarrow> new_FSFile (cs_name r) (cs_stripeWidth r) | Some f \<Rightarrow> f"
  let ?p = "stripeAddress (filesDirectory (wfs w i)) (cs_name r) (cs_id r)"
  let ?s = "(wfs w i)\<lparr>fs_files := (fs_files (wfs w i))(cs_name r \<mapsto> ?f\<lparr>stripPaths := (stripPaths ?f)(sint (cs_id r) \<mapsto> ?p)\<rparr>),
    disk := (disk (wfs w i))(?p \<mapsto> [])\<rparr>"
  have "callCreate i r w = Inr (Status_OK, w\<lparr>wfs := (wfs w)(i := ?s)\<rparr>)"
    using assms by (simp add: callCreate_def FS_CreateFile_def addStrip_def Let_def)
  moreover have "keeps_widths w (w\<lparr>wfs := (wfs w)(i := ?s)\<rparr>)" using assms by (auto simp: keeps_widths_def)
  ultimately show ?thesis by blast
qed

lemma keeps_widths_trans: "keeps_widths w w1 \<Longrightarrow> keeps_widths w1 w2 \<Longrightarrow> keeps_widths w w2"
  by (simp add: keeps_widths_def del: map_option_eq_Some)

lemma createStripes_keeps:
  assumes "\<forall>j. \<not> lockHeld (wfs w j)" "\<forall>i\<in>set is. i < 2147483647"
  shows "\<exists>w'. createStripes callCreate r is w = Inr w' \<and> keeps_widths w w'"
  using assms
proof (induction "is" arbitrary: w)
  case (Cons i "is")
  obtain w1 where w1: "callCreate (i mod NUM_FILE_SERVERS) \<lparr>cs_name = cf_name r, cs_stripeWidth = cf_stripeWidth r, cs_id = word_of_nat i\<rparr> w =
      Inr (Status_OK, w1)" "keeps_widths w w1"
    using callCreate_keeps [OF Cons.prems(1)] by blast
  then have "\<forall>j. \<not> lockHeld (wfs w1 j)" by (simp add: keeps_widths_def)
  moreover have "\<forall>j\<in>set is. j < 2147483647" and i: "i < 2147483647" using Cons.prems(2) by simp_all
  ultimately obtain w2 where w2: "createStripes callCreate r is w1 = Inr w2" "keeps_widths w1 w2"
    using Cons.IH [of w1] by metis
  then have "createStripes callCreate r (i # is) w = Inr w2" using w1(1) i by (simp add: Let_def)
  then show ?case using keeps_widths_trans [OF w1(2) w2(2)] by blast
qed (simp add: keeps_widths_def)

text \<open>
  Deleting a file leaves the records of the file servers. When it is created again with another
  width, the manager and the clients use the new width and the server of its first block computes
  with the old one.
\<close>

theorem recreated_file_misplaced:
  assumes "idle name W u F w" "wclients w ip = Some (fresh mem)" "\<forall>j. \<not> lockHeld (wfs w j)" "word_of_int width \<noteq> W"
    and "0 \<le> width" "width \<le> 2147483647"
  shows "\<exists>w1 w2 F'. sysDelete junk now me ip name w = Inr (0, w1) \<and> sysCreate junk now me ip name width w1 = Inr (0, w2) \<and>
    files (wmm w2) name = Some F' \<and> stripWidth F' = word_of_int width \<and>
    map_option stripWidth (fs_files (wfs w2 0) name) = Some W \<and> \<not> placed w2 name (word_of_int width)"
proof -
  let ?r = "\<lparr>cf_name = name, cf_stripeWidth = word_of_int width\<rparr>"
  let ?w1 = "w\<lparr>wmm := (wmm w)\<lparr>files := (files (wmm w))(name := None)\<rparr>\<rparr>"
  let ?F = "new_MMFile name now now (word_of_int width)"
  have "stubReady (fresh mem)" by (simp add: fresh_def)
  note d = delete_idle [OF assms(1,2) this, of junk now me]
  have width: "unat (word_of_int width :: uint32) \<le> 2147483647"
    using assms(5,6) by (simp add: unsigned_of_int nat_le_iff take_bit_int_eq_self)
  obtain w2 where w2: "createStripes callCreate ?r [0..<unat (cf_stripeWidth ?r)] ?w1 = Inr w2" "keeps_widths ?w1 w2"
  proof -
    define m where "m = unat (cf_stripeWidth ?r)"
    have "\<forall>i\<in>set [0..<m]. i < 2147483647" using width by (simp add: m_def)
    moreover have "\<forall>j. \<not> lockHeld (wfs ?w1 j)" using assms(3) by simp
    ultimately show thesis using createStripes_keeps [of ?w1 "[0..<m]" ?r] that unfolding m_def by blast
  qed
  let ?w2 = "w2\<lparr>wmm := (wmm w2)\<lparr>files := (files (wmm w2))(name \<mapsto> ?F)\<rparr>\<rparr>"
  have "?w2\<lparr>wclients := (wclients w2)(ip \<mapsto> fresh mem)\<rparr> = ?w2"
    using assms(2) w2(2) by (cases w2) (simp add: fun_upd_idem keeps_widths_def)
  then have c: "sysCreate junk now me ip name width ?w1 = Inr (0, ?w2)"
    using assms(2) w2
    by (simp add: sysCreate_def asClient_def pfs_create_def createFile_def fresh_def stubsOf_def CreateFile_def keeps_widths_def)
  have "serverOf V 0 = 0" for V by (simp add: serverOf_def)
  moreover have "placed w name W" using assms(1) by (simp add: idle_def)
  ultimately have "map_option stripWidth (fs_files (wfs w 0) name) = Some W"
    unfolding placed_def by (metis LIMIT_def zero_less_numeral)
  then have s: "map_option stripWidth (fs_files (wfs ?w2 0) name) = Some W"
    using w2(2) by (simp add: keeps_widths_def del: map_option_eq_Some)
  then have "\<not> placed ?w2 name (word_of_int width)"
    using assms(4) \<open>\<And>V. serverOf V 0 = 0\<close> unfolding placed_def by (metis LIMIT_def option.inject zero_less_numeral)
  then show ?thesis
    using d c s by (intro exI [of _ ?w1] exI [of _ ?w2] exI [of _ ?F]) (simp add: new_MMFile_def)
qed

end
