(* ===== verification/Spec2Isabelle.thy ===== *)
theory Spec2Isabelle
  imports System_Defects
begin

text \<open>
  This development models PFS, a parallel file system of one metadata manager, five file servers
  and a client library that caches blocks, and proves what it does with the bytes of a file.

  \<^bold>\<open>The program.\<close> A file is cut into blocks of 1024 bytes; block \<open>i\<close> of a file with \<open>W\<close> strips
  belongs to strip \<open>i mod W\<close>, which lies on server \<open>i mod W mod 5\<close> as one native file. Clients ask
  the metadata manager for byte-range tokens before they read or write; the manager revokes tokens
  in conflict at their owners, which write their dirty blocks to the file servers and drop them. A
  client keeps blocks in a cache with a hash table, a recency list, a dirty list and a free list,
  and two threads that write back and evict.

  \<^bold>\<open>Theories and sources.\<close>
  \<^item> \<^verbatim>\<open>Prelude\<close>: machine types, the result type \<open>fault + 'a\<close> of code that can stop, C++ vectors.
    \<^verbatim>\<open>Util\<close>: \<^verbatim>\<open>include/config.h\<close>, \<^verbatim>\<open>include/util.h\<close>, \<^verbatim>\<open>common/util.cpp\<close>.
    \<^verbatim>\<open>Message\<close>: \<^verbatim>\<open>protos/message.proto\<close>.
  \<^item> \<^verbatim>\<open>Permission\<close>, \<^verbatim>\<open>File\<close>: a token and the vectors of tokens (\<^verbatim>\<open>common/permission.cpp\<close>,
    \<^verbatim>\<open>common/file.cpp\<close>). \<^verbatim>\<open>File_Query\<close>, \<^verbatim>\<open>File_Add\<close>, \<^verbatim>\<open>File_Bounds\<close>, \<^verbatim>\<open>File_Properties\<close>: what
    \<^verbatim>\<open>hasPermission\<close>, \<^verbatim>\<open>addPermission\<close> and \<^verbatim>\<open>revokePermission\<close> mean for the sets of bytes a vector
    covers, and the locale \<open>token_vector\<close> of laws the manager relies on.
  \<^item> \<^verbatim>\<open>MM_File\<close>, \<^verbatim>\<open>Metadata_Manager\<close>, \<^verbatim>\<open>MM_Properties\<close>: \<^verbatim>\<open>metadata_manager/mm_file.cpp\<close> and
    \<^verbatim>\<open>metadata_manager/metadata_manager.cpp\<close>, every handler, a step relation over all requests, and
    the exclusion of writers in every reachable state.
  \<^item> \<^verbatim>\<open>File_Server\<close>, \<^verbatim>\<open>FS_Locate\<close>, \<^verbatim>\<open>FS_Store\<close>, \<^verbatim>\<open>FS_Properties\<close>: \<^verbatim>\<open>file_server/fs_file.cpp\<close> and
    \<^verbatim>\<open>file_server/file_server.cpp\<close> with the native files as byte lists; the strip arithmetic, and the
    locale \<open>block_store\<close> for sequences of writes.
  \<^item> \<^verbatim>\<open>Cache_Block\<close>, \<^verbatim>\<open>Cache\<close>: \<^verbatim>\<open>client/cache_block.cpp\<close>, \<^verbatim>\<open>client/cache_block_metadata.cpp\<close> and
    \<^verbatim>\<open>client/cache.cpp\<close> with nodes as numbers and their links as functions. \<^verbatim>\<open>Cache_Lists\<close>,
    \<^verbatim>\<open>Cache_Rel\<close>: the pointer structures as lists. \<^verbatim>\<open>Cache_Ops\<close>, \<^verbatim>\<open>Cache_Threads\<close>, \<^verbatim>\<open>Cache_Runs\<close>,
    \<^verbatim>\<open>Cache_Properties\<close>: every operation against the abstract map \<open>cmap\<close> from descriptor and block
    address to data and dirty flags.
  \<^item> \<^verbatim>\<open>Client_File\<close>, \<^verbatim>\<open>PFS_Client\<close>: \<^verbatim>\<open>client/client_file.cpp\<close>, \<^verbatim>\<open>client/pfs_client.cpp\<close>,
    \<^verbatim>\<open>client/client_service.cpp\<close> and the C interface \<^verbatim>\<open>client/pfs.cpp\<close>, over a record \<open>Stubs\<close> of remote
    procedures on an arbitrary state.
  \<^item> \<^verbatim>\<open>Client_Address\<close>, \<^verbatim>\<open>Client_Store\<close>, \<^verbatim>\<open>Client_Flush\<close>, \<^verbatim>\<open>Client_Calls\<close>: the locale \<open>data_servers\<close>
    states the laws of the block calls; inside it the relation \<open>coherent\<close> between cache, servers and
    the bytes a client knows is kept by every read, write, write-back, eviction, revocation and close.
  \<^item> \<^verbatim>\<open>System\<close>: the record \<open>World\<close> of all processes. A stub runs the handler of the process it leads
    to, so nothing is assumed of the calls: \<open>data_servers\<close> is interpreted on the real handlers
    (\<open>wired\<close> for a client's own calls, \<open>revoked\<close> for those it makes inside a revocation). The mains
    \<^verbatim>\<open>pfs_MM.cpp\<close> and \<^verbatim>\<open>pfs_file_server.cpp\<close>. \<^verbatim>\<open>System_Create\<close>, \<^verbatim>\<open>System_Share\<close>, \<^verbatim>\<open>Sessions\<close>: creating
    a file on the servers, asking for bytes of other clients, and a client from open to close.
  \<^item> \<^verbatim>\<open>Test_Programs\<close>, \<^verbatim>\<open>Client_Program\<close>: \<^verbatim>\<open>test1-c1.cpp\<close>, \<^verbatim>\<open>test1-c2.cpp\<close>, \<^verbatim>\<open>test1-c3.cpp\<close> and
    \<^verbatim>\<open>pfs-client.cpp\<close>. \<^verbatim>\<open>System_Properties\<close>, \<^verbatim>\<open>System_Defects\<close> and this theory: the properties of the
    system as a whole.

  \<^bold>\<open>What is shown.\<close> For each component: its invariant in all reachable states, its operations
  against an abstract meaning on every branch, and the inputs for which the code does something
  else. For the system: a created file lies where clients look for it; reads and writes of the
  library refine reads and writes of a byte map, through cache, write-back and eviction; a
  revocation publishes what its owner knew, and the client that asked reads it; a request for a
  token is answered after all owners of conflicting ones have given the range up; the test programs
  run to their ends from the start of all processes. Defects that the proofs met are theorems too,
  among them reads of stale cached blocks, descriptors that stand for a failed open, locks that stay
  held, revocations that never end, and a cache that stops working after 1024 loaded blocks.

  \<^bold>\<open>Bounds and fuel.\<close> Loops are recursive functions. The ones over pointers take as many steps as
  there are nodes (2048, plus one) or, in the harvester, as blocks it may have to free (2020); that
  they end within this is proved from the invariant. The loop over the blocks of a range takes
  \<open>2\<^sup>2\<^sup>2\<close> steps, the number of aligned 32-bit addresses; it is proved to end within them exactly
  when the end of the range is not in the last block, and with no number of steps otherwise. Theorems on file positions hold below \<open>LIMIT\<close>, the last position whose block the file
  servers' signed arithmetic can address, and for at most 1024 loaded blocks of a client.

  \<^bold>\<open>Not modelled.\<close> gRPC and the generated protobuf code, beyond delivering a request to its handler
  and the reply back; printing; the creation of channels and threads. The manager starts one thread
  per revoked client and joins them all before it answers; here their calls are made one after the
  other. A revocation and a round of a cache thread happen between two calls of the library; in the
  program they can also fall into a call. The operations of the cache hold its mutex, but
  \<^verbatim>\<open>writeFile\<close> holds none between \<^verbatim>\<open>addBlock\<close> and the second \<^verbatim>\<open>write\<close>, whose result it ignores: if the
  harvester evicts the block in between, that write is lost. Such interleavings are outside of the
  theorems on reads and writes. A revocation that finds a locked token waits for the call that
  unlocks it; the model stops there with \<open>Waiting\<close>, and \<open>client_revokeFinish\<close> is what follows.
  A file server's \<^verbatim>\<open>fopen\<close> does not fail and a path, as a string, stands for one native file;
  \<^verbatim>\<open>new\<close> and \<^verbatim>\<open>malloc\<close> do not fail. \<^verbatim>\<open>evictFile\<close> of the cache, which nothing calls, is modelled
  but not a step of the runs in \<^verbatim>\<open>Cache_Runs\<close>. The \<^verbatim>\<open>Makefile\<close> has no behaviour of the running system.
\<close>

section \<open>Whole programs\<close>

text \<open>
  C13. The three test programs, run one after the other by three clients on a system that was just
  started, get to their ends: the first two write 4096 bytes each, the third sees the creation time
  of the first, the modification time of the second and a size of 8192, writes 3072 bytes, reads the
  2048 bytes from offset 1024 on as the first program wrote them, and deletes the file.
\<close>

theorem test1_passes:
  "\<exists>w1 w2 w3.
    test1_c1 junk now1 ''a'' [''test1-c1'', ''input'', ''1''] inputs heap1 (boot {''0.0.0.0:4001'', ''0.0.0.0:4002'', ''0.0.0.0:4003''} mem) = Inr (Some 4096, w1) \<and>
    test1_c2 junk now2 ''b'' [''test1-c2'', ''input'', ''2''] inputs heap2 w1 = Inr (Some 4096, w2) \<and>
    test1_c3 junk now3 ''c'' [''test1-c3'', ''input'', ''3''] inputs heap3 w2 =
      Inr (Some \<lparr>out_stat = Some (now1, now2, 8192), out_written = 3072, out_read = 2048,
                 out_buf = take 2048 (drop 1024 (loadBuf heap1 5120 (inputs ''input'') 4096 0)) @
                           drop 2048 (loadBuf heap3 4096 (inputs ''input'') 3072 8192)\<rparr>, w3) \<and>
    files (wmm w3) = Map.empty"
  by (rule test1_run [of junk now1 inputs heap1 mem now2 heap2 now3 heap3]) blast

text \<open>
  C14. Two clients run \<^verbatim>\<open>pfs-client\<close> one after the other on a system that was just started, with the
  same name: each writes its range and prints it as it was written, the second one is told that the
  file exists and goes on, and at the end the file servers store the bytes of both, the later ones
  where the ranges meet, and the manager records the larger of the two ends as the size.
\<close>

theorem client_program_runs:
  assumes "fillArgs name no1 x1 n1 b1 argv1" "fillArgs name no2 x2 n2 b2 argv2" "no1 \<noteq> no2"
  shows "\<exists>w1 w2 F.
    pfs_client_main junk now1 me1 argv1 heap1 (boot {''0.0.0.0:400'' @ no1, ''0.0.0.0:400'' @ no2} mem) =
      Inr (Some \<lparr>co_create = 0, co_written = int n1, co_read = int n1, co_bytes = replicate n1 (word_of_int b1)\<rparr>, w1) \<and>
    pfs_client_main junk now2 me2 argv2 heap2 w1 =
      Inr (Some \<lparr>co_create = - 1, co_written = int n2, co_read = int n2, co_bytes = replicate n2 (word_of_int b2)\<rparr>, w2) \<and>
    (\<forall>z. x2 \<le> z \<and> z < x2 + n2 \<longrightarrow> stored w2 name 7 z = Some (word_of_int b2)) \<and>
    (\<forall>z. x1 \<le> z \<and> z < x1 + n1 \<and> \<not> (x2 \<le> z \<and> z < x2 + n2) \<longrightarrow> stored w2 name 7 z = Some (word_of_int b1)) \<and>
    files (wmm w2) name = Some F \<and> getSize F = max (word_of_nat (x1 + n1)) (word_of_nat (x2 + n2)) \<and> \<not> isOpen F"
proof -
  let ?w = "boot {''0.0.0.0:400'' @ no1, ''0.0.0.0:400'' @ no2} mem"
  let ?u = "vwrite (\<lambda>_ _. None) name x1 (replicate n1 (word_of_int b1)) name"
  have cl: "wclients ?w (''0.0.0.0:400'' @ no1) = Some (new_PFSClient mem)" by (rule boot_ready(5)) simp
  obtain w1 F1 where r1: "pfs_client_main junk now1 me1 argv1 heap1 ?w =
      Inr (Some \<lparr>co_create = 0, co_written = int n1, co_read = int n1, co_bytes = replicate n1 (word_of_int b1)\<rparr>, w1)"
    "idle name 7 ?u F1 w1" "\<And>ip. ip \<noteq> ''0.0.0.0:400'' @ no1 \<Longrightarrow> wclients w1 ip = wclients ?w ip" "getSize F1 = word_of_nat (x1 + n1)"
    by (rule client_first [OF assms(1) cl boot_ready(4)]) (simp add: boot_ready(1-3), rule that)
  have cl1: "wclients w1 (''0.0.0.0:400'' @ no2) = Some (new_PFSClient mem)"
    using r1(3) [of "''0.0.0.0:400'' @ no2"] boot_ready(5) assms(3) by simp
  obtain w2 F2 where r2: "pfs_client_main junk now2 me2 argv2 heap2 w1 =
      Inr (Some \<lparr>co_create = - 1, co_written = int n2, co_read = int n2, co_bytes = replicate n2 (word_of_int b2)\<rparr>, w2)"
    "idle name 7 (vwrite (only name ?u) name x2 (replicate n2 (word_of_int b2)) name) F2 w2"
    "getSize F2 = max (getSize F1) (word_of_nat (x2 + n2))"
    by (rule client_next [OF assms(2) cl1 r1(2)]) (rule that)
  have st: "stored w2 name 7 z = Some b" if "vwrite (only name ?u) name x2 (replicate n2 (word_of_int b2)) name z = Some b" for z b
    using r2(2) that by (simp add: idle_def)
  have "\<forall>z. x2 \<le> z \<and> z < x2 + n2 \<longrightarrow> stored w2 name 7 z = Some (word_of_int b2)"
    by (intro allI impI st) (simp add: vwrite_def less_diff_conv2)
  moreover have "\<forall>z. x1 \<le> z \<and> z < x1 + n1 \<and> \<not> (x2 \<le> z \<and> z < x2 + n2) \<longrightarrow> stored w2 name 7 z = Some (word_of_int b1)"
    by (intro allI impI st) (auto simp: vwrite_def only_def)
  moreover have "files (wmm w2) name = Some F2" "\<not> isOpen F2" using r2(2) by (simp_all add: idle_def isOpen_def)
  ultimately show ?thesis using r1(1,4) r2(1,3) by (simp only:) blast
qed

theorem client_program_runs_witness:
  "\<exists>w1 w2. pfs_client_main (\<lambda>_. 0) 1 ''a'' [''pfs-client'', ''f'', ''1'', ''0'', ''2000'', ''7''] (\<lambda>_. 0) (boot {''0.0.0.0:4001'', ''0.0.0.0:4002''} demo_mem) =
      Inr (Some \<lparr>co_create = 0, co_written = 2000, co_read = 2000, co_bytes = replicate 2000 7\<rparr>, w1) \<and>
    pfs_client_main (\<lambda>_. 0) 2 ''b'' [''pfs-client'', ''f'', ''2'', ''1000'', ''3000'', ''-1''] (\<lambda>_. 0) w1 =
      Inr (Some \<lparr>co_create = - 1, co_written = 2000, co_read = 2000, co_bytes = replicate 2000 255\<rparr>, w2) \<and>
    stored w2 ''f'' 7 999 = Some 7 \<and> stored w2 ''f'' 7 1000 = Some 255"
proof -
  have "fillArgs ''f'' ''1'' 0 2000 7 [''pfs-client'', ''f'', ''1'', ''0'', ''2000'', ''7'']"
    "fillArgs ''f'' ''2'' 1000 2000 (- 1) [''pfs-client'', ''f'', ''2'', ''1000'', ''3000'', ''-1'']"
    by (simp_all add: fillArgs_def atoi_def LIMIT_def rounds_def)
  from client_program_runs [OF this, of "\<lambda>_. 0" 1 "''a''" "\<lambda>_. 0" demo_mem 2 "''b''" "\<lambda>_. 0"]
  obtain w1 w2 where w: "pfs_client_main (\<lambda>_. 0) 1 ''a'' [''pfs-client'', ''f'', ''1'', ''0'', ''2000'', ''7''] (\<lambda>_. 0) (boot {''0.0.0.0:400'' @ ''1'', ''0.0.0.0:400'' @ ''2''} demo_mem) =
      Inr (Some \<lparr>co_create = 0, co_written = int 2000, co_read = int 2000, co_bytes = replicate 2000 (word_of_int 7)\<rparr>, w1)"
    "pfs_client_main (\<lambda>_. 0) 2 ''b'' [''pfs-client'', ''f'', ''2'', ''1000'', ''3000'', ''-1''] (\<lambda>_. 0) w1 =
      Inr (Some \<lparr>co_create = - 1, co_written = int 2000, co_read = int 2000, co_bytes = replicate 2000 (word_of_int (- 1))\<rparr>, w2)"
    "\<forall>z. 1000 \<le> z \<and> z < 1000 + 2000 \<longrightarrow> stored w2 ''f'' 7 z = Some (word_of_int (- 1))"
    "\<forall>z. 0 \<le> z \<and> z < 0 + 2000 \<and> \<not> (1000 \<le> z \<and> z < 1000 + 2000) \<longrightarrow> stored w2 ''f'' 7 z = Some (word_of_int 7)"
    by auto
  then show ?thesis using w(3) [rule_format, of 1000] w(4) [rule_format, of 999]
    by (intro exI [of _ w1] exI [of _ w2]) simp
qed

end
